(* ===== verification/Go_Prelude.thy ===== *)
theory Go_Prelude
  imports Main "HOL-Library.Word"
begin

text \<open>
  The shared base of the development: the outcome of a Go call (a result, an error value or a
  run-time panic), 64-bit \<open>int\<close> arithmetic with its wrap-around, slice expressions with
  their run-time check, big-endian byte strings (\<open>math/big.SetBytes\<close>,
  \<open>encoding/binary.BigEndian\<close>) and the two loop shapes the sources use. The collections
  \<open>outcome_simps\<close>, \<open>safe_intros\<close> and \<open>go_arith\<close> carry the component proofs.
\<close>

named_theorems outcome_simps \<open>rewriting of outcomes to their successful or failing branches\<close>
named_theorems safe_intros \<open>introduction rules for the absence of panics\<close>
named_theorems go_arith \<open>64-bit arithmetic that stays in range\<close>

section \<open>Outcomes\<close>

type_synonym byte = "8 word"

text \<open>The run-time failures of Go that the modelled code can meet.\<close>

datatype go_panic =
    SliceOutOfRange
  | IndexOutOfRange
  | StackOverflow
  | MakeChanSize
  | NonPositiveTicker
  | SendOnClosedChannel
  | CloseOfClosedChannel
  | NilDereference
  | CallbackPanic      \<comment> \<open>a panic in a function of the caller\<close>
  | PanicValue string

datatype ('e, 'a) outcome = Ok 'a | Err 'e | Panic go_panic

primrec bind_out :: "('e, 'a) outcome \<Rightarrow> ('a \<Rightarrow> ('e, 'b) outcome) \<Rightarrow> ('e, 'b) outcome" where
  "bind_out (Ok x) f = f x"
| "bind_out (Err e) f = Err e"
| "bind_out (Panic p) f = Panic p"

text \<open>\<open>if err != nil { return nil, fmt.Errorf(... %w, err) }\<close>: a context put around an error.\<close>

primrec map_err :: "('e \<Rightarrow> 'f) \<Rightarrow> ('e, 'a) outcome \<Rightarrow> ('f, 'a) outcome" where
  "map_err c (Ok x) = Ok x"
| "map_err c (Err e) = Err (c e)"
| "map_err c (Panic p) = Panic p"

primrec map_ok :: "('a \<Rightarrow> 'b) \<Rightarrow> ('e, 'a) outcome \<Rightarrow> ('e, 'b) outcome" where
  "map_ok f (Ok x) = Ok (f x)"
| "map_ok f (Err e) = Err e"
| "map_ok f (Panic p) = Panic p"

primrec safe :: "('e, 'a) outcome \<Rightarrow> bool" where
  "safe (Ok x) = True"
| "safe (Err e) = True"
| "safe (Panic p) = False"

primrec is_ok :: "('e, 'a) outcome \<Rightarrow> bool" where
  "is_ok (Ok x) = True"
| "is_ok (Err e) = False"
| "is_ok (Panic p) = False"

lemma safe_iff: "safe m \<longleftrightarrow> (\<forall>p. m \<noteq> Panic p)"
  by (cases m) auto

lemma bind_out_eq_Ok [outcome_simps]:
  "bind_out m f = Ok y \<longleftrightarrow> (\<exists>x. m = Ok x \<and> f x = Ok y)"
  by (cases m) auto

lemma map_err_eq_Ok [simp]: "map_err c m = Ok y \<longleftrightarrow> m = Ok y"
  by (cases m) auto

lemma map_ok_eq_Ok [outcome_simps]: "map_ok f m = Ok y \<longleftrightarrow> (\<exists>x. m = Ok x \<and> y = f x)"
  by (cases m) auto

lemma bind_out_cong [fundef_cong]:
  "m = m' \<Longrightarrow> (\<And>x. m' = Ok x \<Longrightarrow> f x = g x) \<Longrightarrow> bind_out m f = bind_out m' g"
  by (cases m') auto

lemma bind_out_assoc:
  "bind_out (bind_out m f) g = bind_out m (\<lambda>x. bind_out (f x) g)"
  by (cases m) auto

lemma safe_map_err [simp]: "safe (map_err c m) \<longleftrightarrow> safe m"
  by (cases m) auto

lemma safe_map_ok [simp]: "safe (map_ok f m) \<longleftrightarrow> safe m"
  by (cases m) auto

lemma safe_bind [safe_intros]:
  "safe m \<Longrightarrow> (\<And>x. m = Ok x \<Longrightarrow> safe (f x)) \<Longrightarrow> safe (bind_out m f)"
  by (cases m) auto

lemma bind_out_eq_Panic:
  "bind_out m f = Panic p \<longleftrightarrow> m = Panic p \<or> (\<exists>x. m = Ok x \<and> f x = Panic p)"
  by (cases m) auto

lemma map_err_eq_Panic [simp]: "map_err c m = Panic p \<longleftrightarrow> m = Panic p"
  by (cases m) auto

section \<open>Loops over a list of indices\<close>

text \<open>
  \<open>for _, x := range xs\<close> with a mutable accumulator: the body runs on every element until
  one run fails. \<open>for i := range n\<close> is the same loop over \<open>0 \<dots> n - 1\<close>.
\<close>

fun for_each :: "('x \<Rightarrow> 's \<Rightarrow> ('e, 's) outcome) \<Rightarrow> 'x list \<Rightarrow> 's \<Rightarrow> ('e, 's) outcome" where
  "for_each f [] s = Ok s"
| "for_each f (x # xs) s = bind_out (f x s) (for_each f xs)"

abbreviation for_range :: "int \<Rightarrow> (nat \<Rightarrow> 's \<Rightarrow> ('e, 's) outcome) \<Rightarrow> 's \<Rightarrow> ('e, 's) outcome" where
  "for_range n f \<equiv> for_each f [0..<nat n]"

lemma for_each_cong [fundef_cong]:
  "xs = ys \<Longrightarrow> s = t \<Longrightarrow> (\<And>x s. x \<in> set ys \<Longrightarrow> f x s = g x s)
    \<Longrightarrow> for_each f xs s = for_each g ys t"
proof (induction xs arbitrary: ys s t)
  case Nil
  then show ?case by auto
next
  case (Cons x xs)
  then show ?case by (auto intro!: bind_out_cong)
qed

lemma safe_for_each:
  "(\<And>x s. x \<in> set xs \<Longrightarrow> safe (f x s)) \<Longrightarrow> safe (for_each f xs s)"
  by (induction xs arbitrary: s) (auto intro!: safe_bind)

text \<open>The loop invariant rule: what the body keeps holds of the final accumulator.\<close>

lemma for_each_invariant:
  assumes "for_each f xs s = Ok t" and "P s"
    and "\<And>x s s'. x \<in> set xs \<Longrightarrow> P s \<Longrightarrow> f x s = Ok s' \<Longrightarrow> P s'"
  shows "P t"
  using assms
proof (induction xs arbitrary: s)
  case Nil
  then show ?case by simp
next
  case (Cons x xs)
  from Cons.prems(1) obtain s' where s': "f x s = Ok s'" and rest: "for_each f xs s' = Ok t"
    by (auto simp: outcome_simps)
  have "P s'" by (rule Cons.prems(3) [OF _ Cons.prems(2) s']) simp
  then show ?case by (rule Cons.IH [OF rest]) (rule Cons.prems(3), simp_all)
qed

text \<open>A body that appends one block per element collects the blocks in order.\<close>

lemma for_each_append:
  assumes "\<And>x acc. x \<in> set xs \<Longrightarrow> f x acc = Ok (acc @ g x)"
  shows "for_each f xs acc = Ok (acc @ concat (map g xs))"
  using assms by (induction xs arbitrary: acc) simp_all

text \<open>No panic, and a postcondition for the result when there is one.\<close>

primrec ensures :: "('a \<Rightarrow> bool) \<Rightarrow> ('e, 'a) outcome \<Rightarrow> bool" where
  "ensures P (Ok x) = P x"
| "ensures P (Err e) = True"
| "ensures P (Panic p) = False"

lemma ensures_iff: "ensures P m \<longleftrightarrow> safe m \<and> (\<forall>x. m = Ok x \<longrightarrow> P x)"
  by (cases m) auto

lemma ensures_bind:
  "safe m \<Longrightarrow> (\<And>x. m = Ok x \<Longrightarrow> ensures P (f x)) \<Longrightarrow> ensures P (bind_out m f)"
  by (cases m) auto

lemma ensures_for_each:
  assumes "P s" and "\<And>x s. x \<in> set xs \<Longrightarrow> P s \<Longrightarrow> ensures P (f x s)"
  shows "ensures P (for_each f xs s)"
  using assms
proof (induction xs arbitrary: s)
  case Nil
  then show ?case by simp
next
  case (Cons x xs)
  have "ensures P (f x s)" by (rule Cons.prems(2)) (use Cons.prems(1) in simp_all)
  then show ?case
    using Cons.IH Cons.prems(2) by (cases "f x s") simp_all
qed

section \<open>Go's \<open>int\<close>\<close>

text \<open>\<open>int\<close> is 64 bits wide and wraps around; \<open>wrap64\<close> is applied where the code adds or multiplies.\<close>

definition wrap64 :: "int \<Rightarrow> int" where
  "wrap64 x = (x + 2 ^ 63) mod 2 ^ 64 - 2 ^ 63"

definition in_int64 :: "int \<Rightarrow> bool" where
  "in_int64 x \<longleftrightarrow> - (2 ^ 63) \<le> x \<and> x < 2 ^ 63"

lemma wrap64_id [go_arith]: "in_int64 x \<Longrightarrow> wrap64 x = x"
  by (simp add: wrap64_def in_int64_def)

lemma wrap64_in_int64: "in_int64 (wrap64 x)"
proof -
  have "0 \<le> (x + 2 ^ 63) mod 2 ^ 64" and "(x + 2 ^ 63) mod 2 ^ 64 < (2::int) ^ 64"
    by simp_all
  then show ?thesis unfolding in_int64_def wrap64_def by simp
qed

lemma wrap64_cong: "x mod 2 ^ 64 = y mod 2 ^ 64 \<Longrightarrow> wrap64 x = wrap64 y"
  unfolding wrap64_def by (metis mod_add_left_eq)

lemma wrap64_small [go_arith]: "0 \<le> x \<Longrightarrow> x < 2 ^ 63 \<Longrightarrow> wrap64 x = x"
  by (rule wrap64_id) (simp add: in_int64_def)

section \<open>Slices\<close>

text \<open>
  \<open>xs[lo:hi]\<close>. Every slice expression of the modelled code keeps \<open>hi\<close> within the length,
  so a bound past the length is the run-time panic.
\<close>

definition slice :: "'a list \<Rightarrow> int \<Rightarrow> int \<Rightarrow> ('e, 'a list) outcome" where
  "slice xs lo hi =
     (if 0 \<le> lo \<and> lo \<le> hi \<and> hi \<le> int (length xs)
      then Ok (take (nat (hi - lo)) (drop (nat lo) xs))
      else Panic SliceOutOfRange)"

definition sub_list :: "'a list \<Rightarrow> nat \<Rightarrow> nat \<Rightarrow> 'a list" where
  "sub_list xs off n = take n (drop off xs)"

text \<open>\<open>xs[i]\<close>.\<close>

definition go_index :: "'a list \<Rightarrow> int \<Rightarrow> ('e, 'a) outcome" where
  "go_index xs i =
     (if 0 \<le> i \<and> i < int (length xs) then Ok (xs ! nat i) else Panic IndexOutOfRange)"

lemma slice_Ok:
  "0 \<le> lo \<Longrightarrow> lo \<le> hi \<Longrightarrow> hi \<le> int (length xs)
    \<Longrightarrow> slice xs lo hi = Ok (sub_list xs (nat lo) (nat (hi - lo)))"
  by (simp add: slice_def sub_list_def)

lemma slice_eq_Ok [outcome_simps]:
  "slice xs lo hi = Ok ys \<longleftrightarrow>
     0 \<le> lo \<and> lo \<le> hi \<and> hi \<le> int (length xs) \<and> ys = sub_list xs (nat lo) (nat (hi - lo))"
  by (auto simp: slice_def sub_list_def)

lemma length_sub_list: "length (sub_list xs off n) = min n (length xs - off)"
  by (simp add: sub_list_def)

lemma length_sub_list_in [simp]: "off + n \<le> length xs \<Longrightarrow> length (sub_list xs off n) = n"
  by (simp add: sub_list_def)

lemma sub_list_append:
  "sub_list (pre @ xs @ post) (length pre) (length xs) = xs"
  by (simp add: sub_list_def)

lemma sub_list_drop: "sub_list (drop k xs) off n = sub_list xs (k + off) n"
  by (simp add: sub_list_def add.commute)

section \<open>Big-endian bytes\<close>

text \<open>\<open>new(big.Int).SetBytes(bs)\<close>: the unsigned big-endian value.\<close>

fun be_value :: "byte list \<Rightarrow> nat" where
  "be_value [] = 0"
| "be_value (b # bs) = unat b * 256 ^ length bs + be_value bs"

text \<open>\<open>binary.BigEndian.Uint64(bs)\<close> on the eight bytes the callers pass.\<close>

definition be_uint64 :: "byte list \<Rightarrow> 64 word" where
  "be_uint64 bs = word_of_nat (be_value bs)"

text \<open>The reference encoder: the \<open>n\<close> low-order bytes of a number, most significant first.\<close>

fun be_bytes :: "nat \<Rightarrow> nat \<Rightarrow> byte list" where
  "be_bytes 0 v = []"
| "be_bytes (Suc n) v = word_of_nat (v div 256 ^ n) # be_bytes n v"

lemma unat_byte_less: "unat (b :: byte) < 256"
  using unsigned_less [of b, where 'a = nat] by simp

lemma be_value_less: "be_value bs < 256 ^ length bs"
proof (induction bs)
  case Nil
  then show ?case by simp
next
  case (Cons b bs)
  have "unat b * 256 ^ length bs + be_value bs < (unat b + 1) * 256 ^ length bs"
    using Cons.IH by simp
  also have "\<dots> \<le> 256 * 256 ^ length bs"
    using unat_byte_less [of b] by (intro mult_right_mono) simp_all
  finally show ?case by simp
qed

lemma length_be_bytes [simp]: "length (be_bytes n v) = n"
  by (induction n) simp_all

lemma be_value_be_bytes: "be_value (be_bytes n v) = v mod 256 ^ n"
proof (induction n)
  case 0
  then show ?case by simp
next
  case (Suc n)
  have "v mod 256 ^ Suc n = (v div 256 ^ n) mod 256 * 256 ^ n + v mod 256 ^ n"
    using mod_mult2_eq [of v "256 ^ n" 256] by (simp add: mult.commute)
  then show ?case using Suc by (simp add: unat_of_nat)
qed

lemma be_value_append: "be_value (xs @ ys) = be_value xs * 256 ^ length ys + be_value ys"
  by (induction xs) (simp_all add: power_add algebra_simps)

lemma be_value_replicate_0 [simp]: "be_value (replicate n 0) = 0"
  by (induction n) simp_all

lemma be_value_0_iff: "be_value bs = 0 \<longleftrightarrow> (\<forall>b \<in> set bs. b = 0)"
  by (induction bs) (auto simp: unat_eq_zero)

end
