(* ===== verification/Evm_Types.thy ===== *)
theory Evm_Types
  imports Go_Hex
begin

text \<open>
  \<open>src/evm-lib/parser/types/types.go\<close>: confidences, addresses, selectors, transfers and the
  parse result, with the error values of the codecs. Fixed-size byte arrays are byte lists; the
  well-formedness predicates state their lengths and the codec theories prove that every
  decoded value has them.
\<close>

section \<open>Confidence\<close>

type_synonym confidence = "8 word"

definition Deterministic :: confidence where "Deterministic = 0"
definition Likely :: confidence where "Likely = 1"
definition Possible :: confidence where "Possible = 2"

definition Confidence_String :: "confidence \<Rightarrow> string" where
  "Confidence_String c =
     (if c = Deterministic then ''deterministic''
      else if c = Likely then ''likely''
      else if c = Possible then ''possible''
      else ''unknown'')"

section \<open>Addresses and selectors\<close>

type_synonym address = "byte list"
type_synonym selector = "byte list"
type_synonym input_params = "byte list"

definition addressLen :: nat where "addressLen = 20"
definition addressHexLen :: nat where "addressHexLen = 2 * addressLen"

definition ZeroAddress :: address where
  "ZeroAddress = replicate addressLen 0"

datatype address_error = InvalidAddressLength nat | InvalidAddressHex hex_error

definition AddressFromHex :: "string \<Rightarrow> (address_error, address) outcome" where
  "AddressFromHex s0 =
     (let s = TrimPrefix (TrimPrefix s0 ''0x'') ''0X'' in
      if length s \<noteq> addressHexLen then Err (InvalidAddressLength (length s))
      else bind_out (map_err InvalidAddressHex (hex_DecodeString s))
             (\<lambda>b. Ok (go_copy ZeroAddress b)))"

definition Address_Hex :: "address \<Rightarrow> string" where
  "Address_Hex a = ''0x'' @ hex_EncodeToString a"

definition Address_String :: "address \<Rightarrow> string" where
  "Address_String a = Address_Hex a"

definition Address_IsZero :: "address \<Rightarrow> bool" where
  "Address_IsZero a \<longleftrightarrow> a = ZeroAddress"

definition Selector_Hex :: "selector \<Rightarrow> string" where
  "Selector_Hex s = ''0x'' @ hex_EncodeToString s"

definition Selector_String :: "selector \<Rightarrow> string" where
  "Selector_String s = Selector_Hex s"

definition SelectorFromBytes :: "byte list \<Rightarrow> selector" where
  "SelectorFromBytes b = go_copy (replicate 4 0) b"

section \<open>Transfers\<close>

text \<open>\<open>Value\<close> is a \<open>*big.Int\<close>: \<open>None\<close> is the nil pointer of a literal that leaves it out.\<close>

record transfer =
  From :: address
  To :: address
  Value :: "int option"
  Confidence :: confidence

text \<open>The zero value of the struct: a composite literal overrides the fields it names.\<close>

definition zero_transfer :: transfer where
  "zero_transfer = \<lparr>From = ZeroAddress, To = ZeroAddress, Value = None, Confidence = Deterministic\<rparr>"

record parsed_input =
  Selector :: selector
  Transfers :: "transfer list"

definition wf_address :: "address \<Rightarrow> bool" where
  "wf_address a \<longleftrightarrow> length a = addressLen"

definition wf_transfer :: "transfer \<Rightarrow> bool" where
  "wf_transfer t \<longleftrightarrow> From t = ZeroAddress \<and> wf_address (To t)
     \<and> (case Value t of None \<Rightarrow> Confidence t = Possible | Some v \<Rightarrow> 0 \<le> v \<and> v < 2 ^ 256)
     \<and> Confidence t \<in> {Deterministic, Likely, Possible}"

definition wf_parsed :: "selector \<Rightarrow> parsed_input \<Rightarrow> bool" where
  "wf_parsed sel p \<longleftrightarrow> Selector p = sel \<and> (\<forall>t \<in> set (Transfers p). wf_transfer t)"

section \<open>Error values of the codecs\<close>

text \<open>
  One constructor per \<open>fmt.Errorf\<close> of package \<open>codec\<close> and of the parser, with its
  arguments; \<open>Ctx\<close> and \<open>CtxI\<close> are the formats that wrap another error with \<open>%w\<close>
  (\<open>CtxI\<close> those with an index).
\<close>

datatype evm_error =
    ReadWordAtOutOfBounds int int int
  | OffsetTooLarge nat
  | DynLengthOutOfBounds int
  | DynUnreasonableLength nat
  | DynDataOutOfBounds int int
  | ArrayOutOfBounds int
  | ArrayUnreasonableLength nat
  | UnsupportedSelector string selector
  | NoSubParser
  | LengthMismatch int int
  | TruncatedEntry int
  | UnreasonableDataLen int
  | DataOverflow int
  | ChainTooShort nat
  | ChainNoDecoder selector
  | ParserInvalidHex hex_error
  | ParserNoDecoder selector
  | Ctx string evm_error
  | CtxI string int string evm_error

type_synonym 'a res = "(evm_error, 'a) outcome"

section \<open>Properties\<close>

lemmas confidence_defs = Deterministic_def Likely_def Possible_def

lemma length_ZeroAddress [simp]: "length ZeroAddress = addressLen"
  by (simp add: ZeroAddress_def)

lemma length_SelectorFromBytes [simp]: "length (SelectorFromBytes b) = 4"
  by (simp add: SelectorFromBytes_def)

lemma SelectorFromBytes_id [simp]: "length b = 4 \<Longrightarrow> SelectorFromBytes b = b"
  by (simp add: SelectorFromBytes_def)

lemma TrimPrefix_hex:
  assumes "\<forall>c \<in> set s. hex_digit c \<noteq> None"
  shows "TrimPrefix s ''0x'' = s" and "TrimPrefix s ''0X'' = s"
proof -
  have "hex_digit (CHR ''x'') = None" and "hex_digit (CHR ''X'') = None"
    by (simp_all add: hex_digit_def)
  with assms have "CHR ''x'' \<notin> set s" and "CHR ''X'' \<notin> set s" by auto
  moreover have "take 2 s = [a, b] \<Longrightarrow> b \<in> set s" for a b :: char
    by (metis in_set_takeD list.set_intros(1,2))
  ultimately have "take 2 s \<noteq> ''0x''" and "take 2 s \<noteq> ''0X''" by auto
  then show "TrimPrefix s ''0x'' = s" and "TrimPrefix s ''0X'' = s"
    by (simp_all add: TrimPrefix_def numeral_2_eq_2)
qed

lemma hex_Encode_digits: "\<forall>c \<in> set (hex_EncodeToString bs). hex_digit c \<noteq> None"
  using hex_Decode_Ok_iff [of "hex_EncodeToString bs"]
  by (auto simp: hex_Decode_Encode is_hex_string_def)

text \<open>
  Printing an address and parsing it back gives the address: \<open>AddressFromHex\<close> undoes
  \<open>Hex\<close> (and \<open>String\<close>) on every 20-byte address, with and without the 0x prefix.
\<close>

lemma address_hex_roundtrip:
  assumes "wf_address a"
  shows "AddressFromHex (Address_String a) = Ok a \<and> AddressFromHex (hex_EncodeToString a) = Ok a"
proof -
  have "TrimPrefix (Address_Hex a) ''0x'' = hex_EncodeToString a"
    by (simp add: Address_Hex_def TrimPrefix_def)
  with assms show ?thesis
    by (simp add: AddressFromHex_def Address_String_def TrimPrefix_hex hex_Encode_digits
        hex_Decode_Encode addressHexLen_def wf_address_def)
qed

text \<open>
  \<open>AddressFromHex\<close> accepts exactly the strings that are forty hex digits after its two
  prefix trims; everything it returns is a 20-byte address, and it never panics.
\<close>

lemma AddressFromHex_accepts:
  "((\<exists>a. AddressFromHex s = Ok a) \<longleftrightarrow>
      (let t = TrimPrefix (TrimPrefix s ''0x'') ''0X'' in
       length t = 40 \<and> (\<forall>c \<in> set t. hex_digit c \<noteq> None)))
   \<and> (AddressFromHex s = Ok a \<longrightarrow> wf_address a) \<and> safe (AddressFromHex s)"
  using hex_Decode_Ok_iff [of "TrimPrefix (TrimPrefix s ''0x'') ''0X''"]
  by (auto simp: AddressFromHex_def Let_def addressHexLen_def addressLen_def wf_address_def
      is_hex_string_def outcome_simps intro!: safe_bind)

end
