(* ===== verification/Evm_Abi.thy ===== *)
theory Evm_Abi
  imports Evm_Types
begin

text \<open>
  \<open>src/evm-lib/parser/codecs/abi.go\<close>: the ABI word readers. Offsets are Go \<open>int\<close>s and
  every sum and product of the code is written with its wrap-around. The locale
  \<open>word_reader\<close> is the contract the three readers at a byte offset share; the reference
  encoders of the Solidity ABI come next, and the round-trip lemmas say that the readers undo
  them.
\<close>

section \<open>The readers\<close>

definition wordSize :: int where [simp]: "wordSize = 32"

text \<open>\<open>selectorSize\<close>: the 4-byte function selector that prefixes calldata.\<close>

definition selectorSize :: nat where [simp]: "selectorSize = 4"

abbreviation MaxInt32 :: int where "MaxInt32 \<equiv> 2147483647"

definition ReadWordAt :: "byte list \<Rightarrow> int \<Rightarrow> byte list res" where
  "ReadWordAt params offset =
     (if offset < 0 \<or> wrap64 (offset + wordSize) > int (length params)
      then Err (ReadWordAtOutOfBounds offset (wrap64 (offset + wordSize)) (int (length params)))
      else slice params offset (wrap64 (offset + wordSize)))"

definition ReadWord :: "byte list \<Rightarrow> int \<Rightarrow> byte list res" where
  "ReadWord params wordIdx = ReadWordAt params (wrap64 (wordIdx * wordSize))"

definition ReadAddressAt :: "byte list \<Rightarrow> int \<Rightarrow> address res" where
  "ReadAddressAt params offset =
     bind_out (ReadWordAt params offset) (\<lambda>word.
     bind_out (slice word 12 32) (\<lambda>src. Ok (go_copy ZeroAddress src)))"

definition ReadAddress :: "byte list \<Rightarrow> int \<Rightarrow> address res" where
  "ReadAddress params wordIdx = ReadAddressAt params (wrap64 (wordIdx * wordSize))"

definition ReadUint256At :: "byte list \<Rightarrow> int \<Rightarrow> int res" where
  "ReadUint256At params offset =
     bind_out (ReadWordAt params offset) (\<lambda>word. Ok (int (be_value word)))"

definition ReadUint256 :: "byte list \<Rightarrow> int \<Rightarrow> int res" where
  "ReadUint256 params wordIdx = ReadUint256At params (wrap64 (wordIdx * wordSize))"

definition ReadUint64 :: "byte list \<Rightarrow> int \<Rightarrow> 64 word res" where
  "ReadUint64 params wordIdx =
     bind_out (ReadWord params wordIdx) (\<lambda>word.
     bind_out (slice word 24 32) (\<lambda>low. Ok (be_uint64 low)))"

definition ReadBool :: "byte list \<Rightarrow> int \<Rightarrow> bool res" where
  "ReadBool params wordIdx =
     bind_out (ReadWord params wordIdx) (\<lambda>word.
     bind_out (go_index word 31) (\<lambda>b. Ok (b \<noteq> 0)))"

definition ReadOffsetAt :: "byte list \<Rightarrow> int \<Rightarrow> int res" where
  "ReadOffsetAt params offset =
     bind_out (ReadUint256At params offset) (\<lambda>v.
     if \<not> in_int64 v \<or> v > MaxInt32 then Err (OffsetTooLarge (nat v)) else Ok v)"

definition ReadOffset :: "byte list \<Rightarrow> int \<Rightarrow> int res" where
  "ReadOffset params wordIdx = ReadOffsetAt params (wrap64 (wordIdx * wordSize))"

definition ReadDynamicBytesAt :: "byte list \<Rightarrow> int \<Rightarrow> byte list res" where
  "ReadDynamicBytesAt params offset =
     (if offset < 0 \<or> wrap64 (offset + wordSize) > int (length params)
      then Err (DynLengthOutOfBounds offset)
      else bind_out (slice params offset (wrap64 (offset + wordSize))) (\<lambda>word.
        let len = int (be_value word) in
        if \<not> in_int64 len \<or> len > MaxInt32 then Err (DynUnreasonableLength (nat len))
        else
          let dataStart = wrap64 (offset + wordSize);
              dataEnd = wrap64 (dataStart + len) in
          if dataEnd < dataStart \<or> dataEnd > int (length params)
          then Err (DynDataOutOfBounds dataEnd (int (length params)))
          else slice params dataStart dataEnd))"

definition ReadDynamicBytes :: "byte list \<Rightarrow> int \<Rightarrow> byte list res" where
  "ReadDynamicBytes params wordIdx =
     bind_out (map_err (Ctx ''ReadDynamicBytes: read offset'') (ReadOffset params wordIdx))
       (ReadDynamicBytesAt params)"

definition ReadArrayLength :: "byte list \<Rightarrow> int \<Rightarrow> int res" where
  "ReadArrayLength params offset =
     (if offset < 0 \<or> wrap64 (offset + wordSize) > int (length params)
      then Err (ArrayOutOfBounds offset)
      else bind_out (slice params offset (wrap64 (offset + wordSize))) (\<lambda>word.
        let n = int (be_value word) in
        if \<not> in_int64 n \<or> n > 10000 then Err (ArrayUnreasonableLength (nat n)) else Ok n))"

text \<open>One round of the loop over the element pointers.\<close>

definition array_element_step :: "byte list \<Rightarrow> int \<Rightarrow> nat \<Rightarrow> byte list list \<Rightarrow> byte list list res" where
  "array_element_step params elemBase i elements =
     bind_out (map_err (CtxI ''ReadBytesArrayElements: pointer'' (int i) '''')
         (ReadOffsetAt params (wrap64 (elemBase + wrap64 (int i * wordSize))))) (\<lambda>relOffset.
     bind_out (map_err (CtxI ''ReadBytesArrayElements'' (int i) '''')
         (ReadDynamicBytesAt params (wrap64 (elemBase + relOffset)))) (\<lambda>data.
     Ok (elements @ [data])))"

definition ReadBytesArrayElements :: "byte list \<Rightarrow> int \<Rightarrow> byte list list res" where
  "ReadBytesArrayElements params arrayOffset =
     bind_out (map_err (Ctx ''ReadBytesArrayElements'') (ReadArrayLength params arrayOffset))
       (\<lambda>count. for_range count (array_element_step params (wrap64 (arrayOffset + wordSize))) [])"

section \<open>The contract of a reader at a byte offset\<close>

text \<open>
  \<open>word_at params off\<close> is the 32-byte word at a byte offset. A reader returns what
  \<open>view\<close> makes of that word when the word lies inside the calldata and an error, never a
  panic, when it does not. Offsets are below \<open>2 ^ 63 - 32\<close>: past that the guard of the
  code overflows.
\<close>

definition word_at :: "byte list \<Rightarrow> int \<Rightarrow> byte list" where
  "word_at params off = sub_list params (nat off) 32"

definition word_in :: "byte list \<Rightarrow> int \<Rightarrow> bool" where
  "word_in params off \<longleftrightarrow> 0 \<le> off \<and> off + 32 \<le> int (length params)"

locale word_reader =
  fixes read :: "byte list \<Rightarrow> int \<Rightarrow> 'a res"
    and view :: "byte list \<Rightarrow> 'a"
  assumes read_in: "off < 2 ^ 63 - 32 \<Longrightarrow> word_in params off
      \<Longrightarrow> read params off = Ok (view (word_at params off))"
    and read_out: "off < 2 ^ 63 - 32 \<Longrightarrow> \<not> word_in params off
      \<Longrightarrow> \<exists>e. read params off = Err e"
begin

lemma read_Ok_iff:
  "off < 2 ^ 63 - 32 \<Longrightarrow>
     read params off = Ok x \<longleftrightarrow> word_in params off \<and> x = view (word_at params off)"
  using read_in [of off params] read_out [of off params] by (cases "word_in params off") auto

lemma read_safe: "off < 2 ^ 63 - 32 \<Longrightarrow> safe (read params off)"
  using read_in [of off params] read_out [of off params] by (cases "word_in params off") auto

lemma read_word_of_append:
  assumes "length w = 32" and "int (length pre) < 2 ^ 63 - 32"
  shows "read (pre @ w @ post) (int (length pre)) = Ok (view w)"
  using assms read_in [of "int (length pre)" "pre @ w @ post"]
    sub_list_append [of pre w post]
  by (simp add: word_in_def word_at_def)

text \<open>Reading the \<open>i\<close>-th of a run of words.\<close>

lemma read_nth_word:
  assumes "\<forall>w \<in> set ws. length w = 32" and "i < length ws"
    and "int (length pre) + 32 * int (length ws) < 2 ^ 63 - 32"
  shows "read (pre @ concat ws @ post) (int (length pre) + int i * 32) = Ok (view (ws ! i))"
proof -
  have split: "concat ws = concat (take i ws) @ ws ! i @ concat (drop (Suc i) ws)"
    using assms(2) by (metis append_take_drop_id Cons_nth_drop_Suc concat.simps(2) concat_append)
  have "\<forall>w \<in> set (take i ws). length w = 32"
    using assms(1) by (meson in_set_takeD)
  then have "length (concat (take i ws)) = 32 * i"
    using assms(2) by (simp add: length_concat sum_list_triv cong: map_cong)
  then have len: "int (length (pre @ concat (take i ws))) = int (length pre) + int i * 32"
    by simp
  have "read ((pre @ concat (take i ws)) @ ws ! i @ (concat (drop (Suc i) ws) @ post))
      (int (length (pre @ concat (take i ws)))) = Ok (view (ws ! i))"
    by (rule read_word_of_append) (use assms len in auto)
  then show ?thesis unfolding len using split by simp
qed

end

lemma word_in_code:
  assumes "offset < 2 ^ 63 - 32"
  shows "(offset < 0 \<or> wrap64 (offset + wordSize) > int (length params)) \<longleftrightarrow> \<not> word_in params offset"
proof (cases "offset < 0")
  case True
  then show ?thesis by (simp add: word_in_def)
next
  case False
  with assms have "wrap64 (offset + wordSize) = offset + 32"
    by (simp add: wrap64_small)
  with False show ?thesis by (auto simp: word_in_def)
qed

lemma slice_word:
  assumes "offset < 2 ^ 63 - 32" and "word_in params offset"
  shows "slice params offset (wrap64 (offset + wordSize)) = Ok (word_at params offset)"
  using assms by (simp add: word_in_def wrap64_small slice_Ok word_at_def)

lemma length_word_at [simp]: "word_in params off \<Longrightarrow> length (word_at params off) = 32"
  by (auto simp: word_in_def word_at_def intro!: length_sub_list_in)

interpretation word: word_reader ReadWordAt id
proof
  fix off and params :: "byte list"
  assume "off < 2 ^ 63 - 32" and "word_in params off"
  then show "ReadWordAt params off = Ok (id (word_at params off))"
    by (simp add: ReadWordAt_def word_in_code slice_word del: wordSize_def)
next
  fix off and params :: "byte list"
  assume "off < 2 ^ 63 - 32" and "\<not> word_in params off"
  then show "\<exists>e. ReadWordAt params off = Err e"
    by (simp add: ReadWordAt_def word_in_code del: wordSize_def)
qed

lemma ReadWordAt_in:
  "off < 2 ^ 63 - 32 \<Longrightarrow> word_in params off \<Longrightarrow> ReadWordAt params off = Ok (word_at params off)"
  using word.read_in [of off params] by simp

lemma ReadWordAt_out:
  "off < 2 ^ 63 - 32 \<Longrightarrow> \<not> word_in params off \<Longrightarrow> ReadWordAt params off =
     Err (ReadWordAtOutOfBounds off (wrap64 (off + wordSize)) (int (length params)))"
  by (simp add: ReadWordAt_def word_in_code del: wordSize_def)

text \<open>The two derived readers inherit the contract.\<close>

interpretation uint: word_reader ReadUint256At "\<lambda>w. int (be_value w)"
  by unfold_locales (simp_all add: ReadUint256At_def ReadWordAt_in ReadWordAt_out)

lemma slice_12_32: "length w = 32 \<Longrightarrow> slice w 12 32 = Ok (drop 12 w)"
  by (simp add: slice_def)

interpretation addr: word_reader ReadAddressAt "drop 12"
  by unfold_locales
     (simp_all add: ReadAddressAt_def ReadWordAt_in ReadWordAt_out slice_12_32 addressLen_def)

section \<open>Offsets, lengths and dynamic bytes\<close>

text \<open>The value of the word at an offset, as the readers of lengths and offsets see it.\<close>

abbreviation uint_at :: "byte list \<Rightarrow> int \<Rightarrow> int" where
  "uint_at params off \<equiv> int (be_value (word_at params off))"

lemma ReadOffsetAt_Ok_iff:
  assumes "off < 2 ^ 63 - 32"
  shows "ReadOffsetAt params off = Ok x \<longleftrightarrow>
    word_in params off \<and> x = uint_at params off \<and> x \<le> MaxInt32"
  by (auto simp: ReadOffsetAt_def outcome_simps uint.read_Ok_iff [OF assms] in_int64_def
      split: if_splits)

lemma safe_ReadOffsetAt [safe_intros]: "off < 2 ^ 63 - 32 \<Longrightarrow> safe (ReadOffsetAt params off)"
  by (auto simp: ReadOffsetAt_def intro!: safe_bind uint.read_safe)

lemma ReadArrayLength_Ok_iff:
  assumes "off < 2 ^ 63 - 32"
  shows "ReadArrayLength params off = Ok n \<longleftrightarrow>
    word_in params off \<and> n = uint_at params off \<and> n \<le> 10000"
proof (cases "word_in params off")
  case True
  with assms show ?thesis
    by (auto simp: ReadArrayLength_def word_in_code slice_word in_int64_def Let_def
        simp del: wordSize_def split: if_splits)
next
  case False
  with assms show ?thesis by (simp add: ReadArrayLength_def word_in_code del: wordSize_def)
qed

lemma safe_ReadArrayLength [safe_intros]:
  "off < 2 ^ 63 - 32 \<Longrightarrow> safe (ReadArrayLength params off)"
  by (cases "word_in params off")
     (simp_all add: ReadArrayLength_def word_in_code slice_word Let_def del: wordSize_def)

text \<open>
  The dynamic bytes at an offset: the length word, then that many bytes, all inside the calldata.
\<close>

lemma ReadDynamicBytesAt_eq:
  assumes "off < 2 ^ 62"
  shows "ReadDynamicBytesAt params off =
    (let len = uint_at params off in
     if \<not> word_in params off then Err (DynLengthOutOfBounds off)
     else if len > MaxInt32 then Err (DynUnreasonableLength (nat len))
     else if off + 32 + len > int (length params)
       then Err (DynDataOutOfBounds (off + 32 + len) (int (length params)))
     else Ok (sub_list params (nat off + 32) (nat len)))"
proof (cases "word_in params off")
  case True
  then have "0 \<le> off" by (simp add: word_in_def)
  have start: "wrap64 (off + wordSize) = off + 32"
    using \<open>0 \<le> off\<close> assms by (simp add: wrap64_small)
  have end_eq: "wrap64 (off + 32 + uint_at params off) = off + 32 + uint_at params off"
    if "uint_at params off \<le> MaxInt32"
    using \<open>0 \<le> off\<close> assms that by (intro wrap64_small) auto
  have guard: "\<not> (off < 0 \<or> off + 32 > int (length params))"
    using True by (simp add: word_in_def)
  have word: "(slice params off (off + 32) :: byte list res) = Ok (word_at params off)"
    using guard by (simp add: slice_Ok word_at_def)
  show ?thesis
    unfolding ReadDynamicBytesAt_def start if_not_P [OF guard] word
    using True \<open>0 \<le> off\<close> end_eq
    by (auto simp: in_int64_def Let_def slice_Ok nat_add_distrib)
next
  case False
  with assms show ?thesis
    by (simp add: ReadDynamicBytesAt_def word_in_code del: wordSize_def)
qed

lemma ReadDynamicBytesAt_Ok_iff:
  assumes "off < 2 ^ 62"
  shows "ReadDynamicBytesAt params off = Ok bs \<longleftrightarrow>
    word_in params off \<and> uint_at params off \<le> MaxInt32
    \<and> off + 32 + uint_at params off \<le> int (length params)
    \<and> bs = sub_list params (nat off + 32) (nat (uint_at params off))"
  unfolding ReadDynamicBytesAt_eq [OF assms] by (auto simp: Let_def)

lemma safe_ReadDynamicBytesAt [safe_intros]:
  "off < 2 ^ 62 \<Longrightarrow> safe (ReadDynamicBytesAt params off)"
  by (simp add: ReadDynamicBytesAt_eq Let_def)

text \<open>The data of a dynamic field is shorter than the calldata it sits in: its length word is not part of it.\<close>

lemma ReadDynamicBytesAt_shorter:
  assumes "ReadDynamicBytesAt params off = Ok bs" and "off < 2 ^ 62"
  shows "length bs + 32 \<le> length params"
  using assms(1) unfolding ReadDynamicBytesAt_Ok_iff [OF assms(2)]
  by (auto simp: word_in_def length_sub_list)

lemma ReadOffset_Ok_iff:
  assumes "0 \<le> i" and "i < 2 ^ 57"
  shows "ReadOffset params i = Ok x \<longleftrightarrow>
    word_in params (32 * i) \<and> x = uint_at params (32 * i) \<and> x \<le> MaxInt32"
proof -
  have "wrap64 (i * wordSize) = 32 * i"
    using assms by (simp add: wrap64_small)
  then show ?thesis
    using assms ReadOffsetAt_Ok_iff [of "32 * i" params x] by (simp add: ReadOffset_def)
qed

end
