(* ===== verification/Evm_Abi_Spec.thy ===== *)
theory Evm_Abi_Spec
  imports Evm_Abi
begin

text \<open>
  The reference side of the readers of \<open>abi.go\<close>: the encoders of the Solidity ABI for words,
  addresses, byte strings and arrays of dynamic elements, and the properties of the readers:
  what they return on every input, where their bounds check overflows, and that they undo the
  encoders.
\<close>

section \<open>Reference encoders\<close>

definition enc_uint :: "nat \<Rightarrow> byte list" where
  "enc_uint v = be_bytes 32 v"

definition enc_addr :: "address \<Rightarrow> byte list" where
  "enc_addr a = replicate 12 0 @ a"

definition enc_bytes :: "byte list \<Rightarrow> byte list" where
  "enc_bytes d = enc_uint (length d) @ d @ replicate ((32 - length d mod 32) mod 32) 0"

text \<open>An array of dynamic elements: the count, one offset word per element, the elements.\<close>

fun enc_heads :: "nat \<Rightarrow> byte list list \<Rightarrow> byte list list" where
  "enc_heads off [] = []"
| "enc_heads off (t # ts) = enc_uint off # enc_heads (off + length t) ts"

definition enc_dyn_array :: "byte list list \<Rightarrow> byte list" where
  "enc_dyn_array ts = enc_uint (length ts) @ concat (enc_heads (32 * length ts) ts) @ concat ts"

lemma length_enc_uint [simp]: "length (enc_uint v) = 32"
  by (simp add: enc_uint_def)

lemma length_enc_addr [simp]: "wf_address a \<Longrightarrow> length (enc_addr a) = 32"
  by (simp add: enc_addr_def wf_address_def addressLen_def)

lemma drop_enc_addr [simp]: "drop 12 (enc_addr a) = a"
  by (simp add: enc_addr_def)

lemma be_value_enc_uint: "v < 2 ^ 256 \<Longrightarrow> be_value (enc_uint v) = v"
  by (simp add: enc_uint_def be_value_be_bytes)

lemma length_enc_heads [simp]: "length (enc_heads off ts) = length ts"
  by (induction ts arbitrary: off) simp_all

lemma enc_heads_words: "\<forall>w \<in> set (enc_heads off ts). length w = 32"
  by (induction ts arbitrary: off) simp_all

lemma enc_heads_nth:
  "i < length ts \<Longrightarrow> enc_heads off ts ! i = enc_uint (off + length (concat (take i ts)))"
  by (induction ts arbitrary: i off) (auto simp: nth_Cons' take_Cons' add.assoc)

lemma length_concat_enc_heads [simp]: "length (concat (enc_heads off ts)) = 32 * length ts"
  by (induction ts arbitrary: off) simp_all

section \<open>Reading back what was encoded\<close>

text \<open>A number that fits 31 bits, read as an offset.\<close>

lemma ReadOffsetAt_enc_uint:
  assumes "int v \<le> MaxInt32" and "int (length pre) < 2 ^ 63 - 32"
  shows "ReadOffsetAt (pre @ enc_uint v @ post) (int (length pre)) = Ok (int v)"
  using uint.read_word_of_append [of "enc_uint v" pre post] assms
  by (simp add: ReadOffsetAt_def in_int64_def be_value_enc_uint)

lemma ReadArrayLength_enc_uint:
  assumes "n \<le> 10000" and "int (length pre) < 2 ^ 63 - 32"
  shows "ReadArrayLength (pre @ enc_uint n @ post) (int (length pre)) = Ok (int n)"
proof -
  have "word_at (pre @ enc_uint n @ post) (int (length pre)) = enc_uint n"
    using sub_list_append [of pre "enc_uint n" post] by (simp add: word_at_def)
  with assms show ?thesis
    by (simp add: ReadArrayLength_Ok_iff word_in_def be_value_enc_uint)
qed

lemma ReadDynamicBytesAt_enc_bytes:
  assumes "int (length d) \<le> MaxInt32" and "int (length pre) < 2 ^ 62"
  shows "ReadDynamicBytesAt (pre @ enc_bytes d @ post) (int (length pre)) = Ok d"
proof -
  let ?pad = "replicate ((32 - length d mod 32) mod 32) 0"
  have "word_at (pre @ enc_bytes d @ post) (int (length pre)) = enc_uint (length d)"
    using sub_list_append [of pre "enc_uint (length d)" "d @ ?pad @ post"]
    by (simp add: word_at_def enc_bytes_def)
  moreover have "sub_list (pre @ enc_bytes d @ post) (length pre + 32) (length d) = d"
    using sub_list_append [of "pre @ enc_uint (length d)" d "?pad @ post"]
    by (simp add: enc_bytes_def)
  ultimately show ?thesis
    using assms
    by (simp add: ReadDynamicBytesAt_Ok_iff word_in_def be_value_enc_uint)
       (simp add: enc_bytes_def)
qed

text \<open>
  In an encoded array, the offset word of element \<open>i\<close> leads to a position where that element
  starts.
\<close>

lemma dyn_array_element:
  assumes "i < length ts" and "int (length (enc_dyn_array ts)) \<le> MaxInt32"
    and "int (length pre) \<le> MaxInt32"
  obtains rel pre' post' where
    "ReadOffsetAt (pre @ enc_dyn_array ts @ post) (int (length pre) + 32 + int i * 32) = Ok rel"
    and "pre @ enc_dyn_array ts @ post = pre' @ ts ! i @ post'"
    and "int (length pre') = int (length pre) + 32 + rel" and "0 \<le> rel"
    and "int (length pre') \<le> 2 * MaxInt32"
proof -
  let ?hs = "enc_heads (32 * length ts) ts" and ?p = "pre @ enc_uint (length ts)"
  let ?off = "32 * length ts + length (concat (take i ts))"
  have ts: "concat ts = concat (take i ts) @ ts ! i @ concat (drop (Suc i) ts)"
    using assms(1) by (metis append_take_drop_id Cons_nth_drop_Suc concat.simps(2) concat_append)
  then have "length (concat (take i ts)) \<le> length (concat ts)"
    by (metis le_add1 length_append)
  then have bound: "32 + ?off \<le> length (enc_dyn_array ts)"
    by (simp add: enc_dyn_array_def)
  then have off: "int ?off \<le> MaxInt32" using assms(2) by linarith
  have "ReadUint256At (?p @ concat ?hs @ (concat ts @ post)) (int (length ?p) + int i * 32)
      = Ok (int (be_value (?hs ! i)))"
    by (rule uint.read_nth_word) (use assms bound enc_heads_words in auto)
  then have "ReadOffsetAt (pre @ enc_dyn_array ts @ post) (int (length pre) + 32 + int i * 32)
      = Ok (int ?off)"
    using off assms(1)
    by (simp add: ReadOffsetAt_def enc_dyn_array_def enc_heads_nth be_value_enc_uint in_int64_def)
  moreover have "pre @ enc_dyn_array ts @ post
      = (?p @ concat ?hs @ concat (take i ts)) @ ts ! i @ (concat (drop (Suc i) ts) @ post)"
    using ts by (simp add: enc_dyn_array_def)
  ultimately show thesis
    by (rule that) (use off assms(3) bound assms(2) in auto)
qed

section \<open>Properties\<close>

text \<open>
  The word readers return exactly the calldata: for a non-negative word index the reader of
  a \<open>uint256\<close> gives the big-endian value of word \<open>i\<close> and the reader of an address its low
  20 bytes when the word lies inside the calldata, and both give an error otherwise.
\<close>

lemma ReadUint256_ReadAddress_exact:
  assumes "0 \<le> i" and "i < 2 ^ 57"
  shows "if 32 * i + 32 \<le> int (length params)
    then ReadUint256 params i = Ok (int (be_value (sub_list params (nat (32 * i)) 32)))
       \<and> ReadAddress params i = Ok (sub_list params (nat (32 * i) + 12) 20)
    else \<not> is_ok (ReadUint256 params i) \<and> \<not> is_ok (ReadAddress params i)
       \<and> safe (ReadUint256 params i) \<and> safe (ReadAddress params i)"
proof -
  have off: "wrap64 (i * wordSize) = 32 * i" "32 * i < 2 ^ 63 - 32"
    using assms by (simp_all add: wrap64_small)
  have low: "drop 12 (sub_list params k 32) = sub_list params (k + 12) 20" for k
    by (simp add: sub_list_def drop_take add.commute)
  show ?thesis
  proof (cases "word_in params (32 * i)")
    case True
    with off assms(1) show ?thesis
      by (simp add: ReadUint256_def ReadAddress_def uint.read_in addr.read_in word_at_def low
          del: wordSize_def) (simp add: word_in_def)
  next
    case False
    with uint.read_out [OF off(2)] addr.read_out [OF off(2)] obtain e1 e2
      where "ReadUint256At params (32 * i) = Err e1" "ReadAddressAt params (32 * i) = Err e2"
      by blast
    with False assms(1) show ?thesis
      by (simp add: ReadUint256_def ReadAddress_def off(1) word_in_def del: wordSize_def)
  qed
qed

text \<open>
  The bounds check of \<open>ReadWordAt\<close> overflows: for each of the 32 largest offsets the sum
  \<open>offset + wordSize\<close> wraps to a negative number, the check passes and the slice expression
  panics; and \<open>ReadWord\<close> takes the word index \<open>2 ^ 59\<close> for index 0.
\<close>

lemma ReadWordAt_overflow_panics:
  assumes "2 ^ 63 - 32 \<le> offset" and "offset < 2 ^ 63"
  shows "ReadWordAt params offset = Panic SliceOutOfRange
    \<and> ReadWord params (2 ^ 59) = ReadWord params 0"
proof -
  have "wrap64 (offset + 32) = wrap64 (offset + 32 - 2 ^ 64)"
    by (rule wrap64_cong) (simp only: minus_mod_self2)
  also have "\<dots> = offset + 32 - 2 ^ 64"
    using assms by (intro wrap64_id) (simp add: in_int64_def)
  finally have "wrap64 (offset + wordSize) < 0" using assms by simp
  moreover have "wrap64 (2 ^ 59 * wordSize) = 0" by (simp add: wrap64_def)
  moreover have "wrap64 (0 * wordSize) = 0" by (simp add: wrap64_def)
  ultimately show ?thesis
    using assms by (simp add: ReadWordAt_def ReadWord_def slice_def del: wordSize_def)
qed

lemma ReadBytesArrayElements_enc:
  assumes "length es \<le> 10000" and "int (length (enc_dyn_array (map enc_bytes es))) \<le> MaxInt32"
    and "int (length pre) \<le> MaxInt32"
  shows "ReadBytesArrayElements (pre @ enc_dyn_array (map enc_bytes es) @ post)
    (int (length pre)) = Ok es"
proof -
  let ?ts = "map enc_bytes es" and ?b = "int (length pre)"
  let ?params = "pre @ enc_dyn_array ?ts @ post"
  let ?body = "array_element_step ?params (wrap64 (?b + wordSize))"
  have len: "ReadArrayLength ?params ?b = Ok (int (length es))"
    using ReadArrayLength_enc_uint [of "length es" pre] assms
    by (simp add: enc_dyn_array_def)
  have body: "?body i acc = Ok (acc @ [es ! i])" if "i \<in> set [0..<length es]" for i acc
  proof -
    have i: "i < length ?ts" using that by simp
    obtain rel pre' post' where rel: "ReadOffsetAt ?params (?b + 32 + int i * 32) = Ok rel"
      and split: "?params = pre' @ ?ts ! i @ post'"
      and pre': "int (length pre') = ?b + 32 + rel" "0 \<le> rel" "int (length pre') \<le> 2 * MaxInt32"
      using dyn_array_element [OF i assms(2,3)] by metis
    have "length (enc_bytes (es ! i)) \<le> length (concat ?ts)"
      using that by (simp add: length_concat member_le_sum_list)
    then have "int (length (es ! i)) \<le> MaxInt32"
      using assms(2) by (simp add: enc_dyn_array_def) (simp add: enc_bytes_def)
    then have dat: "ReadDynamicBytesAt ?params (int (length pre')) = Ok (es ! i)"
      using ReadDynamicBytesAt_enc_bytes [of "es ! i" pre' post'] pre' split that by simp
    have "wrap64 (wrap64 (?b + wordSize) + wrap64 (int i * wordSize)) = ?b + 32 + int i * 32"
      using assms(1,3) that by (simp add: wrap64_small)
    moreover have "wrap64 (wrap64 (?b + wordSize) + rel) = int (length pre')"
      using pre' assms(3) by (simp add: wrap64_small)
    ultimately show ?thesis using rel dat by (simp add: array_element_step_def)
  qed
  have "for_each ?body [0..<length es] [] = Ok ([] @ concat (map (\<lambda>i. [es ! i]) [0..<length es]))"
    by (rule for_each_append) (rule body)
  then show ?thesis
    unfolding ReadBytesArrayElements_def len by (simp add: map_nth concat_map_singleton)
qed

text \<open>
  Reading the elements of a \<open>bytes[]\<close> undoes its ABI encoding wherever the array sits in
  the calldata: the elements come back in order, for up to 10000 elements and encodings below
  \<open>2 ^ 31\<close> bytes.
\<close>

lemma ReadBytesArrayElements_roundtrip:
  assumes "length es \<le> 10000" and "int (length (enc_dyn_array (map enc_bytes es))) \<le> MaxInt32"
    and "int (length pre) \<le> MaxInt32"
  shows "ReadBytesArrayElements (pre @ enc_dyn_array (map enc_bytes es) @ post)
    (int (length pre)) = Ok es"
  using assms by (rule ReadBytesArrayElements_enc)

end
