(* ===== verification/Evm_Codecs.thy ===== *)
theory Evm_Codecs
  imports Evm_Abi_Spec
begin

text \<open>
  The codecs that read a fixed number of head words: \<open>weth.go\<close>, \<open>aave_weth_gateway.go\<close>,
  \<open>uniswap_v2_router.go\<close>, \<open>uniswap_v3_payments.go\<close> and \<open>gnosis_safe.go\<close> under
  \<open>src/evm-lib/parser/codecs\<close>. The locale \<open>decoder\<close> is the contract behind Go's
  \<open>Decoder\<close> interface (chain.go, parser.go); every codec of the package interprets it.
\<close>

section \<open>The Decoder interface\<close>

text \<open>
  A decoder never panics on calldata of realistic length, returns only well-formed transfers
  under the selector it was asked for, and answers a selector it does not claim with an error.
\<close>

definition calldata :: "byte list \<Rightarrow> bool" where
  "calldata params \<longleftrightarrow> int (length params) < 2 ^ 62"

locale decoder =
  fixes can :: "selector \<Rightarrow> bool"
    and dec :: "selector \<Rightarrow> input_params \<Rightarrow> parsed_input res"
  assumes dec_safe: "calldata params \<Longrightarrow> safe (dec sel params)"
    and dec_wf: "calldata params \<Longrightarrow> dec sel params = Ok p \<Longrightarrow> wf_parsed sel p"
    and dec_unclaimed: "\<not> can sel \<Longrightarrow> \<exists>e. dec sel params = Err e"
begin

lemma dec_Ok_claimed: "dec sel params = Ok p \<Longrightarrow> can sel"
  using dec_unclaimed [of sel params] by (cases "can sel") auto

lemma dec_cases:
  assumes "calldata params"
  obtains p where "dec sel params = Ok p" "wf_parsed sel p" | e where "dec sel params = Err e"
  using dec_safe [OF assms, of sel] dec_wf [OF assms, of sel] by (cases "dec sel params") auto

end

section \<open>Selectors\<close>

definition selWETHWithdraw :: selector where "selWETHWithdraw = [0x2e, 0x1a, 0x7d, 0x4d]"
definition selAaveWithdrawETH :: selector where "selAaveWithdrawETH = [0x80, 0x50, 0x0d, 0x20]"
definition selV2SwapExactTokensForETH :: selector where
  "selV2SwapExactTokensForETH = [0x18, 0xcb, 0xaf, 0xe5]"
definition selV2SwapTokensForExactETH :: selector where
  "selV2SwapTokensForExactETH = [0x4a, 0x25, 0xd9, 0x4a]"
definition selV2SwapExactTokensForETHFOT :: selector where
  "selV2SwapExactTokensForETHFOT = [0x79, 0x1a, 0xc9, 0x47]"
definition selUnwrapWETH9 :: selector where "selUnwrapWETH9 = [0x49, 0x40, 0x4b, 0x7c]"
definition selUnwrapWETH9WithFee :: selector where "selUnwrapWETH9WithFee = [0x9b, 0x2c, 0x0a, 0x37]"
definition selRefundETH :: selector where "selRefundETH = [0x12, 0x21, 0x0e, 0x8a]"
definition selSafeExecTransaction :: selector where
  "selSafeExecTransaction = [0x6a, 0x76, 0x12, 0x02]"

lemmas static_selectors = selWETHWithdraw_def selAaveWithdrawETH_def
  selV2SwapExactTokensForETH_def selV2SwapTokensForExactETH_def selV2SwapExactTokensForETHFOT_def
  selUnwrapWETH9_def selUnwrapWETH9WithFee_def selRefundETH_def selSafeExecTransaction_def

section \<open>The codecs\<close>

definition WETH_CanDecode :: "selector \<Rightarrow> bool" where
  "WETH_CanDecode s \<longleftrightarrow> s = selWETHWithdraw"

definition WETH_Decode :: "selector \<Rightarrow> input_params \<Rightarrow> parsed_input res" where
  "WETH_Decode sel params =
     (if sel \<noteq> selWETHWithdraw then Err (UnsupportedSelector ''weth'' sel)
      else bind_out (map_err (Ctx ''weth.withdraw amount'') (ReadUint256 params 0)) (\<lambda>amount.
        Ok \<lparr>Selector = sel,
            Transfers = [zero_transfer\<lparr>Value := Some amount, Confidence := Likely\<rparr>]\<rparr>))"

definition aaveWordTo :: int where "aaveWordTo = 2"

definition Aave_CanDecode :: "selector \<Rightarrow> bool" where
  "Aave_CanDecode s \<longleftrightarrow> s = selAaveWithdrawETH"

definition Aave_Decode :: "selector \<Rightarrow> input_params \<Rightarrow> parsed_input res" where
  "Aave_Decode sel params =
     (if sel \<noteq> selAaveWithdrawETH then Err (UnsupportedSelector ''aave_weth_gateway'' sel)
      else
        bind_out (map_err (Ctx ''aave_weth_gateway: amount'') (ReadUint256 params 1)) (\<lambda>amount.
        bind_out (map_err (Ctx ''aave_weth_gateway: to'') (ReadAddress params aaveWordTo)) (\<lambda>to.
        Ok \<lparr>Selector = sel,
            Transfers = [zero_transfer\<lparr>To := to, Value := Some amount,
                                       Confidence := Deterministic\<rparr>]\<rparr>)))"

definition v2WordRecipient :: int where "v2WordRecipient = 3"

definition V2_CanDecode :: "selector \<Rightarrow> bool" where
  "V2_CanDecode s \<longleftrightarrow> s = selV2SwapExactTokensForETH \<or> s = selV2SwapTokensForExactETH
     \<or> s = selV2SwapExactTokensForETHFOT"

definition V2_Decode :: "selector \<Rightarrow> input_params \<Rightarrow> parsed_input res" where
  "V2_Decode sel params =
     (if \<not> V2_CanDecode sel then Err (UnsupportedSelector ''uniswap_v2_router'' sel)
      else
        bind_out (map_err (Ctx ''uniswap_v2_router: recipient'')
            (ReadAddress params v2WordRecipient)) (\<lambda>recipient.
        if sel = selV2SwapTokensForExactETH then
          bind_out (map_err (Ctx ''uniswap_v2_router: amountOut'') (ReadUint256 params 0))
            (\<lambda>amountOut.
          Ok \<lparr>Selector = sel,
              Transfers = [zero_transfer\<lparr>To := recipient, Value := Some amountOut,
                                         Confidence := Likely\<rparr>]\<rparr>)
        else
          bind_out (map_err (Ctx ''uniswap_v2_router: amountOutMin'') (ReadUint256 params 1))
            (\<lambda>amountOutMin.
          Ok \<lparr>Selector = sel,
              Transfers = [zero_transfer\<lparr>To := recipient, Value := Some amountOutMin,
                                         Confidence := Likely\<rparr>]\<rparr>)))"

definition v3WordFeeRecipient :: int where "v3WordFeeRecipient = 3"

definition V3_CanDecode :: "selector \<Rightarrow> bool" where
  "V3_CanDecode s \<longleftrightarrow> s = selUnwrapWETH9 \<or> s = selUnwrapWETH9WithFee \<or> s = selRefundETH"

definition V3_Decode :: "selector \<Rightarrow> input_params \<Rightarrow> parsed_input res" where
  "V3_Decode sel params =
     (if sel = selUnwrapWETH9 then
        bind_out (map_err (Ctx ''uniswap_v3.unwrapWETH9 amountMin'') (ReadUint256 params 0))
          (\<lambda>amountMin.
        bind_out (map_err (Ctx ''uniswap_v3.unwrapWETH9 recipient'') (ReadAddress params 1))
          (\<lambda>recipient.
        Ok \<lparr>Selector = sel,
            Transfers = [zero_transfer\<lparr>To := recipient, Value := Some amountMin,
                                       Confidence := Likely\<rparr>]\<rparr>))
      else if sel = selUnwrapWETH9WithFee then
        bind_out (map_err (Ctx ''uniswap_v3.unwrapWETH9WithFee amountMin'') (ReadUint256 params 0))
          (\<lambda>amountMin.
        bind_out (map_err (Ctx ''uniswap_v3.unwrapWETH9WithFee recipient'') (ReadAddress params 1))
          (\<lambda>recipient.
        bind_out (map_err (Ctx ''uniswap_v3.unwrapWETH9WithFee feeRecipient'')
            (ReadAddress params v3WordFeeRecipient)) (\<lambda>feeRecipient.
        Ok \<lparr>Selector = sel,
            Transfers = [zero_transfer\<lparr>To := recipient, Value := Some amountMin,
                                       Confidence := Likely\<rparr>,
                         zero_transfer\<lparr>To := feeRecipient, Confidence := Possible\<rparr>]\<rparr>)))
      else if sel = selRefundETH then
        Ok \<lparr>Selector = sel, Transfers = [zero_transfer\<lparr>Confidence := Possible\<rparr>]\<rparr>
      else Err (UnsupportedSelector ''uniswap_v3_payments'' sel))"

definition Safe_CanDecode :: "selector \<Rightarrow> bool" where
  "Safe_CanDecode s \<longleftrightarrow> s = selSafeExecTransaction"

definition Safe_Decode :: "selector \<Rightarrow> input_params \<Rightarrow> parsed_input res" where
  "Safe_Decode sel params =
     (if sel \<noteq> selSafeExecTransaction then Err (UnsupportedSelector ''gnosis_safe'' sel)
      else
        bind_out (map_err (Ctx ''gnosis_safe: to'') (ReadAddress params 0)) (\<lambda>to.
        bind_out (map_err (Ctx ''gnosis_safe: value'') (ReadUint256 params 1)) (\<lambda>v.
        Ok \<lparr>Selector = sel,
            Transfers = (if v > 0
               then [zero_transfer\<lparr>To := to, Value := Some v, Confidence := Deterministic\<rparr>]
               else [])\<rparr>)))"

section \<open>What the readers guarantee\<close>

text \<open>Word indices the codecs use: non-negative and small.\<close>

lemma wrap64_index: "0 \<le> i \<Longrightarrow> i < 2 ^ 57 \<Longrightarrow> wrap64 (i * wordSize) = 32 * i"
  by (simp add: wrap64_small)

lemma safe_ReadUint256 [safe_intros]: "0 \<le> i \<Longrightarrow> i < 2 ^ 57 \<Longrightarrow> safe (ReadUint256 params i)"
  by (simp only: ReadUint256_def wrap64_index) (rule uint.read_safe, simp)

lemma safe_ReadAddress [safe_intros]: "0 \<le> i \<Longrightarrow> i < 2 ^ 57 \<Longrightarrow> safe (ReadAddress params i)"
  by (simp only: ReadAddress_def wrap64_index) (rule addr.read_safe, simp)

lemma safe_ReadOffset [safe_intros]: "0 \<le> i \<Longrightarrow> i < 2 ^ 57 \<Longrightarrow> safe (ReadOffset params i)"
  by (simp only: ReadOffset_def wrap64_index) (rule safe_ReadOffsetAt, simp)

lemma ReadUint256At_range:
  assumes "ReadUint256At params off = Ok v" and "off < 2 ^ 63 - 32"
  shows "0 \<le> v \<and> v < 2 ^ 256"
proof -
  have "word_in params off" and v: "v = uint_at params off"
    using assms uint.read_Ok_iff [of off params v] by simp_all
  then have "be_value (word_at params off) < 256 ^ 32"
    using be_value_less [of "word_at params off"] by simp
  then show ?thesis using v by simp
qed

lemma ReadAddressAt_wf: "ReadAddressAt params off = Ok a \<Longrightarrow> wf_address a"
  by (auto simp: ReadAddressAt_def outcome_simps wf_address_def)

lemma ReadUint256_range:
  "ReadUint256 params i = Ok v \<Longrightarrow> 0 \<le> i \<Longrightarrow> i < 2 ^ 57 \<Longrightarrow> 0 \<le> v \<and> v < 2 ^ 256"
  by (simp only: ReadUint256_def wrap64_index) (erule ReadUint256At_range, simp)

lemma ReadAddress_wf: "ReadAddress params i = Ok a \<Longrightarrow> wf_address a"
  by (simp add: ReadAddress_def ReadAddressAt_wf)

lemma wf_value_transfer:
  assumes "wf_address a" and "0 \<le> v" and "v < 2 ^ 256" and "c \<in> {Deterministic, Likely, Possible}"
  shows "wf_transfer (zero_transfer\<lparr>To := a, Value := Some v, Confidence := c\<rparr>)"
  using assms by (auto simp: wf_transfer_def zero_transfer_def)

lemma wf_hint_transfer:
  "wf_address a \<Longrightarrow> wf_transfer (zero_transfer\<lparr>To := a, Confidence := Possible\<rparr>)"
  by (auto simp: wf_transfer_def zero_transfer_def)

lemma wf_address_Zero [simp]: "wf_address ZeroAddress"
  by (simp add: wf_address_def)

lemma zero_transfer_To: "zero_transfer = zero_transfer\<lparr>To := ZeroAddress\<rparr>"
  by (simp add: zero_transfer_def)

lemmas word_constants = aaveWordTo_def v2WordRecipient_def v3WordFeeRecipient_def

section \<open>Every codec meets the contract\<close>

lemmas codec_defs = WETH_CanDecode_def WETH_Decode_def Aave_CanDecode_def Aave_Decode_def
  V2_CanDecode_def V2_Decode_def V3_CanDecode_def V3_Decode_def Safe_CanDecode_def Safe_Decode_def
  word_constants

lemma wf_weth_transfer:
  assumes "0 \<le> v" and "v < 2 ^ 256"
  shows "wf_transfer (zero_transfer\<lparr>Value := Some v, Confidence := Likely\<rparr>)"
  using assms by (simp add: wf_transfer_def zero_transfer_def)

lemma wf_refund_transfer: "wf_transfer (zero_transfer\<lparr>Confidence := Possible\<rparr>)"
  by (simp add: wf_transfer_def zero_transfer_def)

lemmas wf_transfer_rules = wf_value_transfer wf_hint_transfer wf_weth_transfer wf_refund_transfer

interpretation weth: decoder WETH_CanDecode WETH_Decode
  by unfold_locales
     (auto simp: codec_defs outcome_simps wf_parsed_def
       intro!: safe_bind safe_ReadUint256 wf_transfer_rules dest!: ReadUint256_range split: if_splits)

interpretation aave: decoder Aave_CanDecode Aave_Decode
  by unfold_locales
     (auto simp: codec_defs outcome_simps wf_parsed_def
       intro!: safe_bind safe_ReadUint256 safe_ReadAddress wf_transfer_rules
       dest!: ReadUint256_range ReadAddress_wf split: if_splits)

interpretation v2: decoder V2_CanDecode V2_Decode
  by unfold_locales
     (auto simp: codec_defs outcome_simps wf_parsed_def
       intro!: safe_bind safe_ReadUint256 safe_ReadAddress wf_transfer_rules
       dest!: ReadUint256_range ReadAddress_wf split: if_splits)

interpretation v3: decoder V3_CanDecode V3_Decode
  by unfold_locales
     (auto simp: codec_defs outcome_simps wf_parsed_def
       intro!: safe_bind safe_ReadUint256 safe_ReadAddress wf_transfer_rules
       dest!: ReadUint256_range ReadAddress_wf split: if_splits)

interpretation gsafe: decoder Safe_CanDecode Safe_Decode
  by unfold_locales
     (auto simp: codec_defs outcome_simps wf_parsed_def
       intro!: safe_bind safe_ReadUint256 safe_ReadAddress wf_transfer_rules
       dest!: ReadUint256_range ReadAddress_wf split: if_splits)

section \<open>Properties\<close>

text \<open>A head word is readable exactly when the calldata holds it.\<close>

lemma is_ok_bind: "is_ok (bind_out m f) \<longleftrightarrow> (\<exists>x. m = Ok x \<and> is_ok (f x))"
  by (cases m) auto

lemma is_ok_iff: "is_ok m \<longleftrightarrow> (\<exists>x. m = Ok x)"
  by (cases m) auto

lemma ReadUint256_ok_iff:
  assumes "0 \<le> i" and "i < 2 ^ 57"
  shows "(\<exists>v. ReadUint256 params i = Ok v) \<longleftrightarrow> 32 * i + 32 \<le> int (length params)"
  using assms uint.read_Ok_iff [of "32 * i" params]
  by (simp add: ReadUint256_def wrap64_index word_in_def del: wordSize_def)

lemma ReadAddress_ok_iff:
  assumes "0 \<le> i" and "i < 2 ^ 57"
  shows "(\<exists>a. ReadAddress params i = Ok a) \<longleftrightarrow> 32 * i + 32 \<le> int (length params)"
  using assms addr.read_Ok_iff [of "32 * i" params]
  by (simp add: ReadAddress_def wrap64_index word_in_def del: wordSize_def)

text \<open>
  The fixed-layout codecs decode exactly the calls that carry their head words: a call
  succeeds if and only if the codec claims the selector and the calldata reaches the last word
  the codec reads (32, 96, 128, 64, 128, 0 and 64 bytes); any shorter calldata is an error.
\<close>

lemma fixed_codecs_accept:
  "(is_ok (WETH_Decode sel params) \<longleftrightarrow> WETH_CanDecode sel \<and> 32 \<le> length params)
   \<and> (is_ok (Aave_Decode sel params) \<longleftrightarrow> Aave_CanDecode sel \<and> 96 \<le> length params)
   \<and> (is_ok (V2_Decode sel params) \<longleftrightarrow> V2_CanDecode sel \<and> 128 \<le> length params)
   \<and> (is_ok (V3_Decode sel params) \<longleftrightarrow>
        sel = selUnwrapWETH9 \<and> 64 \<le> length params
        \<or> sel = selUnwrapWETH9WithFee \<and> 128 \<le> length params \<or> sel = selRefundETH)
   \<and> (is_ok (Safe_Decode sel params) \<longleftrightarrow> Safe_CanDecode sel \<and> 64 \<le> length params)"
proof -
  have readers:
    "(\<exists>v. ReadUint256 params 0 = Ok v) \<longleftrightarrow> 32 \<le> length params"
    "(\<exists>v. ReadUint256 params 1 = Ok v) \<longleftrightarrow> 64 \<le> length params"
    "(\<exists>a. ReadAddress params 0 = Ok a) \<longleftrightarrow> 32 \<le> length params"
    "(\<exists>a. ReadAddress params 1 = Ok a) \<longleftrightarrow> 64 \<le> length params"
    "(\<exists>a. ReadAddress params 2 = Ok a) \<longleftrightarrow> 96 \<le> length params"
    "(\<exists>a. ReadAddress params 3 = Ok a) \<longleftrightarrow> 128 \<le> length params"
    by (simp_all add: ReadUint256_ok_iff ReadAddress_ok_iff)
  have neq: "selUnwrapWETH9 \<noteq> selUnwrapWETH9WithFee" "selUnwrapWETH9 \<noteq> selRefundETH"
    "selUnwrapWETH9WithFee \<noteq> selRefundETH"
    by (simp_all add: static_selectors)
  have "is_ok (WETH_Decode sel params) \<longleftrightarrow> WETH_CanDecode sel \<and> 32 \<le> length params"
    using readers by (auto simp: codec_defs is_ok_bind)
  moreover have "is_ok (Aave_Decode sel params) \<longleftrightarrow> Aave_CanDecode sel \<and> 96 \<le> length params"
    using readers by (auto simp: codec_defs is_ok_bind)
  moreover have "is_ok (V2_Decode sel params) \<longleftrightarrow> V2_CanDecode sel \<and> 128 \<le> length params"
    using readers by (auto simp: codec_defs is_ok_bind)
  moreover have "is_ok (V3_Decode sel params) \<longleftrightarrow>
        sel = selUnwrapWETH9 \<and> 64 \<le> length params
        \<or> sel = selUnwrapWETH9WithFee \<and> 128 \<le> length params \<or> sel = selRefundETH"
    using readers neq by (auto simp: codec_defs is_ok_bind)
  moreover have "is_ok (Safe_Decode sel params) \<longleftrightarrow> Safe_CanDecode sel \<and> 64 \<le> length params"
    using readers by (auto simp: codec_defs is_ok_bind)
  ultimately show ?thesis by blast
qed

text \<open>Reading head word \<open>i\<close> of a call encoded as a run of words.\<close>

lemma ReadUint256_head:
  assumes "\<forall>w \<in> set ws. length w = 32" and "i < length ws" and "length ws < 100"
  shows "ReadUint256 (concat ws @ rest) (int i) = Ok (int (be_value (ws ! i)))"
  using uint.read_nth_word [of ws i "[]" rest] assms
  by (simp add: ReadUint256_def wrap64_small)

lemma ReadAddress_head:
  assumes "\<forall>w \<in> set ws. length w = 32" and "i < length ws" and "length ws < 100"
  shows "ReadAddress (concat ws @ rest) (int i) = Ok (drop 12 (ws ! i))"
  using addr.read_nth_word [of ws i "[]" rest] assms
  by (simp add: ReadAddress_def wrap64_small)

text \<open>
  C37. On an ABI-encoded call the fixed-layout codecs report exactly the encoded arguments:
  \<open>withdraw\<close>, \<open>withdrawETH\<close>, \<open>execTransaction\<close> (no transfer when its value is zero),
  the three router swaps (word 0 for the exact-output swap, word 1 otherwise) and the two
  unwrap calls, with the documented confidence, whatever follows the head words.
\<close>

theorem fixed_codecs_roundtrip:
  assumes "wf_address a" and "wf_address b" and "x < 2 ^ 256" and "y < 2 ^ 256"
  shows "(WETH_Decode selWETHWithdraw (enc_uint x @ rest) = Ok \<lparr>Selector = selWETHWithdraw,
       Transfers = [\<lparr>From = ZeroAddress, To = ZeroAddress, Value = Some (int x), Confidence = Likely\<rparr>]\<rparr>)
   \<and> (Aave_Decode selAaveWithdrawETH (enc_addr b @ enc_uint x @ enc_addr a @ rest) =
       Ok \<lparr>Selector = selAaveWithdrawETH,
       Transfers = [\<lparr>From = ZeroAddress, To = a, Value = Some (int x), Confidence = Deterministic\<rparr>]\<rparr>)
   \<and> (Safe_Decode selSafeExecTransaction (enc_addr a @ enc_uint x @ rest) =
       Ok \<lparr>Selector = selSafeExecTransaction, Transfers = (if x = 0 then [] else
         [\<lparr>From = ZeroAddress, To = a, Value = Some (int x), Confidence = Deterministic\<rparr>])\<rparr>)
   \<and> (V2_CanDecode sel \<longrightarrow>
       V2_Decode sel (enc_uint x @ enc_uint y @ enc_uint p @ enc_addr a @ rest) =
       Ok \<lparr>Selector = sel, Transfers = [\<lparr>From = ZeroAddress, To = a,
         Value = Some (if sel = selV2SwapTokensForExactETH then int x else int y),
         Confidence = Likely\<rparr>]\<rparr>)
   \<and> (V3_Decode selUnwrapWETH9 (enc_uint x @ enc_addr a @ rest) =
       Ok \<lparr>Selector = selUnwrapWETH9,
       Transfers = [\<lparr>From = ZeroAddress, To = a, Value = Some (int x), Confidence = Likely\<rparr>]\<rparr>)
   \<and> (V3_Decode selUnwrapWETH9WithFee (enc_uint x @ enc_addr a @ enc_uint y @ enc_addr b @ rest) =
       Ok \<lparr>Selector = selUnwrapWETH9WithFee,
       Transfers = [\<lparr>From = ZeroAddress, To = a, Value = Some (int x), Confidence = Likely\<rparr>,
                    \<lparr>From = ZeroAddress, To = b, Value = None, Confidence = Possible\<rparr>]\<rparr>)"
proof -
  let ?w2 = "[enc_uint x, enc_uint y, enc_uint p, enc_addr a]"
  let ?w3 = "[enc_uint x, enc_addr a, enc_uint y, enc_addr b]"
  have r: "ReadUint256 (enc_uint x @ rest) 0 = Ok (int x)"
    "ReadUint256 (enc_addr b @ enc_uint x @ enc_addr a @ rest) 1 = Ok (int x)"
    "ReadAddress (enc_addr b @ enc_uint x @ enc_addr a @ rest) 2 = Ok a"
    "ReadAddress (enc_addr a @ enc_uint x @ rest) 0 = Ok a"
    "ReadUint256 (enc_addr a @ enc_uint x @ rest) 1 = Ok (int x)"
    "ReadUint256 (enc_uint x @ enc_addr a @ rest) 0 = Ok (int x)"
    "ReadAddress (enc_uint x @ enc_addr a @ rest) 1 = Ok a"
    using assms ReadUint256_head [of "[enc_uint x]" 0 rest]
      ReadUint256_head [of "[enc_addr b, enc_uint x, enc_addr a]" 1 rest]
      ReadAddress_head [of "[enc_addr b, enc_uint x, enc_addr a]" 2 rest]
      ReadAddress_head [of "[enc_addr a, enc_uint x]" 0 rest]
      ReadUint256_head [of "[enc_addr a, enc_uint x]" 1 rest]
      ReadUint256_head [of "[enc_uint x, enc_addr a]" 0 rest]
      ReadAddress_head [of "[enc_uint x, enc_addr a]" 1 rest]
    by (simp_all add: be_value_enc_uint)
  have r2: "ReadAddress (concat ?w2 @ rest) 3 = Ok a" "ReadUint256 (concat ?w2 @ rest) 0 = Ok (int x)"
    "ReadUint256 (concat ?w2 @ rest) 1 = Ok (int y)"
    using assms ReadAddress_head [of ?w2 3 rest] ReadUint256_head [of ?w2 0 rest]
      ReadUint256_head [of ?w2 1 rest] by (simp_all add: be_value_enc_uint)
  have r3: "ReadAddress (concat ?w3 @ rest) 3 = Ok b" "ReadUint256 (concat ?w3 @ rest) 0 = Ok (int x)"
    "ReadAddress (concat ?w3 @ rest) 1 = Ok a"
    using assms ReadAddress_head [of ?w3 3 rest] ReadUint256_head [of ?w3 0 rest]
      ReadAddress_head [of ?w3 1 rest] by (simp_all add: be_value_enc_uint)
  have neq: "selUnwrapWETH9 \<noteq> selUnwrapWETH9WithFee"
    by (simp add: static_selectors)
  show ?thesis
    using r r2 r3 neq
    by (intro conjI impI) (simp_all add: WETH_Decode_def Aave_Decode_def V2_Decode_def V3_Decode_def Safe_Decode_def
        word_constants zero_transfer_def)
qed

theorem fixed_codecs_roundtrip_witness:
  "V2_Decode selV2SwapTokensForExactETH
     (enc_uint 5 @ enc_uint 6 @ enc_uint 160 @ enc_addr (replicate 20 1) @ []) =
   Ok \<lparr>Selector = selV2SwapTokensForExactETH, Transfers = [\<lparr>From = ZeroAddress,
     To = replicate 20 1, Value = Some 5, Confidence = Likely\<rparr>]\<rparr>"
  using fixed_codecs_roundtrip [of "replicate 20 1" "replicate 20 2" 5 6 "[]"
      selV2SwapTokensForExactETH 160]
  by (simp add: wf_address_def addressLen_def V2_CanDecode_def)

end
