(* ===== verification/Evm_Batch.thy ===== *)
theory Evm_Batch
  imports Evm_Codecs
begin

text \<open>
  The two batch codecs: \<open>disperse.go\<close> (two parallel arrays) and \<open>gnosis_multisend.go\<close> (a
  tightly packed sequence of entries) under \<open>src/evm-lib/parser/codecs\<close>. The loop over the
  packed entries is a recursion on the byte position, which grows by at least the 85 bytes of an
  entry header in every round.
\<close>

section \<open>Disperse\<close>

definition selDisperseEther :: selector where "selDisperseEther = [0xe6, 0x3d, 0x38, 0xed]"

definition Disperse_CanDecode :: "selector \<Rightarrow> bool" where
  "Disperse_CanDecode s \<longleftrightarrow> s = selDisperseEther"

text \<open>One round of the loop over the pairs.\<close>

definition disperse_step :: "input_params \<Rightarrow> int \<Rightarrow> int \<Rightarrow> nat \<Rightarrow> transfer list \<Rightarrow> transfer list res" where
  "disperse_step params recipientsOff valuesOff i transfers =
     bind_out (map_err (CtxI ''disperse: recipient'' (int i) '''')
         (ReadAddressAt params
           (wrap64 (wrap64 (recipientsOff + wordSize) + wrap64 (int i * wordSize))))) (\<lambda>addr.
     bind_out (map_err (CtxI ''disperse: value'' (int i) '''')
         (ReadUint256At params
           (wrap64 (wrap64 (valuesOff + wordSize) + wrap64 (int i * wordSize))))) (\<lambda>val.
     Ok (transfers @ [zero_transfer\<lparr>To := addr, Value := Some val,
                                    Confidence := Deterministic\<rparr>])))"

definition Disperse_Decode :: "selector \<Rightarrow> input_params \<Rightarrow> parsed_input res" where
  "Disperse_Decode sel params =
     (if sel \<noteq> selDisperseEther then Err (UnsupportedSelector ''disperse'' sel)
      else
        bind_out (map_err (Ctx ''disperse: recipients offset'') (ReadOffset params 0))
          (\<lambda>recipientsOff.
        bind_out (map_err (Ctx ''disperse: values offset'') (ReadOffset params 1)) (\<lambda>valuesOff.
        bind_out (map_err (Ctx ''disperse: recipients length'')
            (ReadArrayLength params recipientsOff)) (\<lambda>recipientsLen.
        bind_out (map_err (Ctx ''disperse: values length'') (ReadArrayLength params valuesOff))
          (\<lambda>valuesLen.
        if recipientsLen \<noteq> valuesLen then Err (LengthMismatch recipientsLen valuesLen)
        else
          bind_out (for_range recipientsLen (disperse_step params recipientsOff valuesOff) [])
            (\<lambda>transfers. Ok \<lparr>Selector = sel, Transfers = transfers\<rparr>))))))"

section \<open>MultiSend\<close>

definition selMultiSend :: selector where "selMultiSend = [0x8d, 0x80, 0xff, 0x0a]"

definition MultiSend_CanDecode :: "selector \<Rightarrow> bool" where
  "MultiSend_CanDecode s \<longleftrightarrow> s = selMultiSend"

definition entryHeader :: nat where "entryHeader = 1 + 20 + 32 + 32"

text \<open>
  The loop body reads \<open>blob[i+1:i+21]\<close>, \<open>blob[i+21:i+53]\<close> and \<open>blob[i+53:i+85]\<close>, all
  inside the blob by the check before them. \<open>dataLen\<close> and \<open>remaining\<close> are \<open>uint64\<close>.
\<close>

function multisend_loop :: "byte list \<Rightarrow> nat \<Rightarrow> transfer list \<Rightarrow> transfer list res" where
  "multisend_loop blob i transfers =
     (if i < length blob then
        if i + entryHeader > length blob then Err (TruncatedEntry (int i))
        else
          let addr = go_copy ZeroAddress (sub_list blob (i + 1) 20);
              val = int (be_value (sub_list blob (i + 21) 32));
              dataLenWord = sub_list blob (i + 53) 32 in
          if dataLenWord ! 0 \<noteq> 0 \<or> dataLenWord ! 1 \<noteq> 0 then Err (UnreasonableDataLen (int i))
          else
            let dataLen = be_uint64 (sub_list dataLenWord 24 8);
                remaining = word_of_nat (length blob - i - entryHeader) :: 64 word in
            if dataLen > remaining then Err (DataOverflow (int i))
            else multisend_loop blob (i + (entryHeader + unat dataLen))
              (if val > 0
               then transfers @ [zero_transfer\<lparr>To := addr, Value := Some val,
                                               Confidence := Deterministic\<rparr>]
               else transfers)
      else Ok transfers)"
  by pat_completeness auto
termination
  by (relation "measure (\<lambda>(blob, i, transfers). length blob - i)") (auto simp: entryHeader_def)

declare multisend_loop.simps [simp del]

definition MultiSend_Decode :: "selector \<Rightarrow> input_params \<Rightarrow> parsed_input res" where
  "MultiSend_Decode sel params =
     (if sel \<noteq> selMultiSend then Err (UnsupportedSelector ''gnosis_multisend'' sel)
      else
        bind_out (map_err (Ctx ''gnosis_multisend: read transactions'')
            (ReadDynamicBytes params 0)) (\<lambda>blob.
        bind_out (multisend_loop blob 0 []) (\<lambda>transfers.
        Ok \<lparr>Selector = sel, Transfers = transfers\<rparr>)))"

section \<open>Both codecs meet the contract\<close>

lemma ReadOffset_range:
  "ReadOffset params i = Ok x \<Longrightarrow> 0 \<le> i \<Longrightarrow> i < 2 ^ 57 \<Longrightarrow> 0 \<le> x \<and> x \<le> MaxInt32"
  by (simp only: ReadOffset_Ok_iff) simp

lemma ReadOffsetAt_range:
  "ReadOffsetAt params off = Ok x \<Longrightarrow> off < 2 ^ 63 - 32 \<Longrightarrow> 0 \<le> x \<and> x \<le> MaxInt32"
  by (simp only: ReadOffsetAt_Ok_iff) simp

lemma ReadArrayLength_range:
  "ReadArrayLength params off = Ok n \<Longrightarrow> off < 2 ^ 63 - 32 \<Longrightarrow> 0 \<le> n \<and> n \<le> 10000"
  by (simp only: ReadArrayLength_Ok_iff) simp

text \<open>Positions inside an array of at most 10000 words do not overflow.\<close>

lemma array_position:
  assumes "0 \<le> base" and "base \<le> 2 * MaxInt32 + 64" and "i < 10000"
  shows "wrap64 (wrap64 (base + wordSize) + wrap64 (int i * wordSize)) = base + 32 + int i * 32"
  using assms by (simp add: wrap64_small)

lemma array_position_small:
  assumes "0 \<le> base" and "base \<le> 2 * MaxInt32 + 64" and "i < 10000"
  shows "wrap64 (wrap64 (base + wordSize) + wrap64 (int i * wordSize)) < 2 ^ 62"
  using assms array_position [OF assms] by simp

lemma safe_ReadArrayLength_at:
  "ReadOffset params i = Ok x \<Longrightarrow> 0 \<le> i \<Longrightarrow> i < 2 ^ 57 \<Longrightarrow> safe (ReadArrayLength params x)"
  by (drule ReadOffset_range) (auto intro!: safe_ReadArrayLength)

lemmas safe_ReadArrayLength_heads =
  safe_ReadArrayLength_at [where i = 0, simplified] safe_ReadArrayLength_at [where i = 1, simplified]

lemma safe_ReadDynamicBytes [safe_intros]:
  "0 \<le> i \<Longrightarrow> i < 2 ^ 57 \<Longrightarrow> safe (ReadDynamicBytes params i)"
  unfolding ReadDynamicBytes_def
  by (rule safe_bind) (auto intro!: safe_ReadOffset safe_ReadDynamicBytesAt dest!: ReadOffset_range)

lemma disperse_step_ok:
  assumes "ReadOffset params 0 = Ok r" and "ReadOffset params 1 = Ok v"
    and "ReadArrayLength params r = Ok n" and "i < nat n"
  shows "safe (disperse_step params r v i ts)"
    and "disperse_step params r v i ts = Ok ts' \<Longrightarrow> list_all wf_transfer ts \<Longrightarrow> list_all wf_transfer ts'"
proof -
  let ?ra = "wrap64 (wrap64 (r + wordSize) + wrap64 (int i * wordSize))"
  let ?va = "wrap64 (wrap64 (v + wordSize) + wrap64 (int i * wordSize))"
  have r: "0 \<le> r" "r \<le> MaxInt32" and v: "0 \<le> v" "v \<le> MaxInt32"
    using ReadOffset_range [OF assms(1)] ReadOffset_range [OF assms(2)] by simp_all
  have "0 \<le> n \<and> n \<le> 10000"
    by (rule ReadArrayLength_range [OF assms(3)]) (use r in simp)
  then have i: "i < 10000" using assms(4) by auto
  have small: "?ra < 2 ^ 63 - 32" "?va < 2 ^ 63 - 32"
    using array_position_small [of r i] array_position_small [of v i] r v i by simp_all
  show "safe (disperse_step params r v i ts)"
    unfolding disperse_step_def
    by (intro safe_bind) (simp_all add: addr.read_safe [OF small(1)] uint.read_safe [OF small(2)]
        del: wordSize_def)
  assume "disperse_step params r v i ts = Ok ts'" and ts: "list_all wf_transfer ts"
  then obtain a x where a: "ReadAddressAt params ?ra = Ok a" and x: "ReadUint256At params ?va = Ok x"
    and ts': "ts' = ts @ [zero_transfer\<lparr>To := a, Value := Some x, Confidence := Deterministic\<rparr>]"
    by (auto simp: disperse_step_def outcome_simps simp del: wordSize_def)
  have "wf_transfer (zero_transfer\<lparr>To := a, Value := Some x, Confidence := Deterministic\<rparr>)"
    using ReadAddressAt_wf [OF a] ReadUint256At_range [OF x small(2)]
    by (intro wf_value_transfer) simp_all
  then show "list_all wf_transfer ts'" using ts ts' by simp
qed

lemma Disperse_safe: "safe (Disperse_Decode sel params)"
  unfolding Disperse_Decode_def
  by (auto intro!: safe_bind safe_ReadOffset safe_for_each)
     (blast intro: safe_ReadArrayLength_heads disperse_step_ok(1))+

lemma Disperse_wf: "Disperse_Decode sel params = Ok p \<Longrightarrow> wf_parsed sel p"
proof -
  assume "Disperse_Decode sel params = Ok p"
  then obtain r v n ts where r: "ReadOffset params 0 = Ok r" and v: "ReadOffset params 1 = Ok v"
    and n: "ReadArrayLength params r = Ok n" and p: "p = \<lparr>Selector = sel, Transfers = ts\<rparr>"
    and loop: "for_range n (disperse_step params r v) [] = Ok ts"
    by (auto simp: Disperse_Decode_def outcome_simps split: if_splits)
  have "list_all wf_transfer ts"
    using loop
    by (rule for_each_invariant) (auto dest: disperse_step_ok(2) [OF r v n])
  then show ?thesis using p by (simp add: wf_parsed_def list_all_iff)
qed

interpretation disperse: decoder Disperse_CanDecode Disperse_Decode
  by unfold_locales
     (simp_all add: Disperse_safe Disperse_wf, simp add: Disperse_Decode_def Disperse_CanDecode_def)

lemma multisend_loop_safe: "safe (multisend_loop blob i ts)"
proof (induction blob i ts rule: multisend_loop.induct)
  case (1 blob i ts)
  then show ?case by (subst multisend_loop.simps) (simp add: Let_def)
qed

lemma multisend_loop_wf:
  "multisend_loop blob i ts = Ok ts' \<Longrightarrow> list_all wf_transfer ts \<Longrightarrow> list_all wf_transfer ts'"
proof (induction blob i ts rule: multisend_loop.induct)
  case (1 blob i ts)
  have "be_value (sub_list blob (i + 21) 32) < 256 ^ 32" if "i + entryHeader \<le> length blob"
    using be_value_less [of "sub_list blob (i + 21) 32"] that by (simp add: entryHeader_def)
  then have "wf_transfer (zero_transfer\<lparr>To := go_copy ZeroAddress (sub_list blob (i + 1) 20),
      Value := Some (int (be_value (sub_list blob (i + 21) 32))), Confidence := Deterministic\<rparr>)"
    if "i + entryHeader \<le> length blob"
    using that by (intro wf_value_transfer) (simp_all add: wf_address_def)
  with 1 show ?case
    by (subst (asm) (2) multisend_loop.simps) (auto simp: Let_def split: if_splits)
qed

lemma MultiSend_safe: "safe (MultiSend_Decode sel params)"
  by (auto simp: MultiSend_Decode_def intro!: safe_bind safe_ReadDynamicBytes multisend_loop_safe)

lemma MultiSend_wf: "MultiSend_Decode sel params = Ok p \<Longrightarrow> wf_parsed sel p"
  by (auto simp: MultiSend_Decode_def outcome_simps wf_parsed_def list_all_iff [symmetric]
      dest!: multisend_loop_wf split: if_splits)

interpretation multisend: decoder MultiSend_CanDecode MultiSend_Decode
  by unfold_locales
     (simp_all add: MultiSend_safe MultiSend_wf, simp add: MultiSend_Decode_def MultiSend_CanDecode_def)

section \<open>Properties\<close>

text \<open>The ABI encoding of \<open>disperseEther(address[] recipients, uint256[] values)\<close>.\<close>

definition enc_disperse :: "address list \<Rightarrow> nat list \<Rightarrow> byte list" where
  "enc_disperse rs vs =
     enc_uint 64 @ enc_uint (96 + 32 * length rs)
     @ enc_uint (length rs) @ concat (map enc_addr rs)
     @ enc_uint (length vs) @ concat (map enc_uint vs)"

definition eth_transfer :: "address \<Rightarrow> int \<Rightarrow> transfer" where
  "eth_transfer a v = \<lparr>From = ZeroAddress, To = a, Value = Some v, Confidence = Deterministic\<rparr>"

lemma length_concat_words:
  "\<forall>w \<in> set ws. length w = 32 \<Longrightarrow> length (concat ws) = 32 * length ws"
  by (induction ws) simp_all

text \<open>A \<open>disperseEther\<close> call is decoded pair by pair.\<close>

lemma disperse_roundtrip:
  assumes "length rs = length vs" and "length rs \<le> 10000"
    and "list_all wf_address rs" and "list_all (\<lambda>v. v < 2 ^ 256) vs"
  shows "Disperse_Decode selDisperseEther (enc_disperse rs vs @ rest) =
    Ok \<lparr>Selector = selDisperseEther, Transfers = map2 (\<lambda>a v. eth_transfer a (int v)) rs vs\<rparr>"
proof -
  let ?n = "length rs" and ?rw = "map enc_addr rs" and ?vw = "map enc_uint vs"
  let ?params = "enc_disperse rs vs @ rest"
  let ?p1 = "enc_uint 64 @ enc_uint (96 + 32 * ?n)"
  let ?p2 = "?p1 @ enc_uint ?n @ concat ?rw"
  have rw: "\<forall>w \<in> set ?rw. length w = 32" and vw: "\<forall>w \<in> set ?vw. length w = 32"
    using assms(3) by (auto simp: list_all_iff)
  have p2: "length ?p2 = 96 + 32 * ?n"
    using length_concat_words [OF rw] by simp
  have eq1: "?params = ?p1 @ enc_uint ?n @ (concat ?rw @ enc_uint ?n @ concat ?vw @ rest)"
    and eq2: "?params = ?p2 @ enc_uint ?n @ (concat ?vw @ rest)"
    using assms(1) by (simp_all add: enc_disperse_def)
  have off: "ReadOffset ?params 0 = Ok 64" "ReadOffset ?params 1 = Ok (int (96 + 32 * ?n))"
    using assms ReadOffsetAt_enc_uint [of 64 "[]" "enc_uint (96 + 32 * ?n) @ enc_uint ?n
        @ concat ?rw @ enc_uint (length vs) @ concat ?vw @ rest"]
      ReadOffsetAt_enc_uint [of "96 + 32 * ?n" "enc_uint 64" "enc_uint ?n
        @ concat ?rw @ enc_uint (length vs) @ concat ?vw @ rest"]
    by (simp_all add: ReadOffset_def enc_disperse_def wrap64_small)
  have len: "ReadArrayLength ?params 64 = Ok (int ?n)"
    "ReadArrayLength ?params (int (96 + 32 * ?n)) = Ok (int ?n)"
    using assms(1,2) ReadArrayLength_enc_uint [of ?n ?p1] ReadArrayLength_enc_uint [of ?n ?p2] p2
    by (simp_all add: enc_disperse_def)
  have step: "disperse_step ?params 64 (int (96 + 32 * ?n)) i acc
      = Ok (acc @ [eth_transfer (rs ! i) (int (vs ! i))])" if "i \<in> set [0..<?n]" for i acc
  proof -
    have i: "i < ?n" "i < 10000" using that assms(2) by simp_all
    have "ReadAddressAt ((?p1 @ enc_uint ?n) @ concat ?rw @ (enc_uint ?n @ concat ?vw @ rest))
        (int (length (?p1 @ enc_uint ?n)) + int i * 32) = Ok (drop 12 (?rw ! i))"
      by (rule addr.read_nth_word) (use rw i assms(2) in auto)
    then have a: "ReadAddressAt ?params (64 + 32 + int i * 32) = Ok (rs ! i)"
      using i by (simp add: eq1)
    have "ReadUint256At ((?p2 @ enc_uint ?n) @ concat ?vw @ rest)
        (int (length (?p2 @ enc_uint ?n)) + int i * 32) = Ok (int (be_value (?vw ! i)))"
      by (rule uint.read_nth_word) (use vw i assms p2 in auto)
    moreover have "vs ! i < 2 ^ 256"
      using assms(1,4) i by (simp add: list_all_length)
    ultimately have v: "ReadUint256At ?params (int (96 + 32 * ?n) + 32 + int i * 32)
        = Ok (int (vs ! i))"
      using i assms(1) p2 by (simp add: eq2 be_value_enc_uint)
    show ?thesis
      using a v array_position [of 64 i] array_position [of "int (96 + 32 * ?n)" i] i assms(2)
      by (simp add: disperse_step_def eth_transfer_def zero_transfer_def del: wordSize_def)
  qed
  have ts: "concat (map (\<lambda>i. [eth_transfer (rs ! i) (int (vs ! i))]) [0..<?n])
      = map2 (\<lambda>a v. eth_transfer a (int v)) rs vs"
    using assms(1) by (simp only: concat_map_singleton) (rule nth_equalityI, simp_all)
  have "for_each (disperse_step ?params 64 (int (96 + 32 * ?n))) [0..<?n] []
      = Ok ([] @ concat (map (\<lambda>i. [eth_transfer (rs ! i) (int (vs ! i))]) [0..<?n]))"
    by (rule for_each_append) (rule step)
  then show ?thesis
    using off len unfolding Disperse_Decode_def ts by simp
qed

text \<open>
  One packed entry. The length field is a parameter of the encoder: an honest encoder writes
  \<open>length d\<close>.
\<close>

definition enc_entry :: "byte \<Rightarrow> address \<Rightarrow> nat \<Rightarrow> nat \<Rightarrow> byte list \<Rightarrow> byte list" where
  "enc_entry op a v lenField d = op # a @ enc_uint v @ enc_uint lenField @ d"

lemma drop_be_bytes: "drop k (be_bytes (k + m) v) = be_bytes m v"
  by (induction k) simp_all

lemma be_bytes_nth: "i < n \<Longrightarrow> be_bytes n v ! i = word_of_nat (v div 256 ^ (n - 1 - i))"
  by (induction n arbitrary: i) (auto simp: nth_Cons')

lemma enc_uint_high_zero:
  assumes "n < 2 ^ 240"
  shows "enc_uint n ! 0 = 0" and "enc_uint n ! 1 = 0"
proof -
  have "n div 256 ^ 31 = 0" and "n div 256 ^ 30 = 0"
    using assms by (simp_all add: div_less)
  then show "enc_uint n ! 0 = 0" and "enc_uint n ! 1 = 0"
    by (simp_all add: enc_uint_def be_bytes_nth)
qed

lemma be_uint64_enc_uint: "unat (be_uint64 (sub_list (enc_uint n) 24 8)) = n mod 2 ^ 64"
proof -
  have "sub_list (enc_uint n) 24 8 = be_bytes 8 n"
    using drop_be_bytes [of 24 8 n] by (simp add: sub_list_def enc_uint_def)
  then show ?thesis
    by (simp add: be_uint64_def be_value_be_bytes unat_of_nat)
qed

text \<open>
  The loop consumes one entry whose length field agrees with its data modulo \<open>2 ^ 64\<close> and has
  its two high bytes zero.
\<close>

lemma multisend_loop_entry:
  assumes "wf_address a" and "v < 2 ^ 256" and "n < 2 ^ 240" and "n mod 2 ^ 64 = length d"
    and blob: "blob = pre @ enc_entry op a v n d @ post" and "length blob < 2 ^ 62"
  shows "multisend_loop blob (length pre) ts =
    multisend_loop blob (length (pre @ enc_entry op a v n d))
      (ts @ (if v = 0 then [] else [eth_transfer a (int v)]))"
proof -
  let ?i = "length pre"
  have len: "length blob = ?i + (85 + length d) + length post"
    using assms(1) by (simp add: blob enc_entry_def wf_address_def addressLen_def)
  have a: "sub_list blob (?i + 1) 20 = a"
    using sub_list_append [of "pre @ [op]" a "enc_uint v @ enc_uint n @ d @ post"] assms(1)
    by (simp add: blob enc_entry_def wf_address_def addressLen_def)
  have v: "sub_list blob (?i + 21) 32 = enc_uint v"
    using sub_list_append [of "pre @ [op] @ a" "enc_uint v" "enc_uint n @ d @ post"] assms(1)
    by (simp add: blob enc_entry_def wf_address_def addressLen_def add.commute)
  have n: "sub_list blob (?i + 53) 32 = enc_uint n"
    using sub_list_append [of "pre @ [op] @ a @ enc_uint v" "enc_uint n" "d @ post"] assms(1)
    by (simp add: blob enc_entry_def wf_address_def addressLen_def add.commute)
  have "unat (word_of_nat (length blob - ?i - 85) :: 64 word) = length blob - ?i - 85"
    using assms(6) by (simp add: unat_of_nat)
  then have fits: "\<not> be_uint64 (sub_list (enc_uint n) 24 8) > word_of_nat (length blob - ?i - 85)"
    using len assms(4) by (simp add: word_less_nat_alt be_uint64_enc_uint)
  have "go_copy ZeroAddress a = a" using assms(1) by (simp add: wf_address_def)
  then show ?thesis
    using fits assms(1,2,4) len a v n enc_uint_high_zero [OF assms(3)]
    by (subst multisend_loop.simps)
       (simp add: Let_def entryHeader_def be_uint64_enc_uint be_value_enc_uint eth_transfer_def
         zero_transfer_def enc_entry_def wf_address_def addressLen_def)
qed

text \<open>A batch of honest entries \<open>(operation, to, value, data)\<close>.\<close>

fun enc_batch :: "(byte \<times> address \<times> nat \<times> byte list) list \<Rightarrow> byte list" where
  "enc_batch [] = []"
| "enc_batch ((op, a, v, d) # txs) = enc_entry op a v (length d) d @ enc_batch txs"

definition wf_entry :: "byte \<times> address \<times> nat \<times> byte list \<Rightarrow> bool" where
  "wf_entry = (\<lambda>(op, a, v, d). wf_address a \<and> v < 2 ^ 256)"

fun batch_transfers :: "(byte \<times> address \<times> nat \<times> byte list) list \<Rightarrow> transfer list" where
  "batch_transfers [] = []"
| "batch_transfers ((op, a, v, d) # txs) =
     (if v = 0 then [] else [eth_transfer a (int v)]) @ batch_transfers txs"

lemma multisend_loop_end: "multisend_loop blob (length blob) ts = Ok ts"
  by (subst multisend_loop.simps) simp

lemma multisend_loop_batch:
  assumes "list_all wf_entry txs" and "length (pre @ enc_batch txs) < 2 ^ 62"
  shows "multisend_loop (pre @ enc_batch txs) (length pre) ts = Ok (ts @ batch_transfers txs)"
  using assms
proof (induction txs arbitrary: pre ts rule: enc_batch.induct)
  case 1
  then show ?case using multisend_loop_end [of pre] by simp
next
  case (2 op a v d txs)
  let ?e = "enc_entry op a v (length d) d"
  have "length d < 2 ^ 62" using "2.prems"(2) by (simp add: enc_entry_def)
  then have "multisend_loop (pre @ ?e @ enc_batch txs) (length pre) ts =
      multisend_loop (pre @ ?e @ enc_batch txs) (length (pre @ ?e))
        (ts @ (if v = 0 then [] else [eth_transfer a (int v)]))"
    by (intro multisend_loop_entry) (use "2.prems" in \<open>simp_all add: wf_entry_def\<close>)
  then show ?case
    using "2.IH" [of "pre @ ?e"] "2.prems" by simp
qed

text \<open>The calldata of \<open>multiSend(bytes transactions)\<close>.\<close>

definition enc_multisend :: "byte list \<Rightarrow> byte list" where
  "enc_multisend blob = enc_uint 32 @ enc_bytes blob"

lemma ReadDynamicBytes_multisend:
  assumes "int (length blob) \<le> MaxInt32"
  shows "ReadDynamicBytes (enc_multisend blob @ rest) 0 = Ok blob"
proof -
  have "ReadOffset (enc_multisend blob @ rest) 0 = Ok 32"
    using ReadOffsetAt_enc_uint [of 32 "[]" "enc_bytes blob @ rest"]
    by (simp add: ReadOffset_def enc_multisend_def wrap64_small)
  then show ?thesis
    using ReadDynamicBytesAt_enc_bytes [of blob "enc_uint 32" rest] assms
    by (simp add: ReadDynamicBytes_def enc_multisend_def)
qed

lemma multisend_roundtrip:
  assumes "list_all wf_entry txs" and "int (length (enc_batch txs)) \<le> MaxInt32"
  shows "MultiSend_Decode selMultiSend (enc_multisend (enc_batch txs) @ rest) =
    Ok \<lparr>Selector = selMultiSend, Transfers = batch_transfers txs\<rparr>"
  using multisend_loop_batch [of txs "[]" "[]"] assms
  by (simp add: MultiSend_Decode_def ReadDynamicBytes_multisend)

text \<open>
  C21. Decoding a batch undoes its encoding, whatever follows it. A \<open>disperseEther\<close> call gives one
  deterministic transfer per pair, in order, with the encoded recipient and value; a \<open>multiSend\<close>
  batch one for every packed entry with a positive value, in order, and none for the others.
\<close>

theorem batch_codecs_roundtrip:
  assumes "length rs = length vs" and "length rs \<le> 10000"
    and "list_all wf_address rs" and "list_all (\<lambda>v. v < 2 ^ 256) vs"
    and "list_all wf_entry txs" and "int (length (enc_batch txs)) \<le> MaxInt32"
  shows "Disperse_Decode selDisperseEther (enc_disperse rs vs @ rest) =
      Ok \<lparr>Selector = selDisperseEther, Transfers = map2 (\<lambda>a v. eth_transfer a (int v)) rs vs\<rparr>
    \<and> MultiSend_Decode selMultiSend (enc_multisend (enc_batch txs) @ rest) =
      Ok \<lparr>Selector = selMultiSend, Transfers = batch_transfers txs\<rparr>"
  using disperse_roundtrip [OF assms(1-4)] multisend_roundtrip [OF assms(5,6)] by blast

theorem batch_codecs_roundtrip_witness:
  "Disperse_Decode selDisperseEther (enc_disperse [replicate 20 1, replicate 20 2] [7, 0] @ []) =
     Ok \<lparr>Selector = selDisperseEther,
         Transfers = [eth_transfer (replicate 20 1) 7, eth_transfer (replicate 20 2) 0]\<rparr>
   \<and> MultiSend_Decode selMultiSend (enc_multisend (enc_batch
      [(0, replicate 20 1, 7, [1, 2, 3]), (1, replicate 20 2, 0, []), (0, replicate 20 3, 9, [])]) @ []) =
     Ok \<lparr>Selector = selMultiSend,
         Transfers = [eth_transfer (replicate 20 1) 7, eth_transfer (replicate 20 3) 9]\<rparr>"
  using batch_codecs_roundtrip [of "[replicate 20 1, replicate 20 2]" "[7, 0]"
      "[(0, replicate 20 1, 7, [1, 2, 3]), (1, replicate 20 2, 0, []), (0, replicate 20 3, 9, [])]" "[]"]
  by (simp add: wf_entry_def wf_address_def addressLen_def enc_entry_def)

text \<open>
  The check of the length field of a packed entry looks at its two highest bytes only: an
  entry whose field is \<open>length d + 2 ^ 64 * k\<close>, for any \<open>k\<close> below \<open>2 ^ 176\<close>, is accepted
  and decoded as if the field were \<open>length d\<close>.
\<close>

lemma multisend_ignores_length_bits:
  assumes "wf_address a" and "v < 2 ^ 256" and "k < 2 ^ 176" and "length d < 1000000"
  shows "MultiSend_Decode selMultiSend
      (enc_multisend (enc_entry op a v (length d + 2 ^ 64 * k) d) @ rest) =
    Ok \<lparr>Selector = selMultiSend, Transfers = batch_transfers [(op, a, v, d)]\<rparr>"
proof -
  let ?n = "length d + 2 ^ 64 * k" and ?d = "length d"
  let ?blob = "enc_entry op a v ?n d"
  have "2 ^ 64 * (k + 1) \<le> 2 ^ 64 * 2 ^ (176::nat)"
    using assms(3) by (intro mult_left_mono) simp_all
  then have n: "?n < 2 ^ 240" using assms(4) by simp
  have "multisend_loop ?blob 0 [] = multisend_loop ?blob (length ?blob) (batch_transfers [(op, a, v, d)])"
    using multisend_loop_entry [OF assms(1,2) n, of d ?blob "[]" op "[]" "[]"] assms
    by (simp add: enc_entry_def wf_address_def addressLen_def)
  then have "multisend_loop ?blob 0 [] = Ok (batch_transfers [(op, a, v, d)])"
    by (simp only: multisend_loop_end)
  moreover have "int (length ?blob) \<le> MaxInt32"
    using assms by (simp add: enc_entry_def wf_address_def addressLen_def)
  ultimately show ?thesis
    by (simp add: MultiSend_Decode_def ReadDynamicBytes_multisend)
qed

end
