(* ===== verification/Evm_Multicall.thy ===== *)
theory Evm_Multicall
  imports Evm_Batch
begin

text \<open>
  The wrapper codecs \<open>multicall.go\<close> and \<open>multicall3.go\<close> and the interface
  \<open>sub_parser.go\<close> under \<open>src/evm-lib/parser/codecs\<close>. A sub-parser is a function from raw
  calldata to an optional result (\<open>Ok None\<close> is the pair of two nils). Both codecs hand their
  sub-parser only payloads that are shorter than their own calldata; three lemmas per codec
  (agreement, safety, well-formedness) rest on that and carry the recursion of the chain.
\<close>

section \<open>The SubParser interface\<close>

type_synonym sub_parser_fn = "byte list \<Rightarrow> parsed_input option res"

locale sub_parser =
  fixes sub :: sub_parser_fn
  assumes sub_safe: "calldata raw \<Longrightarrow> safe (sub raw)"
    and sub_wf: "calldata raw \<Longrightarrow> sub raw = Ok (Some p) \<Longrightarrow> list_all wf_transfer (Transfers p)"

section \<open>Selectors\<close>

definition selMulticallBytes :: selector where "selMulticallBytes = [0xac, 0x96, 0x50, 0xd8]"
definition selMulticallDeadline :: selector where "selMulticallDeadline = [0x5a, 0xe4, 0x01, 0xdc]"
definition selMulticallPrevHash :: selector where "selMulticallPrevHash = [0x1f, 0x04, 0x64, 0xd1]"
definition selMC3Aggregate3 :: selector where "selMC3Aggregate3 = [0x82, 0xad, 0x56, 0xcb]"
definition selMC3TryAggregate :: selector where "selMC3TryAggregate = [0xbc, 0xe3, 0x8b, 0xd7]"
definition selMC3Aggregate :: selector where "selMC3Aggregate = [0x25, 0x2d, 0xba, 0x42]"
definition selMC3Aggregate3Value :: selector where "selMC3Aggregate3Value = [0x17, 0x4d, 0xea, 0x71]"

lemmas wrapper_selectors = selMulticallBytes_def selMulticallDeadline_def selMulticallPrevHash_def
  selMC3Aggregate3_def selMC3TryAggregate_def selMC3Aggregate_def selMC3Aggregate3Value_def

section \<open>MulticallDecoder\<close>

definition Multicall_CanDecode :: "selector \<Rightarrow> bool" where
  "Multicall_CanDecode s \<longleftrightarrow> s \<in> {selMulticallBytes, selMulticallDeadline, selMulticallPrevHash,
     selMC3Aggregate3, selMC3TryAggregate, selMC3Aggregate}"

definition appendSub :: "sub_parser_fn \<Rightarrow> byte list \<Rightarrow> parsed_input \<Rightarrow> parsed_input res" where
  "appendSub sub raw out =
     (if length raw < selectorSize then Ok out
      else case sub raw of
          Panic p \<Rightarrow> Panic p
        | Err e \<Rightarrow> Ok out
        | Ok None \<Rightarrow> Ok out
        | Ok (Some inner) \<Rightarrow> Ok (out\<lparr>Transfers := Transfers out @ Transfers inner\<rparr>))"

definition recurseBytesArray ::
    "sub_parser_fn \<Rightarrow> parsed_input \<Rightarrow> byte list \<Rightarrow> int \<Rightarrow> parsed_input res" where
  "recurseBytesArray sub out params arrOff =
     bind_out (map_err (Ctx ''multicall: read elements'') (ReadBytesArrayElements params arrOff))
       (\<lambda>elems. for_each (appendSub sub) elems out)"

text \<open>The body of the inner loop, over the positions of the \<open>bytes\<close> fields of one struct.\<close>

definition tuple_field ::
    "sub_parser_fn \<Rightarrow> byte list \<Rightarrow> nat \<Rightarrow> int \<Rightarrow> int \<Rightarrow> parsed_input \<Rightarrow> parsed_input res" where
  "tuple_field sub params i structBase wIdx out =
     bind_out (map_err (CtxI ''multicall: tuple'' (int i) '' bytes offset'')
         (ReadOffsetAt params (wrap64 (structBase + wrap64 (wIdx * wordSize))))) (\<lambda>bytesRelOff.
     bind_out (map_err (CtxI ''multicall: tuple'' (int i) '' bytes'')
         (ReadDynamicBytesAt params (wrap64 (structBase + bytesRelOff)))) (\<lambda>data.
     appendSub sub data out))"

text \<open>The body of the outer loop, over the structs.\<close>

definition tuple_step ::
    "sub_parser_fn \<Rightarrow> byte list \<Rightarrow> int \<Rightarrow> int list \<Rightarrow> nat \<Rightarrow> parsed_input \<Rightarrow> parsed_input res" where
  "tuple_step sub params headBase bytesWordIdxInStruct i out =
     bind_out (map_err (CtxI ''multicall: tuple'' (int i) '' offset'')
         (ReadOffsetAt params (wrap64 (headBase + wrap64 (int i * wordSize))))) (\<lambda>relOff.
     for_each (tuple_field sub params i (wrap64 (headBase + relOff))) bytesWordIdxInStruct out)"

definition recurseTupleArray ::
    "sub_parser_fn \<Rightarrow> parsed_input \<Rightarrow> byte list \<Rightarrow> int \<Rightarrow> int list \<Rightarrow> parsed_input res" where
  "recurseTupleArray sub out params arrayHeadWord bytesWordIdxInStruct =
     bind_out (map_err (Ctx ''multicall: tuple array offset'') (ReadOffset params arrayHeadWord))
       (\<lambda>arrOff.
     bind_out (map_err (Ctx ''multicall: tuple array length'') (ReadArrayLength params arrOff))
       (\<lambda>count.
     for_range count (tuple_step sub params (wrap64 (arrOff + wordSize)) bytesWordIdxInStruct) out))"

definition Multicall_Decode ::
    "sub_parser_fn option \<Rightarrow> selector \<Rightarrow> input_params \<Rightarrow> parsed_input res" where
  "Multicall_Decode dsub sel params =
     (case dsub of
        None \<Rightarrow> Err NoSubParser
      | Some sub \<Rightarrow>
          let out = \<lparr>Selector = sel, Transfers = []\<rparr> in
          if sel = selMulticallBytes then
            bind_out (map_err (Ctx ''multicall: array offset'') (ReadOffset params 0))
              (recurseBytesArray sub out params)
          else if sel = selMulticallDeadline \<or> sel = selMulticallPrevHash then
            bind_out (map_err (Ctx ''multicall: array offset'') (ReadOffset params 1))
              (recurseBytesArray sub out params)
          else if sel = selMC3Aggregate3 then recurseTupleArray sub out params 0 [2]
          else if sel = selMC3TryAggregate then recurseTupleArray sub out params 1 [1]
          else if sel = selMC3Aggregate then recurseTupleArray sub out params 0 [1]
          else Err (UnsupportedSelector ''multicall'' sel))"

section \<open>Multicall3ValueDecoder\<close>

definition Multicall3_CanDecode :: "selector \<Rightarrow> bool" where
  "Multicall3_CanDecode s \<longleftrightarrow> s = selMC3Aggregate3Value"

text \<open>The recursion into the inner call data; a missing sub-parser skips it.\<close>

definition appendInner ::
    "sub_parser_fn option \<Rightarrow> byte list \<Rightarrow> parsed_input \<Rightarrow> parsed_input res" where
  "appendInner dsub callData out =
     (case dsub of None \<Rightarrow> Ok out | Some sub \<Rightarrow> appendSub sub callData out)"

definition call3_step ::
    "sub_parser_fn option \<Rightarrow> byte list \<Rightarrow> int \<Rightarrow> nat \<Rightarrow> parsed_input \<Rightarrow> parsed_input res" where
  "call3_step dsub params headBase i out =
     bind_out (map_err (CtxI ''multicall3: tuple'' (int i) '' offset'')
         (ReadOffsetAt params (wrap64 (headBase + wrap64 (int i * wordSize))))) (\<lambda>relOff.
     let structBase = wrap64 (headBase + relOff) in
     bind_out (map_err (CtxI ''multicall3: tuple'' (int i) '' target'')
         (ReadAddressAt params (wrap64 (structBase + wrap64 (0 * wordSize))))) (\<lambda>target.
     bind_out (map_err (CtxI ''multicall3: tuple'' (int i) '' value'')
         (ReadUint256At params (wrap64 (structBase + wrap64 (2 * wordSize))))) (\<lambda>val.
     bind_out (map_err (CtxI ''multicall3: tuple'' (int i) '' bytes offset'')
         (ReadOffsetAt params (wrap64 (structBase + wrap64 (3 * wordSize))))) (\<lambda>bytesRelOff.
     bind_out (map_err (CtxI ''multicall3: tuple'' (int i) '' callData'')
         (ReadDynamicBytesAt params (wrap64 (structBase + bytesRelOff)))) (\<lambda>callData.
     appendInner dsub callData
       (if val > 0
        then out\<lparr>Transfers := Transfers out @
               [zero_transfer\<lparr>To := target, Value := Some val, Confidence := Deterministic\<rparr>]\<rparr>
        else out))))))"

definition Multicall3_Decode ::
    "sub_parser_fn option \<Rightarrow> selector \<Rightarrow> input_params \<Rightarrow> parsed_input res" where
  "Multicall3_Decode dsub sel params =
     (if sel \<noteq> selMC3Aggregate3Value then Err (UnsupportedSelector ''multicall3'' sel)
      else
        bind_out (map_err (Ctx ''multicall3: array offset'') (ReadOffset params 0)) (\<lambda>arrOff.
        bind_out (map_err (Ctx ''multicall3: array length'') (ReadArrayLength params arrOff))
          (\<lambda>count.
        for_range count (call3_step dsub params (wrap64 (arrOff + wordSize)))
          \<lparr>Selector = sel, Transfers = []\<rparr>)))"

section \<open>The sub-parser sees shorter payloads only\<close>

text \<open>
  Two sub-parsers that agree on payloads shorter than the calldata, and a sub-parser that is
  safe and well-formed on them.
\<close>

definition agree_below :: "nat \<Rightarrow> sub_parser_fn \<Rightarrow> sub_parser_fn \<Rightarrow> bool" where
  "agree_below n s s' \<longleftrightarrow> (\<forall>raw. length raw < n \<longrightarrow> s raw = s' raw)"

definition good_below :: "nat \<Rightarrow> sub_parser_fn \<Rightarrow> bool" where
  "good_below n s \<longleftrightarrow> (\<forall>raw. length raw < n \<longrightarrow>
     ensures (\<lambda>r. case r of None \<Rightarrow> True | Some p \<Rightarrow> list_all wf_transfer (Transfers p)) (s raw))"

lemma appendSub_agree:
  "agree_below n s s' \<Longrightarrow> length raw < n \<Longrightarrow> appendSub s raw out = appendSub s' raw out"
  by (simp add: appendSub_def agree_below_def)

lemma appendSub_good:
  "good_below n s \<Longrightarrow> length raw < n \<Longrightarrow> wf_parsed sel out \<Longrightarrow> ensures (wf_parsed sel) (appendSub s raw out)"
  by (auto simp: appendSub_def good_below_def wf_parsed_def list_all_iff
      dest!: spec [of _ raw] split: outcome.split option.split)

text \<open>Payload positions: an array base, a struct base, and the fields of a struct.\<close>

definition small_base :: "int \<Rightarrow> bool" where
  "small_base b \<longleftrightarrow> 0 \<le> b \<and> b \<le> 4 * MaxInt32"

lemma small_base_field:
  assumes "small_base b" and "0 \<le> i" and "i < 100"
  shows "wrap64 (b + wrap64 (i * wordSize)) < 2 ^ 63 - 32"
  using assms by (simp add: small_base_def wrap64_small)

lemma small_base_index:
  assumes "small_base b" and "i < 10000"
  shows "wrap64 (b + wrap64 (int i * wordSize)) < 2 ^ 63 - 32"
  using assms by (simp add: small_base_def wrap64_small)

lemma payload_shorter:
  assumes "small_base b" and "0 \<le> rel" and "rel \<le> MaxInt32"
  shows "safe (ReadDynamicBytesAt params (wrap64 (b + rel)))"
    and "ReadDynamicBytesAt params (wrap64 (b + rel)) = Ok raw \<Longrightarrow> length raw < length params"
proof -
  have small: "wrap64 (b + rel) < 2 ^ 62"
    using assms by (simp add: small_base_def wrap64_small)
  then show "safe (ReadDynamicBytesAt params (wrap64 (b + rel)))"
    by (rule safe_ReadDynamicBytesAt)
  assume "ReadDynamicBytesAt params (wrap64 (b + rel)) = Ok raw"
  from ReadDynamicBytesAt_shorter [OF this small] show "length raw < length params" by simp
qed

lemma array_base:
  assumes "ReadOffset params w = Ok off" and "0 \<le> w" and "w < 2 ^ 57"
  shows "0 \<le> off" and "wrap64 (off + wordSize) = off + 32" and "off + 32 \<le> MaxInt32 + 32"
    and "safe (ReadArrayLength params off)"
    and "ReadArrayLength params off = Ok n \<Longrightarrow> i < nat n \<Longrightarrow> i < 10000"
proof -
  have off: "0 \<le> off" "off \<le> MaxInt32" using ReadOffset_range [OF assms] by simp_all
  then show "0 \<le> off" "wrap64 (off + wordSize) = off + 32" "off + 32 \<le> MaxInt32 + 32"
    by (simp_all add: wrap64_small)
  show "safe (ReadArrayLength params off)" using assms by (rule safe_ReadArrayLength_at)
  assume "ReadArrayLength params off = Ok n" and "i < nat n"
  moreover from this(1) have "0 \<le> n \<and> n \<le> 10000"
    by (rule ReadArrayLength_range) (use off in simp)
  ultimately show "i < 10000" by linarith
qed

lemma struct_base:
  assumes "0 \<le> off" and "off + 32 \<le> MaxInt32 + 32" and "i < 10000"
    and "ReadOffsetAt params (wrap64 (off + 32 + wrap64 (int i * wordSize))) = Ok rel"
  shows "small_base (wrap64 (off + 32 + rel))" and "0 \<le> rel" and "rel \<le> MaxInt32"
proof -
  have "wrap64 (off + 32 + wrap64 (int i * wordSize)) < 2 ^ 63 - 32"
    by (rule small_base_index) (use assms in \<open>simp_all add: small_base_def\<close>)
  then have rel: "0 \<le> rel \<and> rel \<le> MaxInt32" by (rule ReadOffsetAt_range [OF assms(4)])
  then show "0 \<le> rel" and "rel \<le> MaxInt32" by simp_all
  show "small_base (wrap64 (off + 32 + rel))"
    using assms(1,2) rel by (simp add: small_base_def wrap64_small)
qed

subsection \<open>Arrays of byte strings\<close>

lemma array_element_step_good:
  assumes "0 \<le> off" and "off + 32 \<le> MaxInt32 + 32" and "i < 10000"
    and "list_all (\<lambda>raw. length raw < length params) acc"
  shows "ensures (list_all (\<lambda>raw. length raw < length params))
    (array_element_step params (off + 32) i acc)"
proof -
  have b: "small_base (off + 32)" using assms(1,2) by (simp add: small_base_def)
  have ptr: "safe (ReadOffsetAt params (wrap64 (off + 32 + wrap64 (int i * wordSize))))"
    by (rule safe_ReadOffsetAt, rule small_base_index) (use b assms(3) in simp_all)
  have dat: "safe (ReadDynamicBytesAt params (wrap64 (off + 32 + rel)))"
    "ReadDynamicBytesAt params (wrap64 (off + 32 + rel)) = Ok raw \<Longrightarrow> length raw < length params"
    if "ReadOffsetAt params (wrap64 (off + 32 + wrap64 (int i * wordSize))) = Ok rel" for rel raw
    using struct_base [OF assms(1-3) that] payload_shorter [OF b, of rel] by simp_all
  show ?thesis
    unfolding array_element_step_def
    using ptr dat assms(4) by (intro ensures_bind) (simp_all del: wordSize_def)
qed

lemma ReadBytesArrayElements_good:
  assumes "ReadOffset params w = Ok off" and "0 \<le> w" and "w < 2 ^ 57"
  shows "ensures (list_all (\<lambda>raw. length raw < length params)) (ReadBytesArrayElements params off)"
  unfolding ReadBytesArrayElements_def array_base(2) [OF assms]
  using array_base(4,5) [OF assms] array_element_step_good [OF array_base(1,3) [OF assms]]
  by (intro ensures_bind ensures_for_each) auto

lemma recurseBytesArray_agree:
  assumes "ReadOffset params w = Ok off" and "0 \<le> w" and "w < 2 ^ 57"
    and "agree_below (length params) s s'"
  shows "recurseBytesArray s out params off = recurseBytesArray s' out params off"
  unfolding recurseBytesArray_def
  using ReadBytesArrayElements_good [OF assms(1-3)] appendSub_agree [OF assms(4)]
  by (intro bind_out_cong for_each_cong) (auto simp: ensures_iff list_all_iff)

lemma recurseBytesArray_good:
  assumes "ReadOffset params w = Ok off" and "0 \<le> w" and "w < 2 ^ 57"
    and "good_below (length params) s" and "wf_parsed sel out"
  shows "ensures (wf_parsed sel) (recurseBytesArray s out params off)"
  unfolding recurseBytesArray_def
  using ReadBytesArrayElements_good [OF assms(1-3)] appendSub_good [OF assms(4)] assms(5)
  by (intro ensures_bind ensures_for_each) (auto simp: ensures_iff list_all_iff)

subsection \<open>Arrays of structs\<close>

lemma struct_field_data:
  assumes "small_base b" and "0 \<le> w" and "w < 100"
  shows "safe (ReadOffsetAt params (wrap64 (b + wrap64 (w * wordSize))))"
    and "ReadOffsetAt params (wrap64 (b + wrap64 (w * wordSize))) = Ok rel
      \<Longrightarrow> safe (ReadDynamicBytesAt params (wrap64 (b + rel)))"
    and "ReadOffsetAt params (wrap64 (b + wrap64 (w * wordSize))) = Ok rel
      \<Longrightarrow> ReadDynamicBytesAt params (wrap64 (b + rel)) = Ok raw \<Longrightarrow> length raw < length params"
proof -
  note small = small_base_field [OF assms]
  show "safe (ReadOffsetAt params (wrap64 (b + wrap64 (w * wordSize))))"
    using small by (rule safe_ReadOffsetAt)
  assume "ReadOffsetAt params (wrap64 (b + wrap64 (w * wordSize))) = Ok rel"
  then have rel: "0 \<le> rel" "rel \<le> MaxInt32" using ReadOffsetAt_range [OF _ small] by simp_all
  show "safe (ReadDynamicBytesAt params (wrap64 (b + rel)))"
    by (rule payload_shorter(1) [OF assms(1) rel])
  assume "ReadDynamicBytesAt params (wrap64 (b + rel)) = Ok raw"
  then show "length raw < length params" by (rule payload_shorter(2) [OF assms(1) rel])
qed

lemma tuple_field_agree:
  assumes "small_base b" and "0 \<le> w" and "w < 100" and "agree_below (length params) s s'"
  shows "tuple_field s params i b w out = tuple_field s' params i b w out"
  unfolding tuple_field_def
  using struct_field_data(3) [OF assms(1-3), of params] appendSub_agree [OF assms(4)]
  by (intro bind_out_cong refl) simp

lemma tuple_field_good:
  assumes "small_base b" and "0 \<le> w" and "w < 100" and "good_below (length params) s"
    and "wf_parsed sel out"
  shows "ensures (wf_parsed sel) (tuple_field s params i b w out)"
  unfolding tuple_field_def
  using struct_field_data [OF assms(1-3), of params] appendSub_good [OF assms(4)] assms(5)
  by (intro ensures_bind) (simp_all del: wordSize_def)

lemma tuple_step_agree:
  assumes "0 \<le> off" and "off + 32 \<le> MaxInt32 + 32" and "i < 10000"
    and "\<forall>w \<in> set ws. 0 \<le> w \<and> w < 100" and "agree_below (length params) s s'"
  shows "tuple_step s params (off + 32) ws i out = tuple_step s' params (off + 32) ws i out"
  unfolding tuple_step_def
  using struct_base(1) [OF assms(1-3)] tuple_field_agree [OF _ _ _ assms(5)] assms(4)
  by (intro bind_out_cong for_each_cong refl) (simp del: wordSize_def)

lemma head_pointer_safe:
  assumes "0 \<le> off" and "off + 32 \<le> MaxInt32 + 32" and "i < 10000"
  shows "safe (ReadOffsetAt params (wrap64 (off + 32 + wrap64 (int i * wordSize))))"
  by (rule safe_ReadOffsetAt, rule small_base_index) (use assms in \<open>simp_all add: small_base_def\<close>)

lemma tuple_step_good:
  assumes "0 \<le> off" and "off + 32 \<le> MaxInt32 + 32" and "i < 10000"
    and "\<forall>w \<in> set ws. 0 \<le> w \<and> w < 100" and "good_below (length params) s"
    and "wf_parsed sel out"
  shows "ensures (wf_parsed sel) (tuple_step s params (off + 32) ws i out)"
  unfolding tuple_step_def
  using struct_base(1) [OF assms(1-3)] tuple_field_good [OF _ _ _ assms(5)] assms(4,6)
    head_pointer_safe [OF assms(1-3)]
  by (intro ensures_bind ensures_for_each) (simp_all del: wordSize_def)

lemma recurseTupleArray_agree:
  assumes "0 \<le> w" and "w < 2 ^ 57" and "\<forall>w \<in> set ws. 0 \<le> w \<and> w < 100"
    and "agree_below (length params) s s'"
  shows "recurseTupleArray s out params w ws = recurseTupleArray s' out params w ws"
  unfolding recurseTupleArray_def
proof (intro bind_out_cong for_each_cong refl)
  fix off n i out
  assume "map_err (Ctx ''multicall: tuple array offset'') (ReadOffset params w) = Ok off"
    and "map_err (Ctx ''multicall: tuple array length'') (ReadArrayLength params off) = Ok n"
    and i: "i \<in> set [0..<nat n]"
  then have off: "ReadOffset params w = Ok off" and n: "ReadArrayLength params off = Ok n"
    by simp_all
  note base = array_base [OF off assms(1,2)]
  show "tuple_step s params (wrap64 (off + wordSize)) ws i out =
      tuple_step s' params (wrap64 (off + wordSize)) ws i out"
    unfolding base(2) by (rule tuple_step_agree [OF base(1,3) _ assms(3,4)]) (use base(5) n i in simp)
qed

lemma recurseTupleArray_good:
  assumes "0 \<le> w" and "w < 2 ^ 57" and "\<forall>w \<in> set ws. 0 \<le> w \<and> w < 100"
    and "good_below (length params) s" and "wf_parsed sel out"
  shows "ensures (wf_parsed sel) (recurseTupleArray s out params w ws)"
  unfolding recurseTupleArray_def
proof (intro ensures_bind ensures_for_each)
  show "safe (map_err (Ctx ''multicall: tuple array offset'') (ReadOffset params w))"
    using assms(1,2) by (simp add: safe_ReadOffset)
next
  fix off assume "map_err (Ctx ''multicall: tuple array offset'') (ReadOffset params w) = Ok off"
  then show "safe (map_err (Ctx ''multicall: tuple array length'') (ReadArrayLength params off))"
    using array_base(4) [OF _ assms(1,2)] by simp
next
  fix off n i out
  assume "map_err (Ctx ''multicall: tuple array offset'') (ReadOffset params w) = Ok off"
    and "map_err (Ctx ''multicall: tuple array length'') (ReadArrayLength params off) = Ok n"
    and i: "i \<in> set [0..<nat n]" and out: "wf_parsed sel out"
  then have off: "ReadOffset params w = Ok off" and n: "ReadArrayLength params off = Ok n"
    by simp_all
  note base = array_base [OF off assms(1,2)]
  show "ensures (wf_parsed sel) (tuple_step s params (wrap64 (off + wordSize)) ws i out)"
    unfolding base(2)
    by (rule tuple_step_good [OF base(1,3) _ assms(3,4) out]) (use base(5) n i in simp)
qed (rule assms(5))

subsection \<open>The two codecs\<close>

lemma Multicall_agree:
  assumes "agree_below (length params) s s'"
  shows "Multicall_Decode (Some s) sel params = Multicall_Decode (Some s') sel params"
proof -
  have arr: "bind_out (map_err c (ReadOffset params w)) (recurseBytesArray s out params) =
      bind_out (map_err c (ReadOffset params w)) (recurseBytesArray s' out params)"
    if "0 \<le> w" "w < 2 ^ 57" for c :: "evm_error \<Rightarrow> evm_error" and w out
    using that by (intro bind_out_cong refl) (auto intro!: recurseBytesArray_agree [OF _ _ _ assms])
  have tup: "recurseTupleArray s out params w [k] = recurseTupleArray s' out params w [k]"
    if "0 \<le> w" "w < 2 ^ 57" "0 \<le> k" "k < 100" for w k out
    using that by (intro recurseTupleArray_agree [OF _ _ _ assms]) simp_all
  show ?thesis by (simp add: Multicall_Decode_def Let_def arr tup)
qed

lemma Multicall_good:
  assumes "good_below (length params) s"
  shows "ensures (wf_parsed sel) (Multicall_Decode (Some s) sel params)"
  unfolding Multicall_Decode_def
  by (auto simp: Let_def wf_parsed_def intro!: recurseTupleArray_good [OF _ _ _ assms]
      recurseBytesArray_good [OF _ _ _ assms] ensures_bind safe_ReadOffset)

lemma appendInner_agree:
  "agree_below n s s' \<Longrightarrow> length raw < n
    \<Longrightarrow> appendInner (Some s) raw out = appendInner (Some s') raw out"
  by (simp add: appendInner_def appendSub_agree)

lemma appendInner_good:
  "(case ds of None \<Rightarrow> True | Some s \<Rightarrow> good_below n s) \<Longrightarrow> length raw < n \<Longrightarrow> wf_parsed sel out
    \<Longrightarrow> ensures (wf_parsed sel) (appendInner ds raw out)"
  by (cases ds) (simp_all add: appendInner_def appendSub_good)

lemma call3_step_agree:
  assumes "0 \<le> off" and "off + 32 \<le> MaxInt32 + 32" and "i < 10000"
    and "agree_below (length params) s s'"
  shows "call3_step (Some s) params (off + 32) i out = call3_step (Some s') params (off + 32) i out"
  unfolding call3_step_def Let_def
proof (intro bind_out_cong refl)
  fix rel a v b raw
  assume "map_err (CtxI ''multicall3: tuple'' (int i) '' offset'')
       (ReadOffsetAt params (wrap64 (off + 32 + wrap64 (int i * wordSize)))) = Ok rel"
    and "map_err (CtxI ''multicall3: tuple'' (int i) '' bytes offset'')
       (ReadOffsetAt params (wrap64 (wrap64 (off + 32 + rel) + wrap64 (3 * wordSize)))) = Ok b"
    and "map_err (CtxI ''multicall3: tuple'' (int i) '' callData'')
       (ReadDynamicBytesAt params (wrap64 (wrap64 (off + 32 + rel) + b))) = Ok raw"
  then have "length raw < length params"
    using struct_field_data(3) [OF struct_base(1) [OF assms(1-3)], of params rel 3 params b raw]
    by (simp del: wordSize_def)
  then show "appendInner (Some s) raw (if 0 < v then out\<lparr>Transfers := Transfers out @
        [zero_transfer\<lparr>To := a, Value := Some v, Confidence := Deterministic\<rparr>]\<rparr> else out)
      = appendInner (Some s') raw (if 0 < v then out\<lparr>Transfers := Transfers out @
        [zero_transfer\<lparr>To := a, Value := Some v, Confidence := Deterministic\<rparr>]\<rparr> else out)"
    by (rule appendInner_agree [OF assms(4)])
qed

lemma wf_parsed_snoc:
  "wf_parsed sel out \<Longrightarrow> wf_transfer t \<Longrightarrow> wf_parsed sel (out\<lparr>Transfers := Transfers out @ [t]\<rparr>)"
  by (auto simp: wf_parsed_def)

lemma call3_step_good:
  assumes "0 \<le> off" and "off + 32 \<le> MaxInt32 + 32" and "i < 10000"
    and "case ds of None \<Rightarrow> True | Some s \<Rightarrow> good_below (length params) s" and "wf_parsed sel out"
  shows "ensures (wf_parsed sel) (call3_step ds params (off + 32) i out)"
  unfolding call3_step_def Let_def
proof (intro ensures_bind)
  show "safe (map_err (CtxI ''multicall3: tuple'' (int i) '' offset'')
      (ReadOffsetAt params (wrap64 (off + 32 + wrap64 (int i * wordSize)))))"
    using head_pointer_safe [OF assms(1-3)] by (simp del: wordSize_def)
next
  fix rel
  let ?b = "wrap64 (off + 32 + rel)"
  assume "map_err (CtxI ''multicall3: tuple'' (int i) '' offset'')
      (ReadOffsetAt params (wrap64 (off + 32 + wrap64 (int i * wordSize)))) = Ok rel"
  then have b: "small_base ?b"
    using struct_base(1) [OF assms(1-3)] by (simp del: wordSize_def)
  show "safe (map_err (CtxI ''multicall3: tuple'' (int i) '' target'')
      (ReadAddressAt params (wrap64 (?b + wrap64 (0 * wordSize)))))"
    using addr.read_safe [OF small_base_field [OF b, of 0]] by (simp del: wordSize_def)
  have pos: "wrap64 (?b + wrap64 (2 * wordSize)) < 2 ^ 63 - 32"
    by (rule small_base_field [OF b]) simp_all
  show "safe (map_err (CtxI ''multicall3: tuple'' (int i) '' value'')
      (ReadUint256At params (wrap64 (?b + wrap64 (2 * wordSize)))))"
    using uint.read_safe [OF pos] by (simp del: wordSize_def)
  show "safe (map_err (CtxI ''multicall3: tuple'' (int i) '' bytes offset'')
      (ReadOffsetAt params (wrap64 (?b + wrap64 (3 * wordSize)))))"
    using struct_field_data(1) [OF b, of 3] by (simp del: wordSize_def)
  fix a v r
  assume a: "map_err (CtxI ''multicall3: tuple'' (int i) '' target'')
      (ReadAddressAt params (wrap64 (?b + wrap64 (0 * wordSize)))) = Ok a"
    and v: "map_err (CtxI ''multicall3: tuple'' (int i) '' value'')
      (ReadUint256At params (wrap64 (?b + wrap64 (2 * wordSize)))) = Ok v"
    and r: "map_err (CtxI ''multicall3: tuple'' (int i) '' bytes offset'')
      (ReadOffsetAt params (wrap64 (?b + wrap64 (3 * wordSize)))) = Ok r"
  show "safe (map_err (CtxI ''multicall3: tuple'' (int i) '' callData'')
      (ReadDynamicBytesAt params (wrap64 (?b + r))))"
    using struct_field_data(2) [OF b, of 3] r by (simp del: wordSize_def)
  fix raw
  assume "map_err (CtxI ''multicall3: tuple'' (int i) '' callData'')
      (ReadDynamicBytesAt params (wrap64 (?b + r))) = Ok raw"
  then have short: "length raw < length params"
    using struct_field_data(3) [OF b, of 3] r by (simp del: wordSize_def)
  have "wf_transfer (zero_transfer\<lparr>To := a, Value := Some v, Confidence := Deterministic\<rparr>)"
    using a v ReadUint256At_range [OF _ pos]
    by (intro wf_value_transfer) (auto simp del: wordSize_def intro: ReadAddressAt_wf)
  then show "ensures (wf_parsed sel) (appendInner ds raw (if 0 < v then out\<lparr>Transfers := Transfers out @
        [zero_transfer\<lparr>To := a, Value := Some v, Confidence := Deterministic\<rparr>]\<rparr> else out))"
    by (intro appendInner_good [OF assms(4) short]) (simp add: wf_parsed_snoc assms(5))
qed

lemma Multicall3_agree:
  assumes "agree_below (length params) s s'"
  shows "Multicall3_Decode (Some s) sel params = Multicall3_Decode (Some s') sel params"
proof -
  have "call3_step (Some s) params (wrap64 (off + wordSize)) i out
      = call3_step (Some s') params (wrap64 (off + wordSize)) i out"
    if "ReadOffset params 0 = Ok off" "ReadArrayLength params off = Ok n" "i < nat n" for off n i out
    using array_base [OF that(1)] that call3_step_agree [OF _ _ _ assms, of off i] by simp
  then show ?thesis
    unfolding Multicall3_Decode_def by (auto intro!: bind_out_cong for_each_cong)
qed

lemma Multicall3_good:
  assumes "case ds of None \<Rightarrow> True | Some s \<Rightarrow> good_below (length params) s"
  shows "ensures (wf_parsed sel) (Multicall3_Decode ds sel params)"
proof -
  have "ensures (wf_parsed sel) (call3_step ds params (wrap64 (off + wordSize)) i out)"
    if "ReadOffset params 0 = Ok off" "ReadArrayLength params off = Ok n" "i < nat n"
      "wf_parsed sel out" for off n i out
    using array_base [OF that(1)] that call3_step_good [OF _ _ _ assms that(4), of off i] by simp
  then show ?thesis
    unfolding Multicall3_Decode_def
    by (auto simp: wf_parsed_def intro!: ensures_bind ensures_for_each safe_ReadOffset
        safe_ReadArrayLength_heads(1))
qed

section \<open>Wrappers over a well-behaved sub-parser meet the decoder contract\<close>

lemma Multicall_unclaimed:
  "\<not> Multicall_CanDecode sel \<Longrightarrow> \<exists>e. Multicall_Decode ds sel params = Err e"
  by (cases ds) (auto simp: Multicall_Decode_def Multicall_CanDecode_def Let_def)

lemma Multicall3_unclaimed:
  "\<not> Multicall3_CanDecode sel \<Longrightarrow> \<exists>e. Multicall3_Decode ds sel params = Err e"
  by (simp add: Multicall3_Decode_def Multicall3_CanDecode_def)

context sub_parser
begin

lemma good_below_calldata: "calldata params \<Longrightarrow> good_below (length params) sub"
  by (auto simp: good_below_def ensures_iff intro!: sub_safe dest!: sub_wf [rotated]
      simp: calldata_def split: option.split)

sublocale multicall: decoder Multicall_CanDecode "Multicall_Decode (Some sub)"
proof
  fix params sel p assume "calldata params"
  note good = Multicall_good [OF good_below_calldata [OF this], of sel]
  from good show "safe (Multicall_Decode (Some sub) sel params)" by (simp add: ensures_iff)
  assume "Multicall_Decode (Some sub) sel params = Ok p"
  with good show "wf_parsed sel p" by (simp add: ensures_iff)
qed (rule Multicall_unclaimed)

sublocale multicall3: decoder Multicall3_CanDecode "Multicall3_Decode (Some sub)"
proof
  fix params sel p assume "calldata params"
  with good_below_calldata have good: "ensures (wf_parsed sel) (Multicall3_Decode (Some sub) sel params)"
    by (intro Multicall3_good) simp
  from good show "safe (Multicall3_Decode (Some sub) sel params)" by (simp add: ensures_iff)
  assume "Multicall3_Decode (Some sub) sel params = Ok p"
  with good show "wf_parsed sel p" by (simp add: ensures_iff)
qed (rule Multicall3_unclaimed)

end

interpretation multicall_nil: decoder Multicall_CanDecode "Multicall_Decode None"
  by unfold_locales (simp_all add: Multicall_Decode_def)

interpretation multicall3_nil: decoder Multicall3_CanDecode "Multicall3_Decode None"
  using Multicall3_good [where ds = None] Multicall3_unclaimed [where ds = None]
  by unfold_locales (auto simp: ensures_iff)

end
