(* ===== verification/Evm_Heuristic.thy ===== *)
theory Evm_Heuristic
  imports Evm_Codecs
begin

text \<open>
  \<open>src/evm-lib/parser/codecs/heuristic.go\<close>: the fallback that scans calldata word by word for
  plausible (address, value) pairs. The loop is shown equal to a declarative reading: the
  plausible pairs in calldata order, each once, cut at \<open>maxTransfers\<close>.
\<close>

section \<open>The decoder\<close>

record heuristic =
  maxTransfers :: int
  minValue :: int
  maxValue :: int

definition defaultMaxTransfers :: int where "defaultMaxTransfers = 64"
definition maxValueBits :: nat where "maxValueBits = 240"

definition NewHeuristicDecoder :: heuristic where
  "NewHeuristicDecoder =
     \<lparr>maxTransfers = defaultMaxTransfers, minValue = 0, maxValue = 2 ^ maxValueBits\<rparr>"

definition Heuristic_CanDecode :: "selector \<Rightarrow> bool" where
  "Heuristic_CanDecode s = True"

text \<open>The result \<open>(Address{}, false)\<close> is \<open>None\<close>.\<close>

definition plausibleAddressWord :: "byte list \<Rightarrow> address option" where
  "plausibleAddressWord word =
     (if int (length word) \<noteq> wordSize then None
      else if \<exists>b \<in> set (take 12 word). b \<noteq> 0 then None
      else if word ! 12 = 0 \<and> word ! 13 = 0 \<and> word ! 14 = 0 \<and> word ! 15 = 0 then None
      else Some (go_copy ZeroAddress (drop 12 word)))"

definition plausibleValue :: "heuristic \<Rightarrow> int \<Rightarrow> bool" where
  "plausibleValue d v =
     (if v \<le> 0 then False
      else if v < minValue d then False
      else if v > maxValue d then False
      else True)"

text \<open>
  The scan. The keys of the map \<open>seen\<close> pair an address with the decimal string of a value,
  which determines the value; the model keeps the value itself. \<open>i + 2 * wordSize <= len\<close>
  guards both slices of the body.
\<close>

function heuristic_loop ::
    "heuristic \<Rightarrow> byte list \<Rightarrow> nat \<Rightarrow> (address \<times> int) set \<Rightarrow> transfer list \<Rightarrow> transfer list" where
  "heuristic_loop d params i seen transfers =
     (if i + 64 \<le> length params then
        (case plausibleAddressWord (sub_list params i 32) of
           None \<Rightarrow> heuristic_loop d params (i + 32) seen transfers
         | Some addr \<Rightarrow>
             let val = int (be_value (sub_list params (i + 32) 32)) in
             if \<not> plausibleValue d val then heuristic_loop d params (i + 32) seen transfers
             else if (addr, val) \<in> seen then heuristic_loop d params (i + 32) seen transfers
             else
               let transfers' = transfers @ [zero_transfer\<lparr>To := addr, Value := Some val,
                                                           Confidence := Possible\<rparr>] in
               if int (length transfers') \<ge> maxTransfers d then transfers'
               else heuristic_loop d params (i + 32) (insert (addr, val) seen) transfers')
      else transfers)"
  by pat_completeness auto
termination
  by (relation "measure (\<lambda>(d, params, i, seen, transfers). length params - i)") auto

declare heuristic_loop.simps [simp del]

definition Heuristic_Decode :: "heuristic \<Rightarrow> selector \<Rightarrow> input_params \<Rightarrow> parsed_input res" where
  "Heuristic_Decode d sel params =
     (if int (length params) < 2 * wordSize then Ok \<lparr>Selector = sel, Transfers = []\<rparr>
      else Ok \<lparr>Selector = sel, Transfers = heuristic_loop d params 0 {} []\<rparr>)"

section \<open>The declarative reading\<close>

definition pair_at :: "heuristic \<Rightarrow> byte list \<Rightarrow> nat \<Rightarrow> (address \<times> int) option" where
  "pair_at d params k =
     (case plausibleAddressWord (sub_list params (32 * k) 32) of
        None \<Rightarrow> None
      | Some a \<Rightarrow>
          let v = int (be_value (sub_list params (32 * k + 32) 32)) in
          if plausibleValue d v then Some (a, v) else None)"

text \<open>Adjacent words \<open>k\<close>, \<open>k + 1\<close> of the calldata, \<open>k\<close> in order.\<close>

definition plausible_pairs :: "heuristic \<Rightarrow> byte list \<Rightarrow> (address \<times> int) list" where
  "plausible_pairs d params = List.map_filter (pair_at d params) [0..<length params div 32 - 1]"

text \<open>The first occurrence of every element not in \<open>seen\<close>.\<close>

fun firsts :: "'a set \<Rightarrow> 'a list \<Rightarrow> 'a list" where
  "firsts seen [] = []"
| "firsts seen (x # xs) = (if x \<in> seen then firsts seen xs else x # firsts (insert x seen) xs)"

definition guess :: "address \<times> int \<Rightarrow> transfer" where
  "guess = (\<lambda>(a, v). \<lparr>From = ZeroAddress, To = a, Value = Some v, Confidence = Possible\<rparr>)"

lemma set_firsts: "set (firsts seen xs) = set xs - seen"
  by (induction seen xs rule: firsts.induct) auto

lemma distinct_firsts: "distinct (firsts seen xs)"
  by (induction seen xs rule: firsts.induct) (auto simp: set_firsts)

lemma heuristic_loop_eq:
  assumes "int (length ts) < maxTransfers d"
  shows "heuristic_loop d params (32 * k) seen ts =
    ts @ map guess (take (nat (maxTransfers d) - length ts)
      (firsts seen (List.map_filter (pair_at d params) [k..<length params div 32 - 1])))"
  using assms
proof (induction "length params div 32 - 1 - k" arbitrary: k seen ts)
  case 0
  then have "\<not> 32 * k + 64 \<le> length params" by auto
  then show ?case using 0 by (subst heuristic_loop.simps) simp
next
  case (Suc m)
  let ?n = "length params div 32 - 1"
  have k: "[k..<?n] = k # [Suc k..<?n]" and in_range: "32 * k + 64 \<le> length params"
    using Suc.hyps(2) by (auto simp: upt_conv_Cons)
  have next_i: "32 * k + 32 = 32 * Suc k" and m: "m = ?n - Suc k"
    using Suc.hyps(2) by simp_all
  note IH = Suc.hyps(1) [OF m]
  show ?case
  proof (cases "pair_at d params k")
    case None
    then have "heuristic_loop d params (32 * k) seen ts = heuristic_loop d params (32 * Suc k) seen ts"
      using in_range
      by (subst heuristic_loop.simps)
         (auto simp: pair_at_def Let_def next_i simp del: mult_Suc_right split: option.splits if_splits)
    then show ?thesis
      using IH [OF Suc.prems] None unfolding k by (simp add: map_filter_simps del: mult_Suc_right)
  next
    case (Some p)
    then obtain a v where p: "p = (a, v)" and a: "plausibleAddressWord (sub_list params (32 * k) 32) = Some a"
      and v: "v = int (be_value (sub_list params (32 * k + 32) 32))" "plausibleValue d v"
      by (auto simp: pair_at_def Let_def split: option.splits if_splits)
    have step: "heuristic_loop d params (32 * k) seen ts =
      (if p \<in> seen then heuristic_loop d params (32 * Suc k) seen ts
       else if int (length (ts @ [guess p])) \<ge> maxTransfers d then ts @ [guess p]
       else heuristic_loop d params (32 * Suc k) (insert p seen) (ts @ [guess p]))"
      using in_range a v p
      by (subst heuristic_loop.simps)
         (simp add: Let_def next_i guess_def zero_transfer_def del: mult_Suc_right)
    show ?thesis
    proof (cases "p \<in> seen")
      case True
      then show ?thesis
        using IH [OF Suc.prems] step Some unfolding k
        by (simp add: map_filter_simps del: mult_Suc_right)
    next
      case False
      then have "take (nat (maxTransfers d) - length ts) (p # xs)
          = p # take (nat (maxTransfers d) - length (ts @ [guess p])) xs" for xs
        using Suc.prems by (subst take_Cons') (auto simp: nat_diff_distrib)
      then show ?thesis
        using step False Some IH [of "ts @ [guess p]" "insert p seen"] unfolding k
        by (auto simp: map_filter_simps simp del: mult_Suc_right)
    qed
  qed
qed

section \<open>Properties\<close>

lemma Heuristic_Decode_eq:
  assumes "maxTransfers d > 0"
  shows "Heuristic_Decode d sel params = Ok \<lparr>Selector = sel,
    Transfers = map guess (take (nat (maxTransfers d)) (firsts {} (plausible_pairs d params)))\<rparr>"
proof -
  have "length params div 32 - 1 = 0" if "length params < 64"
    using that by (simp add: less_mult_imp_div_less)
  then show ?thesis
    using heuristic_loop_eq [of "[]" d params 0 "{}"] assms
    by (auto simp: Heuristic_Decode_def plausible_pairs_def map_filter_simps)
qed

lemma plausibleAddressWord_wf: "plausibleAddressWord w = Some a \<Longrightarrow> wf_address a"
  by (auto simp: plausibleAddressWord_def wf_address_def split: if_splits)

lemma plausible_pairs_wf:
  assumes "(a, v) \<in> set (plausible_pairs d params)"
  shows "wf_address a \<and> 0 < v \<and> v \<le> maxValue d \<and> v < 2 ^ 256"
proof -
  obtain k where k: "pair_at d params k = Some (a, v)" "k < length params div 32 - 1"
    using assms by (auto simp: plausible_pairs_def map_filter_def)
  then have v: "v = int (be_value (sub_list params (32 * k + 32) 32))"
    and "wf_address a" "plausibleValue d v"
    by (auto simp: pair_at_def Let_def plausibleAddressWord_wf split: option.splits if_splits)
  moreover have "32 * k + 64 \<le> length params" using k(2) by linarith
  then have "be_value (sub_list params (32 * k + 32) 32) < 256 ^ 32"
    using be_value_less [of "sub_list params (32 * k + 32) 32"] by simp
  ultimately show ?thesis by (auto simp: plausibleValue_def split: if_splits)
qed

interpretation heuristic: decoder Heuristic_CanDecode "Heuristic_Decode NewHeuristicDecoder"
proof
  fix params sel p
  show "safe (Heuristic_Decode NewHeuristicDecoder sel params)"
    by (simp add: Heuristic_Decode_def)
  assume "Heuristic_Decode NewHeuristicDecoder sel params = Ok p"
  then have "Selector p = sel" and "set (Transfers p) \<subseteq> guess ` set (plausible_pairs NewHeuristicDecoder params)"
    by (auto simp: Heuristic_Decode_eq NewHeuristicDecoder_def defaultMaxTransfers_def set_firsts
        dest!: in_set_takeD)
  then show "wf_parsed sel p"
    by (auto simp: wf_parsed_def wf_transfer_def guess_def dest!: plausible_pairs_wf)
qed (simp add: Heuristic_CanDecode_def)

text \<open>
  C20. The scan computes its declarative reading: for every limit, the transfers are the plausible
  adjacent (address, value) word pairs of the calldata in order, each pair once, cut at
  \<open>maxTransfers\<close>.
\<close>

theorem heuristic_equals_reference:
  assumes "maxTransfers d > 0"
  shows "Heuristic_Decode d sel params = Ok \<lparr>Selector = sel,
    Transfers = map guess (take (nat (maxTransfers d)) (firsts {} (plausible_pairs d params)))\<rparr>"
  using assms by (rule Heuristic_Decode_eq)

lemma pair_at_0_example:
  "pair_at NewHeuristicDecoder (enc_addr (replicate 20 1) @ enc_uint 5) 0 = Some (replicate 20 1, 5)"
proof -
  let ?a = "replicate 20 1 :: byte list"
  have "sub_list (enc_addr ?a @ enc_uint 5) 0 32 = enc_addr ?a"
    using sub_list_append [of "[]" "enc_addr ?a" "enc_uint 5"] by (simp add: enc_addr_def)
  moreover have "sub_list (enc_addr ?a @ enc_uint 5) 32 32 = enc_uint 5"
    using sub_list_append [of "enc_addr ?a" "enc_uint 5" "[]"] by (simp add: enc_addr_def)
  moreover have "plausibleAddressWord (enc_addr ?a) = Some ?a"
    by (auto simp: plausibleAddressWord_def enc_addr_def nth_append addressLen_def)
  ultimately show ?thesis
    by (simp add: pair_at_def be_value_enc_uint plausibleValue_def NewHeuristicDecoder_def
        maxValueBits_def)
qed

theorem heuristic_equals_reference_witness:
  "Heuristic_Decode NewHeuristicDecoder [1, 2, 3, 4] (enc_addr (replicate 20 1) @ enc_uint 5) =
     Ok \<lparr>Selector = [1, 2, 3, 4], Transfers = [guess (replicate 20 1, 5)]\<rparr>"
proof -
  have "length (enc_addr (replicate 20 1) @ enc_uint 5) = 64"
    by (simp add: enc_addr_def)
  then have "plausible_pairs NewHeuristicDecoder (enc_addr (replicate 20 1) @ enc_uint 5)
      = [(replicate 20 1, 5)]"
    by (simp only: plausible_pairs_def) (simp add: map_filter_simps pair_at_0_example)
  then show ?thesis
    using heuristic_equals_reference [of NewHeuristicDecoder "[1, 2, 3, 4]"
        "enc_addr (replicate 20 1) @ enc_uint 5"]
    by (simp add: NewHeuristicDecoder_def defaultMaxTransfers_def)
qed

text \<open>
  The output of the shipped heuristic is bounded and free of duplicates: at most 64 guesses,
  pairwise distinct, every one with the confidence \<open>Possible\<close> and a value between 1 and
  \<open>2 ^ 240\<close>. The upper bound is attained: a value of exactly \<open>2 ^ 240\<close> passes the filter,
  which a comment says is rejected.
\<close>

lemma heuristic_output_bounded:
  "\<exists>ts. Heuristic_Decode NewHeuristicDecoder sel params = Ok \<lparr>Selector = sel, Transfers = ts\<rparr>
     \<and> length ts \<le> 64 \<and> distinct ts
     \<and> list_all (\<lambda>t. Confidence t = Possible
          \<and> (\<exists>v. Value t = Some v \<and> 0 < v \<and> v \<le> 2 ^ 240)) ts
     \<and> (\<forall>v. plausibleValue NewHeuristicDecoder v \<longleftrightarrow> 0 < v \<and> v \<le> 2 ^ 240)"
proof -
  let ?ps = "firsts {} (plausible_pairs NewHeuristicDecoder params)"
  let ?ts = "map guess (take 64 ?ps)"
  have "inj_on guess X" for X by (auto simp: inj_on_def guess_def)
  then have "distinct ?ts" by (simp add: distinct_map distinct_firsts)
  moreover have "list_all (\<lambda>t. Confidence t = Possible
          \<and> (\<exists>v. Value t = Some v \<and> 0 < v \<and> v \<le> 2 ^ 240)) ?ts"
    using plausible_pairs_wf [of _ _ NewHeuristicDecoder params]
    by (fastforce simp: list_all_iff guess_def set_firsts NewHeuristicDecoder_def maxValueBits_def
        dest!: in_set_takeD)
  moreover have "Heuristic_Decode NewHeuristicDecoder sel params = Ok \<lparr>Selector = sel, Transfers = ?ts\<rparr>"
    using Heuristic_Decode_eq [of NewHeuristicDecoder sel params]
    by (simp add: NewHeuristicDecoder_def defaultMaxTransfers_def)
  moreover have "plausibleValue NewHeuristicDecoder v \<longleftrightarrow> 0 < v \<and> v \<le> 2 ^ 240" for v
    by (auto simp: plausibleValue_def NewHeuristicDecoder_def maxValueBits_def)
  ultimately show ?thesis by (intro exI [of _ ?ts]) simp
qed

end
