(* ===== verification/Evm_Chain.thy ===== *)
theory Evm_Chain
  imports Evm_Multicall Evm_Heuristic
begin

text \<open>
  \<open>src/evm-lib/parser/codecs/chain.go\<close> and \<open>src/evm-lib/parser/parser/parser.go\<close>: the
  dispatch of calldata to the first decoder that claims its selector, and the recursion that
  arises when a wrapper codec is given the chain it sits in. Chains and wrapper codecs are
  objects of an explicit heap, since the code ties that knot by mutation (\<open>Add\<close>,
  \<open>SetSubParser\<close>). \<open>parse_depth\<close> runs the recursion on a call stack of bounded depth;
  \<open>ParseBytes\<close> takes a depth one above the length of the calldata, which the theorems show
  is always enough.
\<close>

section \<open>Dispatch\<close>

text \<open>An interface value of Go's \<open>Decoder\<close>: its two methods.\<close>

type_synonym decoder_value = "(selector \<Rightarrow> bool) \<times> (selector \<Rightarrow> input_params \<Rightarrow> parsed_input res)"

fun chain_dispatch :: "decoder_value list \<Rightarrow> selector \<Rightarrow> input_params \<Rightarrow> parsed_input res" where
  "chain_dispatch [] sel params = Err (ChainNoDecoder sel)"
| "chain_dispatch ((can, dec) # ds) sel params =
     (if \<not> can sel then chain_dispatch ds sel params else dec sel params)"

definition Chain_ParseBytes :: "decoder_value list \<Rightarrow> byte list \<Rightarrow> parsed_input res" where
  "Chain_ParseBytes decoders raw =
     (if length raw < selectorSize then Err (ChainTooShort (length raw))
      else
        let sel = SelectorFromBytes (take selectorSize raw);
            params = drop selectorSize raw
        in chain_dispatch decoders sel params)"

fun parser_dispatch :: "decoder_value list \<Rightarrow> selector \<Rightarrow> input_params \<Rightarrow> parsed_input res" where
  "parser_dispatch [] sel params = Err (ParserNoDecoder sel)"
| "parser_dispatch ((can, dec) # ds) sel params =
     (if \<not> can sel then parser_dispatch ds sel params
      else map_err (Ctx ''decoding failed'') (dec sel params))"

text \<open>
  \<open>hexData[:4]\<close> and \<open>hexData[4:]\<close> have no length check before them. The first may reach into
  spare capacity, the second is checked against the length: together they panic whenever
  fewer than four bytes were decoded.
\<close>

definition Parser_Parse :: "decoder_value list \<Rightarrow> string \<Rightarrow> parsed_input res" where
  "Parser_Parse decoders data =
     bind_out (map_err ParserInvalidHex (hex_DecodeString data)) (\<lambda>hexData.
     bind_out (slice hexData 0 4) (\<lambda>hd4.
     bind_out (slice hexData 4 (int (length hexData))) (\<lambda>params.
     parser_dispatch decoders (SelectorFromBytes hd4) params)))"

section \<open>Chains and wrappers on the heap\<close>

type_synonym chain_ptr = nat
type_synonym wrapper_ptr = nat

text \<open>
  The codecs of the package; the wrapper codecs are pointers to mutable objects. Nil decoders and
  decoders of the caller, which the interface also admits, are in \<open>Evm_Interface\<close>.
\<close>

datatype decoder_ref =
    WETHDecoder
  | AaveWETHGatewayDecoder
  | UniswapV2RouterDecoder
  | UniswapV3PaymentsDecoder
  | DisperseDecoder
  | GnosisSafeDecoder
  | GnosisMultiSendDecoder
  | HeuristicDecoder
  | MulticallDecoder wrapper_ptr
  | Multicall3ValueDecoder wrapper_ptr

record evm_heap =
  chains :: "chain_ptr \<Rightarrow> decoder_ref list"
  subs :: "wrapper_ptr \<Rightarrow> chain_ptr option"
  next_chain :: chain_ptr
  next_wrapper :: wrapper_ptr

definition NewChain :: "decoder_ref list \<Rightarrow> evm_heap \<Rightarrow> chain_ptr \<times> evm_heap" where
  "NewChain decoders h =
     (next_chain h, h\<lparr>chains := (chains h)(next_chain h := decoders), next_chain := Suc (next_chain h)\<rparr>)"

definition Chain_Add :: "chain_ptr \<Rightarrow> decoder_ref \<Rightarrow> evm_heap \<Rightarrow> evm_heap" where
  "Chain_Add c d h = h\<lparr>chains := (chains h)(c := chains h c @ [d])\<rparr>"

definition NewMulticallDecoder :: "chain_ptr option \<Rightarrow> evm_heap \<Rightarrow> decoder_ref \<times> evm_heap" where
  "NewMulticallDecoder sub h =
     (MulticallDecoder (next_wrapper h),
      h\<lparr>subs := (subs h)(next_wrapper h := sub), next_wrapper := Suc (next_wrapper h)\<rparr>)"

definition NewMulticall3ValueDecoder :: "chain_ptr option \<Rightarrow> evm_heap \<Rightarrow> decoder_ref \<times> evm_heap" where
  "NewMulticall3ValueDecoder sub h =
     (Multicall3ValueDecoder (next_wrapper h),
      h\<lparr>subs := (subs h)(next_wrapper h := sub), next_wrapper := Suc (next_wrapper h)\<rparr>)"

definition SetSubParser :: "wrapper_ptr \<Rightarrow> chain_ptr option \<Rightarrow> evm_heap \<Rightarrow> evm_heap" where
  "SetSubParser p sub h = h\<lparr>subs := (subs h)(p := sub)\<rparr>"

text \<open>The methods of a codec, with the sub-parsers of the wrappers given by \<open>rec\<close>.\<close>

fun decoder_value_of :: "evm_heap \<Rightarrow> (chain_ptr \<Rightarrow> sub_parser_fn) \<Rightarrow> decoder_ref \<Rightarrow> decoder_value" where
  "decoder_value_of h rec WETHDecoder = (WETH_CanDecode, WETH_Decode)"
| "decoder_value_of h rec AaveWETHGatewayDecoder = (Aave_CanDecode, Aave_Decode)"
| "decoder_value_of h rec UniswapV2RouterDecoder = (V2_CanDecode, V2_Decode)"
| "decoder_value_of h rec UniswapV3PaymentsDecoder = (V3_CanDecode, V3_Decode)"
| "decoder_value_of h rec DisperseDecoder = (Disperse_CanDecode, Disperse_Decode)"
| "decoder_value_of h rec GnosisSafeDecoder = (Safe_CanDecode, Safe_Decode)"
| "decoder_value_of h rec GnosisMultiSendDecoder = (MultiSend_CanDecode, MultiSend_Decode)"
| "decoder_value_of h rec HeuristicDecoder =
     (Heuristic_CanDecode, Heuristic_Decode NewHeuristicDecoder)"
| "decoder_value_of h rec (MulticallDecoder p) =
     (Multicall_CanDecode, Multicall_Decode (map_option rec (subs h p)))"
| "decoder_value_of h rec (Multicall3ValueDecoder p) =
     (Multicall3_CanDecode, Multicall3_Decode (map_option rec (subs h p)))"

primrec parse_depth :: "nat \<Rightarrow> evm_heap \<Rightarrow> chain_ptr \<Rightarrow> sub_parser_fn" where
  "parse_depth 0 h c = (\<lambda>raw. Panic StackOverflow)"
| "parse_depth (Suc n) h c = (\<lambda>raw.
     map_ok Some (Chain_ParseBytes (map (decoder_value_of h (parse_depth n h)) (chains h c)) raw))"

definition ParseBytes :: "evm_heap \<Rightarrow> chain_ptr \<Rightarrow> sub_parser_fn" where
  "ParseBytes h c raw = parse_depth (Suc (length raw)) h c raw"

record parser = parser_decoders :: "decoder_ref list"

definition Parser_New :: "decoder_ref list \<Rightarrow> parser" where
  "Parser_New codecs = \<lparr>parser_decoders = codecs\<rparr>"

definition Parse :: "evm_heap \<Rightarrow> parser \<Rightarrow> string \<Rightarrow> parsed_input res" where
  "Parse h p data = Parser_Parse (map (decoder_value_of h (ParseBytes h)) (parser_decoders p)) data"

section \<open>Dispatch over decoders that meet their contract\<close>

definition meets_contract :: "decoder_value \<Rightarrow> bool" where
  "meets_contract d \<longleftrightarrow> decoder (fst d) (snd d)"

lemma chain_dispatch_cong:
  assumes "\<And>d. d \<in> set ds \<Longrightarrow> fst (f d) = fst (g d) \<and> snd (f d) sel params = snd (g d) sel params"
  shows "chain_dispatch (map f ds) sel params = chain_dispatch (map g ds) sel params"
  using assms
proof (induction ds)
  case Nil
  then show ?case by simp
next
  case (Cons d ds)
  have "fst (f d) = fst (g d)" "snd (f d) sel params = snd (g d) sel params"
    using Cons.prems by simp_all
  with Cons show ?case by (cases "f d"; cases "g d") simp
qed

lemma chain_dispatch_good:
  assumes "\<And>d. d \<in> set ds \<Longrightarrow> ensures (wf_parsed sel) (snd d sel params)"
  shows "ensures (wf_parsed sel) (chain_dispatch ds sel params)"
  using assms by (induction ds sel params rule: chain_dispatch.induct) fastforce+

lemma contract_ensures:
  "meets_contract d \<Longrightarrow> calldata params \<Longrightarrow> ensures (wf_parsed sel) (snd d sel params)"
  unfolding meets_contract_def ensures_iff
  by (meson decoder.dec_safe decoder.dec_wf)

lemma parser_dispatch_chain:
  "parser_dispatch ds sel params =
     (if \<exists>d \<in> set ds. fst d sel
      then map_err (Ctx ''decoding failed'') (chain_dispatch ds sel params)
      else Err (ParserNoDecoder sel))"
  by (induction ds sel params rule: parser_dispatch.induct) auto

section \<open>The recursion\<close>

lemma decoder_value_agree:
  assumes "\<And>c. agree_below (length params) (r c) (r' c)"
  shows "fst (decoder_value_of h r d) = fst (decoder_value_of h r' d)
    \<and> snd (decoder_value_of h r d) sel params = snd (decoder_value_of h r' d) sel params"
proof (cases d)
  case (MulticallDecoder p)
  then show ?thesis using Multicall_agree [OF assms] by (cases "subs h p") simp_all
next
  case (Multicall3ValueDecoder p)
  then show ?thesis using Multicall3_agree [OF assms] by (cases "subs h p") simp_all
qed simp_all

text \<open>A chain sees its sub-parsers on payloads shorter than its calldata only.\<close>

lemma Chain_ParseBytes_agree:
  assumes "\<And>c. agree_below (length raw - selectorSize) (r c) (r' c)"
  shows "Chain_ParseBytes (map (decoder_value_of h r) ds) raw
    = Chain_ParseBytes (map (decoder_value_of h r') ds) raw"
  unfolding Chain_ParseBytes_def Let_def
  using decoder_value_agree [of "drop selectorSize raw" r r' h] assms
  by (auto intro!: chain_dispatch_cong)

lemma parse_depth_agree:
  "length raw < n \<Longrightarrow> length raw < m \<Longrightarrow> parse_depth n h c raw = parse_depth m h c raw"
proof (induction n arbitrary: m c raw)
  case 0
  then show ?case by simp
next
  case (Suc n)
  then obtain m' where m: "m = Suc m'" by (cases m) auto
  have "agree_below (length raw - selectorSize) (parse_depth n h c') (parse_depth m' h c')" for c'
    unfolding agree_below_def
  proof (intro allI impI)
    fix d :: "byte list" assume "length d < length raw - selectorSize"
    then show "parse_depth n h c' d = parse_depth m' h c' d"
      using Suc.prems m by (intro Suc.IH) simp_all
  qed
  then show ?case
    unfolding m parse_depth.simps
    by (subst Chain_ParseBytes_agree [of raw "parse_depth n h" "parse_depth m' h"]) simp_all
qed

lemma ParseBytes_depth: "length raw < n \<Longrightarrow> parse_depth n h c raw = ParseBytes h c raw"
  unfolding ParseBytes_def by (rule parse_depth_agree) simp_all

lemma ParseBytes_unfold:
  "ParseBytes h c raw =
     map_ok Some (Chain_ParseBytes (map (decoder_value_of h (ParseBytes h)) (chains h c)) raw)"
proof -
  have "agree_below (length raw - selectorSize) (parse_depth (length raw) h c') (ParseBytes h c')" for c'
    by (simp add: agree_below_def ParseBytes_depth)
  then have "Chain_ParseBytes (map (decoder_value_of h (parse_depth (length raw) h)) (chains h c)) raw
      = Chain_ParseBytes (map (decoder_value_of h (ParseBytes h)) (chains h c)) raw"
    by (rule Chain_ParseBytes_agree)
  then show ?thesis
    using ParseBytes_def [of h c raw] by simp
qed

text \<open>Since payloads shrink, that equation has no other solution.\<close>

lemma ParseBytes_unique:
  assumes "\<And>c raw. f c raw = map_ok Some (Chain_ParseBytes (map (decoder_value_of h f) (chains h c)) raw)"
  shows "f c raw = ParseBytes h c raw"
proof (induction raw arbitrary: c rule: length_induct)
  case (1 raw)
  then have "agree_below (length raw - selectorSize) (f c') (ParseBytes h c')" for c'
    by (simp add: agree_below_def)
  then have "Chain_ParseBytes (map (decoder_value_of h f) (chains h c)) raw
      = Chain_ParseBytes (map (decoder_value_of h (ParseBytes h)) (chains h c)) raw"
    by (rule Chain_ParseBytes_agree)
  then show ?case by (subst assms, subst ParseBytes_unfold) simp
qed

lemma static_contracts:
  "decoder WETH_CanDecode WETH_Decode" "decoder Aave_CanDecode Aave_Decode"
  "decoder V2_CanDecode V2_Decode" "decoder V3_CanDecode V3_Decode"
  "decoder Disperse_CanDecode Disperse_Decode" "decoder Safe_CanDecode Safe_Decode"
  "decoder MultiSend_CanDecode MultiSend_Decode"
  "decoder Heuristic_CanDecode (Heuristic_Decode NewHeuristicDecoder)"
  "decoder Multicall_CanDecode (Multicall_Decode None)"
  "decoder Multicall3_CanDecode (Multicall3_Decode None)"
  by (rule weth.decoder_axioms aave.decoder_axioms v2.decoder_axioms v3.decoder_axioms
      disperse.decoder_axioms gsafe.decoder_axioms multisend.decoder_axioms
      heuristic.decoder_axioms multicall_nil.decoder_axioms multicall3_nil.decoder_axioms)+

lemma decoder_value_good:
  assumes "calldata params" and "\<And>c. good_below (length params) (r c)"
  shows "ensures (wf_parsed sel) (snd (decoder_value_of h r d) sel params)"
proof (cases d)
  case (MulticallDecoder p)
  then show ?thesis
    using Multicall_good [OF assms(2)] contract_ensures [OF _ assms(1)] static_contracts(9)
    by (cases "subs h p") (auto simp: meets_contract_def Multicall_Decode_def)
next
  case (Multicall3ValueDecoder p)
  then show ?thesis
    using Multicall3_good [where ds = "map_option r (subs h p)" and params = params] assms(2)
    by (simp split: option.splits)
qed (use contract_ensures [OF _ assms(1)] static_contracts in \<open>auto simp: meets_contract_def\<close>)

lemma ParseBytes_good:
  "calldata raw \<Longrightarrow> ensures (\<lambda>r. \<exists>p. r = Some p \<and> list_all wf_transfer (Transfers p)) (ParseBytes h c raw)"
proof (induction raw arbitrary: c rule: length_induct)
  case (1 raw)
  have IH: "good_below (length raw - selectorSize) (ParseBytes h c')" for c'
    unfolding good_below_def
  proof (intro allI impI)
    fix d :: "byte list" assume d: "length d < length raw - selectorSize"
    then have "ensures (\<lambda>r. \<exists>p. r = Some p \<and> list_all wf_transfer (Transfers p)) (ParseBytes h c' d)"
      using "1.IH" "1.prems" by (simp add: calldata_def)
    then show "ensures (\<lambda>r. case r of None \<Rightarrow> True | Some p \<Rightarrow> list_all wf_transfer (Transfers p))
        (ParseBytes h c' d)"
      by (auto simp: ensures_iff)
  qed
  let ?sel = "SelectorFromBytes (take selectorSize raw)" and ?params = "drop selectorSize raw"
  have "ensures (wf_parsed ?sel) (chain_dispatch (map (decoder_value_of h (ParseBytes h)) (chains h c))
      ?sel ?params)"
    using "1.prems" IH by (intro chain_dispatch_good) (auto simp: calldata_def intro!: decoder_value_good)
  then show ?case
    by (subst ParseBytes_unfold)
       (auto simp: Chain_ParseBytes_def Let_def ensures_iff outcome_simps wf_parsed_def list_all_iff)
qed

text \<open>Every chain of a heap is a sub-parser, so a wrapper over it is a decoder.\<close>

interpretation chain: sub_parser "ParseBytes h c" for h c
  using ParseBytes_good [of _ h c] by unfold_locales (auto simp: ensures_iff)

section \<open>Properties\<close>

text \<open>
  C2. The recursion of a chain terminates even when its wrapper codecs point back to it: any call
  depth above the length of the calldata gives the same outcome, and that outcome is not a stack
  overflow. (Payloads handed to a sub-parser are shorter than the calldata they come from.)
\<close>

theorem chain_recursion_terminates:
  assumes "length raw < n" and "calldata raw"
  shows "parse_depth n h c raw = ParseBytes h c raw \<and> safe (parse_depth n h c raw)"
  using ParseBytes_depth [OF assms(1)] chain.sub_safe [OF assms(2)] by simp

definition cyclic_heap :: evm_heap where
  "cyclic_heap = \<lparr>chains = (\<lambda>_. [MulticallDecoder 0, HeuristicDecoder]), subs = (\<lambda>_. Some 0),
     next_chain = 1, next_wrapper = 1\<rparr>"

theorem chain_recursion_terminates_witness:
  "parse_depth 6 cyclic_heap 0 [0xac, 0x96, 0x50, 0xd8, 0] = ParseBytes cyclic_heap 0 [0xac, 0x96, 0x50, 0xd8, 0]
   \<and> safe (parse_depth 6 cyclic_heap 0 [0xac, 0x96, 0x50, 0xd8, 0])"
  by (rule chain_recursion_terminates) (simp_all add: calldata_def)

text \<open>
  C13. \<open>ParseBytes\<close> is the function the code describes: it satisfies the code's recursive equation
  (the chain dispatches to its decoders, and the wrappers among them recurse through \<open>ParseBytes\<close> on
  the chain they point to), and it is the only function that does, whatever the heap, cyclic or not.
\<close>

theorem ParseBytes_recursive_equation:
  "f = ParseBytes h \<longleftrightarrow> (\<forall>c raw. f c raw =
     (if length raw < 4 then Err (ChainTooShort (length raw))
      else map_ok Some (chain_dispatch (map (decoder_value_of h f) (chains h c)) (take 4 raw) (drop 4 raw))))"
proof -
  have body: "map_ok Some (Chain_ParseBytes (map (decoder_value_of h g) (chains h c)) raw) =
     (if length raw < 4 then Err (ChainTooShort (length raw))
      else map_ok Some (chain_dispatch (map (decoder_value_of h g) (chains h c)) (take 4 raw) (drop 4 raw)))" for g c raw
    by (simp add: Chain_ParseBytes_def Let_def)
  show ?thesis
    unfolding body [symmetric]
  proof
    show "\<forall>c raw. f c raw = map_ok Some (Chain_ParseBytes (map (decoder_value_of h f) (chains h c)) raw)" if "f = ParseBytes h"
      unfolding that using ParseBytes_unfold by blast
    show "f = ParseBytes h" if "\<forall>c raw. f c raw = map_ok Some (Chain_ParseBytes (map (decoder_value_of h f) (chains h c)) raw)"
      using ParseBytes_unique [of f h] that by (intro ext) blast
  qed
qed

text \<open>
  C1. Decoding never panics and returns only well-formed results: for every heap, chain and
  calldata the outcome is an error or a result under the calldata's own selector whose transfers
  have a zero source, a 20-byte recipient, a value below \<open>2 ^ 256\<close> (absent only with the
  confidence \<open>Possible\<close>) and one of the three confidences.
\<close>

theorem chain_results_well_formed:
  assumes "calldata raw"
  shows "(\<exists>e. ParseBytes h c raw = Err e) \<or>
    (\<exists>p. ParseBytes h c raw = Ok (Some p) \<and> wf_parsed (take 4 raw) p)"
proof (cases "length raw < 4")
  case True
  then show ?thesis by (subst ParseBytes_unfold) (simp add: Chain_ParseBytes_def)
next
  case False
  have "calldata (drop 4 raw)" using assms by (simp add: calldata_def)
  moreover have "good_below (length (drop 4 raw)) (ParseBytes h c')" for c'
    by (rule chain.good_below_calldata) fact
  ultimately have "ensures (wf_parsed (take 4 raw))
      (chain_dispatch (map (decoder_value_of h (ParseBytes h)) (chains h c)) (take 4 raw) (drop 4 raw))"
    by (intro chain_dispatch_good) (auto intro!: decoder_value_good)
  with False show ?thesis
    by (subst (1 2) ParseBytes_unfold)
       (cases "chain_dispatch (map (decoder_value_of h (ParseBytes h)) (chains h c)) (take 4 raw) (drop 4 raw)",
        simp_all add: Chain_ParseBytes_def Let_def)
qed

theorem chain_results_well_formed_witness:
  "(\<exists>e. ParseBytes cyclic_heap 0 [1, 2, 3, 4, 5] = Err e) \<or>
   (\<exists>p. ParseBytes cyclic_heap 0 [1, 2, 3, 4, 5] = Ok (Some p) \<and> wf_parsed [1, 2, 3, 4] p)"
  using chain_results_well_formed [of "[1, 2, 3, 4, 5]" cyclic_heap 0]
  by (simp add: calldata_def)

lemma Parser_Parse_hex:
  assumes "4 \<le> length raw"
  shows "Parser_Parse ds (hex_EncodeToString raw) = parser_dispatch ds (take 4 raw) (drop 4 raw)"
  using assms by (simp add: Parser_Parse_def hex_Decode_Encode slice_def)

text \<open>
  \<open>Parse\<close> has no length check: hex that decodes to fewer than four bytes, the empty string
  included, makes it panic whatever the decoders are, where \<open>ParseBytes\<close> returns an error.
\<close>

lemma parse_panics_on_short_calldata:
  assumes "length raw < 4"
  shows "Parse h (Parser_New ds) (hex_EncodeToString raw) = Panic SliceOutOfRange
    \<and> ParseBytes h c raw = Err (ChainTooShort (length raw))"
  using assms by (subst ParseBytes_unfold)
    (simp add: Parse_def Parser_New_def Parser_Parse_def hex_Decode_Encode slice_def Chain_ParseBytes_def)

lemma parse_agrees_long:
  assumes "4 \<le> length raw" and "calldata raw"
  shows "safe (Parse h (Parser_New (chains h c)) (hex_EncodeToString raw))
    \<and> (Parse h (Parser_New (chains h c)) (hex_EncodeToString raw) = Ok p \<longleftrightarrow> ParseBytes h c raw = Ok (Some p))"
proof -
  let ?ds = "map (decoder_value_of h (ParseBytes h)) (chains h c)"
  have unclaimed: "chain_dispatch ds sel params = Err (ChainNoDecoder sel)"
    if "\<not> (\<exists>d \<in> set ds. fst d sel)" for ds sel params
    using that by (induction ds sel params rule: chain_dispatch.induct) auto
  have "safe (ParseBytes h c raw)" using assms(2) by (rule chain.sub_safe)
  then have "safe (chain_dispatch ?ds (take 4 raw) (drop 4 raw))"
    using assms(1) by (subst (asm) ParseBytes_unfold) (simp add: Chain_ParseBytes_def Let_def)
  then show ?thesis
    using assms(1) unclaimed [of ?ds "take 4 raw" "drop 4 raw"]
    by (subst ParseBytes_unfold)
       (auto simp: Parse_def Parser_New_def Parser_Parse_hex parser_dispatch_chain Chain_ParseBytes_def Let_def
         outcome_simps)
qed

text \<open>
  C17. \<open>Parse\<close> and a chain over the same decoders agree: on the hex of calldata with at least
  four bytes, \<open>Parse\<close> never panics and succeeds exactly when \<open>ParseBytes\<close> does, with the
  same result. On fewer bytes, the empty string included, \<open>Parse\<close> panics where \<open>ParseBytes\<close>
  returns an error: it slices the selector off without a length check.
\<close>

theorem parse_agrees_with_chain:
  assumes "calldata raw"
  shows "(4 \<le> length raw \<longrightarrow> safe (Parse h (Parser_New (chains h c)) (hex_EncodeToString raw))
      \<and> (\<forall>p. Parse h (Parser_New (chains h c)) (hex_EncodeToString raw) = Ok p \<longleftrightarrow> ParseBytes h c raw = Ok (Some p)))
    \<and> (length raw < 4 \<longrightarrow> Parse h (Parser_New (chains h c)) (hex_EncodeToString raw) = Panic SliceOutOfRange
      \<and> ParseBytes h c raw = Err (ChainTooShort (length raw)))"
  using parse_agrees_long [OF _ assms] parse_panics_on_short_calldata [of raw h "chains h c" c] by blast

theorem parse_agrees_with_chain_witness:
  "safe (Parse cyclic_heap (Parser_New (chains cyclic_heap 0)) (hex_EncodeToString [1, 2, 3, 4, 5]))
   \<and> (Parse cyclic_heap (Parser_New (chains cyclic_heap 0)) (hex_EncodeToString [1, 2, 3, 4, 5])
        = Ok \<lparr>Selector = [1, 2, 3, 4], Transfers = []\<rparr>
      \<longleftrightarrow> ParseBytes cyclic_heap 0 [1, 2, 3, 4, 5] = Ok (Some \<lparr>Selector = [1, 2, 3, 4], Transfers = []\<rparr>))
   \<and> Parse cyclic_heap (Parser_New (chains cyclic_heap 0)) (hex_EncodeToString [1]) = Panic SliceOutOfRange"
  using parse_agrees_with_chain [of "[1, 2, 3, 4, 5]" cyclic_heap 0] parse_agrees_with_chain [of "[1]" cyclic_heap 0]
  by (simp add: calldata_def)

end
