(* ===== verification/Evm_Wrappers.thy ===== *)
theory Evm_Wrappers
  imports Evm_Chain
begin

text \<open>
  Properties that span the codecs: the claimed selectors are disjoint, so that the order of the
  specific decoders in a chain does not matter and that of the heuristic does; and the wrapper
  codecs undo the ABI encoding of the batches they unpack.
\<close>

section \<open>Registration order\<close>

text \<open>The selectors a codec claims do not depend on the heap.\<close>

definition claims :: "decoder_ref \<Rightarrow> selector \<Rightarrow> bool" where
  "claims d = fst (decoder_value_of cyclic_heap (\<lambda>c raw. Panic StackOverflow) d)"

lemma fst_decoder_value: "fst (decoder_value_of h r d) = claims d"
  by (cases d) (simp_all add: claims_def)

definition same_kind :: "decoder_ref \<Rightarrow> decoder_ref \<Rightarrow> bool" where
  "same_kind d d' \<longleftrightarrow> (\<exists>p q. d = MulticallDecoder p \<and> d' = MulticallDecoder q)
     \<or> (\<exists>p q. d = Multicall3ValueDecoder p \<and> d' = Multicall3ValueDecoder q) \<or> d = d'"

lemmas can_decode_defs = WETH_CanDecode_def Aave_CanDecode_def V2_CanDecode_def V3_CanDecode_def
  Safe_CanDecode_def Disperse_CanDecode_def MultiSend_CanDecode_def Multicall_CanDecode_def
  Multicall3_CanDecode_def

lemma claims_disjoint:
  assumes "d \<noteq> HeuristicDecoder" and "d' \<noteq> HeuristicDecoder" and "claims d sel" and "claims d' sel"
  shows "same_kind d d'"
  using assms
  by (cases d; cases d')
     (auto simp: claims_def same_kind_def can_decode_defs static_selectors wrapper_selectors
       selDisperseEther_def selMultiSend_def)

lemma chain_dispatch_first:
  assumes "d \<in> set ds" and "claims d sel"
    and "\<And>d'. d' \<in> set ds \<Longrightarrow> claims d' sel \<Longrightarrow> d' = d"
  shows "chain_dispatch (map (decoder_value_of h r) (ds @ es)) sel params
    = snd (decoder_value_of h r d) sel params"
  using assms
proof (induction ds)
  case Nil
  then show ?case by simp
next
  case (Cons x xs)
  obtain can dec where x: "decoder_value_of h r x = (can, dec)" by fastforce
  then have can: "can = claims x" using fst_decoder_value [of h r x] by simp
  show ?case
  proof (cases "claims x sel")
    case True
    then have "x = d" using Cons.prems(3) by simp
    with True x can show ?thesis by simp
  next
    case False
    with Cons.prems(1,2) have "d \<in> set xs" by auto
    then have "chain_dispatch (map (decoder_value_of h r) (xs @ es)) sel params
        = snd (decoder_value_of h r d) sel params"
      by (rule Cons.IH [OF _ Cons.prems(2)]) (rule Cons.prems(3), simp_all)
    with False x can show ?thesis by simp
  qed
qed

lemma chain_dispatch_none:
  assumes "\<And>d. d \<in> set ds \<Longrightarrow> \<not> claims d sel"
  shows "chain_dispatch (map (decoder_value_of h r) (ds @ es)) sel params
    = chain_dispatch (map (decoder_value_of h r) es) sel params"
  using assms
proof (induction ds)
  case Nil
  then show ?case by simp
next
  case (Cons x xs)
  obtain can dec where x: "decoder_value_of h r x = (can, dec)" by fastforce
  then have "can = claims x" using fst_decoder_value [of h r x] by simp
  with Cons x show ?case by simp
qed

text \<open>
  C38. The order in which the specific decoders are registered does not matter as long as the
  heuristic comes last: two chains with the same specific decoders (at most one multicall wrapper
  of each kind) decode every call alike. Registered first, the heuristic hides all the others.
\<close>

theorem decoder_order_irrelevant:
  assumes "set ds = set ds'" and "HeuristicDecoder \<notin> set ds"
    and "\<forall>d \<in> set ds. \<forall>d' \<in> set ds. same_kind d d' \<longrightarrow> d = d'"
  shows "chain_dispatch (map (decoder_value_of h r) (ds @ [HeuristicDecoder])) sel params
      = chain_dispatch (map (decoder_value_of h r) (ds' @ [HeuristicDecoder])) sel params
    \<and> chain_dispatch (map (decoder_value_of h r) (HeuristicDecoder # ds)) sel params
      = Heuristic_Decode NewHeuristicDecoder sel params"
proof (cases "\<exists>d \<in> set ds. claims d sel")
  case True
  then obtain d where d: "d \<in> set ds" "claims d sel" by blast
  have uniq: "d' = d" if "d' \<in> set ds" "claims d' sel" for d'
    using claims_disjoint [of d' d sel] that d assms(2,3) by metis
  have "chain_dispatch (map (decoder_value_of h r) (xs @ [HeuristicDecoder])) sel params
      = snd (decoder_value_of h r d) sel params" if "set xs = set ds" for xs
    by (rule chain_dispatch_first [OF _ d(2)]) (use d(1) that in simp, use that in \<open>blast intro: uniq\<close>)
  then show ?thesis
    using assms(1) by (simp add: Heuristic_CanDecode_def)
next
  case False
  then have "chain_dispatch (map (decoder_value_of h r) (xs @ [HeuristicDecoder])) sel params
      = chain_dispatch (map (decoder_value_of h r) [HeuristicDecoder]) sel params"
    if "set xs = set ds" for xs
    by (intro chain_dispatch_none) (use that in blast)
  then show ?thesis
    using assms(1) by (simp add: Heuristic_CanDecode_def)
qed

theorem decoder_order_irrelevant_witness:
  "chain_dispatch (map (decoder_value_of cyclic_heap (ParseBytes cyclic_heap))
      ([WETHDecoder, MulticallDecoder 0] @ [HeuristicDecoder])) selWETHWithdraw (enc_uint 1)
   = chain_dispatch (map (decoder_value_of cyclic_heap (ParseBytes cyclic_heap))
      ([MulticallDecoder 0, WETHDecoder] @ [HeuristicDecoder])) selWETHWithdraw (enc_uint 1)
   \<and> chain_dispatch (map (decoder_value_of cyclic_heap (ParseBytes cyclic_heap))
      (HeuristicDecoder # [WETHDecoder, MulticallDecoder 0])) selWETHWithdraw (enc_uint 1)
     = Heuristic_Decode NewHeuristicDecoder selWETHWithdraw (enc_uint 1)"
  by (rule decoder_order_irrelevant) (auto simp: same_kind_def)

section \<open>Batches\<close>

text \<open>What one payload contributes to the result of a wrapper.\<close>

definition sub_transfers :: "sub_parser_fn \<Rightarrow> byte list \<Rightarrow> transfer list" where
  "sub_transfers sub raw =
     (if length raw < 4 then []
      else case sub raw of Ok (Some p) \<Rightarrow> Transfers p | _ \<Rightarrow> [])"

lemma appendSub_transfers:
  "safe (sub raw) \<Longrightarrow>
     appendSub sub raw out = Ok (out\<lparr>Transfers := Transfers out @ sub_transfers sub raw\<rparr>)"
  by (cases "sub raw") (auto simp: appendSub_def sub_transfers_def split: option.split)

lemma for_each_transfers:
  assumes "\<And>x out. x \<in> set xs \<Longrightarrow> f x out = Ok (out\<lparr>Transfers := Transfers out @ g x\<rparr>)"
  shows "for_each f xs out = Ok (out\<lparr>Transfers := Transfers out @ concat (map g xs)\<rparr>)"
  using assms by (induction xs arbitrary: out) simp_all

lemma recurseBytesArray_enc:
  assumes "length es \<le> 10000" and "int (length (enc_dyn_array (map enc_bytes es))) \<le> MaxInt32"
    and "int (length pre) \<le> MaxInt32" and "\<forall>raw \<in> set es. safe (sub raw)"
  shows "recurseBytesArray sub out (pre @ enc_dyn_array (map enc_bytes es) @ rest) (int (length pre))
    = Ok (out\<lparr>Transfers := Transfers out @ concat (map (sub_transfers sub) es)\<rparr>)"
  unfolding recurseBytesArray_def
  using ReadBytesArrayElements_enc [OF assms(1-3)] for_each_transfers [of es "appendSub sub"] assms(4)
  by (simp add: appendSub_transfers)

text \<open>
  C18. Decoding an encoded \<open>multicall\<close> returns, in order, the transfers of every payload: a
  payload the sub-parser cannot decode (or one shorter than a selector) contributes nothing and
  does not disturb the others. This holds for \<open>multicall(bytes[])\<close> and for the two variants
  with a leading word.
\<close>

theorem multicall_roundtrip:
  assumes "length es \<le> 10000" and "int (length (enc_dyn_array (map enc_bytes es))) \<le> MaxInt32"
    and "\<forall>raw \<in> set es. safe (sub raw)" and "length w = 32"
    and "sel = selMulticallDeadline \<or> sel = selMulticallPrevHash"
  shows "Multicall_Decode (Some sub) selMulticallBytes
      (enc_uint 32 @ enc_dyn_array (map enc_bytes es) @ rest) =
      Ok \<lparr>Selector = selMulticallBytes, Transfers = concat (map (sub_transfers sub) es)\<rparr>
    \<and> Multicall_Decode (Some sub) sel (w @ enc_uint 64 @ enc_dyn_array (map enc_bytes es) @ rest) =
      Ok \<lparr>Selector = sel, Transfers = concat (map (sub_transfers sub) es)\<rparr>"
proof -
  let ?arr = "enc_dyn_array (map enc_bytes es)"
  have "ReadOffset (enc_uint 32 @ ?arr @ rest) 0 = Ok 32"
    using ReadOffsetAt_enc_uint [of 32 "[]" "?arr @ rest"] by (simp add: ReadOffset_def wrap64_small)
  moreover have "recurseBytesArray sub out (enc_uint 32 @ ?arr @ rest) 32
      = Ok (out\<lparr>Transfers := Transfers out @ concat (map (sub_transfers sub) es)\<rparr>)" for out
    using recurseBytesArray_enc [OF assms(1,2) _ assms(3), of "enc_uint 32"] by simp
  moreover have "ReadOffset (w @ enc_uint 64 @ ?arr @ rest) 1 = Ok 64"
    using ReadOffsetAt_enc_uint [of 64 w "?arr @ rest"] assms(4) by (simp add: ReadOffset_def wrap64_small)
  moreover have "recurseBytesArray sub out (w @ enc_uint 64 @ ?arr @ rest) 64
      = Ok (out\<lparr>Transfers := Transfers out @ concat (map (sub_transfers sub) es)\<rparr>)" for out
    using recurseBytesArray_enc [OF assms(1,2) _ assms(3), of "w @ enc_uint 64"] assms(4) by simp
  moreover have "selMulticallDeadline \<noteq> selMulticallBytes" "selMulticallPrevHash \<noteq> selMulticallBytes"
    by (simp_all add: wrapper_selectors)
  ultimately show ?thesis
    using assms(5) by (auto simp: Multicall_Decode_def Let_def)
qed

theorem multicall_roundtrip_witness:
  "Multicall_Decode (Some (ParseBytes cyclic_heap 0)) selMulticallBytes
      (enc_uint 32 @ enc_dyn_array (map enc_bytes [[1], [2, 3, 4, 5]]) @ []) =
      Ok \<lparr>Selector = selMulticallBytes,
          Transfers = concat (map (sub_transfers (ParseBytes cyclic_heap 0)) [[1], [2, 3, 4, 5]])\<rparr>
   \<and> Multicall_Decode (Some (ParseBytes cyclic_heap 0)) selMulticallDeadline
      (enc_uint 9 @ enc_uint 64 @ enc_dyn_array (map enc_bytes [[1], [2, 3, 4, 5]]) @ []) =
      Ok \<lparr>Selector = selMulticallDeadline,
          Transfers = concat (map (sub_transfers (ParseBytes cyclic_heap 0)) [[1], [2, 3, 4, 5]])\<rparr>"
  by (rule multicall_roundtrip)
     (simp_all add: enc_dyn_array_def enc_bytes_def chain.sub_safe calldata_def)

text \<open>
  A struct whose last head word is the offset of its \<open>bytes\<close> member, after the static words
  \<open>ws\<close>: \<open>(address, bytes)\<close> and \<open>(address, bool, bytes)\<close> with one and two static
  words, \<open>(address, bool, uint256, bytes)\<close> with three.
\<close>

definition enc_struct :: "byte list list \<Rightarrow> byte list \<Rightarrow> byte list" where
  "enc_struct ws d = concat ws @ enc_uint (32 * length ws + 32) @ enc_bytes d"

lemma struct_bytes:
  assumes "\<forall>w \<in> set ws. length w = 32" and "length ws < 100"
    and "params = pre @ enc_struct ws d @ rest"
    and "int (length pre) \<le> 2 * MaxInt32" and "int (length d) \<le> MaxInt32"
  shows "ReadOffsetAt params (int (length pre) + 32 * int (length ws)) = Ok (32 * int (length ws) + 32)"
    and "ReadDynamicBytesAt params (int (length pre) + (32 * int (length ws) + 32)) = Ok d"
proof -
  have len: "length (concat ws) = 32 * length ws" using assms(1) by (rule length_concat_words)
  show "ReadOffsetAt params (int (length pre) + 32 * int (length ws)) = Ok (32 * int (length ws) + 32)"
    using ReadOffsetAt_enc_uint [of "32 * length ws + 32" "pre @ concat ws" "enc_bytes d @ rest"]
      assms(2,4) len
    by (simp add: assms(3) enc_struct_def)
  show "ReadDynamicBytesAt params (int (length pre) + (32 * int (length ws) + 32)) = Ok d"
    using ReadDynamicBytesAt_enc_bytes [of d "pre @ concat ws @ enc_uint (32 * length ws + 32)" rest]
      assms(2,4,5) len
    by (simp add: assms(3) enc_struct_def)
qed

lemma struct_field_index: "0 \<le> b \<Longrightarrow> b \<le> 2 * MaxInt32 \<Longrightarrow> 0 \<le> k \<Longrightarrow> k < 100 \<Longrightarrow>
    wrap64 (b + wrap64 (k * wordSize)) = b + 32 * k"
  by (simp add: wrap64_small)

text \<open>A call is encoded by its static words and its \<open>bytes\<close> payload.\<close>

type_synonym struct_call = "byte list list \<times> byte list"

definition enc_calls :: "struct_call list \<Rightarrow> byte list" where
  "enc_calls cs = enc_dyn_array (map (\<lambda>(ws, d). enc_struct ws d) cs)"

definition wf_calls :: "nat \<Rightarrow> struct_call list \<Rightarrow> bool" where
  "wf_calls k cs \<longleftrightarrow> length cs \<le> 10000 \<and> int (length (enc_calls cs)) \<le> MaxInt32
     \<and> (\<forall>(ws, d) \<in> set cs. length ws = k \<and> (\<forall>w \<in> set ws. length w = 32))"

text \<open>Where struct \<open>i\<close> of an encoded array starts and what its pointer word holds.\<close>

lemma enc_calls_struct:
  assumes "wf_calls k cs" and "k < 100" and "i < length cs" and "int (length pre) \<le> MaxInt32"
  obtains rel pre' rest' ws d where "cs ! i = (ws, d)"
    and "ReadOffsetAt (pre @ enc_calls cs @ rest) (int (length pre) + 32 + int i * 32) = Ok rel"
    and "pre @ enc_calls cs @ rest = pre' @ enc_struct ws d @ rest'"
    and "int (length pre') = int (length pre) + 32 + rel" and "0 \<le> rel"
    and "int (length pre') \<le> 2 * MaxInt32"
    and "length ws = k" and "\<forall>w \<in> set ws. length w = 32" and "int (length d) \<le> MaxInt32"
proof -
  let ?ts = "map (\<lambda>(ws, d). enc_struct ws d) cs"
  obtain ws d where c: "cs ! i = (ws, d)" by fastforce
  have ws: "length ws = k" "\<forall>w \<in> set ws. length w = 32"
    using assms(1,3) c nth_mem [OF assms(3)] by (auto simp: wf_calls_def)
  have "(ws, d) \<in> set cs" using nth_mem [OF assms(3)] c by simp
  then have "length (enc_struct ws d) \<in> set (map length ?ts)" by force
  then have "length (enc_struct ws d) \<le> length (concat ?ts)"
    unfolding length_concat by (rule member_le_sum_list) simp
  then have d: "int (length d) \<le> MaxInt32"
    using assms(1) by (simp add: wf_calls_def enc_calls_def enc_dyn_array_def enc_struct_def enc_bytes_def)
  have "i < length ?ts" and "int (length (enc_dyn_array ?ts)) \<le> MaxInt32"
    using assms(1,3) by (simp_all add: wf_calls_def enc_calls_def)
  from dyn_array_element [OF this assms(4), of rest] obtain rel pre' rest'
    where "ReadOffsetAt (pre @ enc_calls cs @ rest) (int (length pre) + 32 + int i * 32) = Ok rel"
      and "pre @ enc_calls cs @ rest = pre' @ enc_struct ws d @ rest'"
      and "int (length pre') = int (length pre) + 32 + rel" "0 \<le> rel" "int (length pre') \<le> 2 * MaxInt32"
    using assms(3) c by (auto simp: enc_calls_def)
  then show thesis using that c ws d by blast
qed

lemma recurseTupleArray_enc:
  assumes "wf_calls k cs" and "k < 100" and "\<forall>c \<in> set cs. safe (sub (snd c))"
    and "ReadOffset (pre @ enc_calls cs @ rest) w = Ok (int (length pre))"
    and "int (length pre) \<le> MaxInt32"
  shows "recurseTupleArray sub out (pre @ enc_calls cs @ rest) w [int k]
    = Ok (out\<lparr>Transfers := Transfers out @ concat (map (\<lambda>c. sub_transfers sub (snd c)) cs)\<rparr>)"
proof -
  let ?params = "pre @ enc_calls cs @ rest" and ?b = "int (length pre)"
  have n: "ReadArrayLength ?params ?b = Ok (int (length cs))"
    using ReadArrayLength_enc_uint [of "length cs" pre] assms(1,5)
    by (simp add: wf_calls_def enc_calls_def enc_dyn_array_def)
  have base: "wrap64 (?b + wordSize) = ?b + 32" using assms(5) by (simp add: wrap64_small)
  have step: "tuple_step sub ?params (?b + 32) [int k] i out
      = Ok (out\<lparr>Transfers := Transfers out @ sub_transfers sub (snd (cs ! i))\<rparr>)"
    if i: "i < length cs" for i out
  proof -
    obtain rel pre' rest' ws d where c: "cs ! i = (ws, d)"
      and rel: "ReadOffsetAt ?params (?b + 32 + int i * 32) = Ok rel"
      and split: "?params = pre' @ enc_struct ws d @ rest'"
      and pre': "int (length pre') = ?b + 32 + rel" "0 \<le> rel" "int (length pre') \<le> 2 * MaxInt32"
      and ws: "length ws = k" "\<forall>w \<in> set ws. length w = 32" "int (length d) \<le> MaxInt32"
      using enc_calls_struct [OF assms(1,2) i assms(5), of rest] by metis
    note field = struct_bytes [OF ws(2) _ split pre'(3) ws(3)]
    have "i < 10000" using i assms(1) by (simp add: wf_calls_def)
    then have ptr: "wrap64 (?b + 32 + wrap64 (int i * wordSize)) = ?b + 32 + int i * 32"
      using assms(5) by (simp add: wrap64_small)
    have "safe (sub d)" using assms(3) c nth_mem [OF i] by force
    moreover have "wrap64 (?b + 32 + rel) = int (length pre')"
      using pre' by (simp add: wrap64_small)
    moreover have "wrap64 (int (length pre') + wrap64 (int k * wordSize)) = int (length pre') + 32 * int k"
      using pre'(3) assms(2) by (intro struct_field_index) simp_all
    moreover have "wrap64 (int (length pre') + (32 * int k + 32)) = int (length pre') + (32 * int k + 32)"
      using pre'(3) assms(2) by (intro wrap64_small) simp_all
    ultimately show ?thesis
      using field ws(1) assms(2) rel ptr c
      by (simp add: tuple_step_def tuple_field_def appendSub_transfers del: wordSize_def)
  qed
  have "for_each (tuple_step sub ?params (?b + 32) [int k]) [0..<length cs] out
      = Ok (out\<lparr>Transfers := Transfers out
          @ concat (map (\<lambda>i. sub_transfers sub (snd (cs ! i))) [0..<length cs])\<rparr>)"
    by (rule for_each_transfers) (use step in simp)
  moreover have "map (\<lambda>i. sub_transfers sub (snd (cs ! i))) [0..<length cs]
      = map (\<lambda>c. sub_transfers sub (snd c)) cs"
    by (rule nth_equalityI) simp_all
  ultimately show ?thesis
    using assms(4) n base by (simp add: recurseTupleArray_def del: wordSize_def)
qed

text \<open>Each of the three selectors reads its own layout of the call structs.\<close>

lemma aggregate_roundtrip:
  assumes "wf_calls 2 cs2" and "wf_calls 1 cs1" and "length w = 32"
    and "\<forall>c \<in> set cs2 \<union> set cs1. safe (sub (snd c))"
  shows "Multicall_Decode (Some sub) selMC3Aggregate3 (enc_uint 32 @ enc_calls cs2 @ rest) =
      Ok \<lparr>Selector = selMC3Aggregate3,
          Transfers = concat (map (\<lambda>c. sub_transfers sub (snd c)) cs2)\<rparr>
    \<and> Multicall_Decode (Some sub) selMC3TryAggregate (w @ enc_uint 64 @ enc_calls cs1 @ rest) =
      Ok \<lparr>Selector = selMC3TryAggregate,
          Transfers = concat (map (\<lambda>c. sub_transfers sub (snd c)) cs1)\<rparr>
    \<and> Multicall_Decode (Some sub) selMC3Aggregate (enc_uint 32 @ enc_calls cs1 @ rest) =
      Ok \<lparr>Selector = selMC3Aggregate,
          Transfers = concat (map (\<lambda>c. sub_transfers sub (snd c)) cs1)\<rparr>"
proof -
  have off0: "ReadOffset (enc_uint 32 @ tl) 0 = Ok 32" for tl
    using ReadOffsetAt_enc_uint [of 32 "[]" tl] by (simp add: ReadOffset_def wrap64_small)
  have off1: "ReadOffset (w @ enc_uint 64 @ tl) 1 = Ok 64" for tl
    using ReadOffsetAt_enc_uint [of 64 w tl] assms(3) by (simp add: ReadOffset_def wrap64_small)
  have "recurseTupleArray sub out (enc_uint 32 @ enc_calls cs2 @ rest) 0 [2]
      = Ok (out\<lparr>Transfers := Transfers out @ concat (map (\<lambda>c. sub_transfers sub (snd c)) cs2)\<rparr>)" for out
    using recurseTupleArray_enc [OF assms(1), of sub "enc_uint 32" rest 0 out] off0 assms(4) by simp
  moreover have "recurseTupleArray sub out (enc_uint 32 @ enc_calls cs1 @ rest) 0 [1]
      = Ok (out\<lparr>Transfers := Transfers out @ concat (map (\<lambda>c. sub_transfers sub (snd c)) cs1)\<rparr>)" for out
    using recurseTupleArray_enc [OF assms(2), of sub "enc_uint 32" rest 0 out] off0 assms(4) by simp
  moreover have "recurseTupleArray sub out (w @ enc_uint 64 @ enc_calls cs1 @ rest) 1 [1]
      = Ok (out\<lparr>Transfers := Transfers out @ concat (map (\<lambda>c. sub_transfers sub (snd c)) cs1)\<rparr>)" for out
    using recurseTupleArray_enc [OF assms(2), of sub "w @ enc_uint 64" rest 1 out] off1 assms(3,4) by simp
  ultimately show ?thesis
    by (simp add: Multicall_Decode_def Let_def wrapper_selectors)
qed

section \<open>aggregate3Value\<close>

text \<open>What one \<open>Call3Value\<close> contributes: its attached ether, then its payload's transfers.\<close>

record call3value =
  target :: address
  allowFailure :: bool
  cvalue :: nat
  callData :: "byte list"

definition call3_struct :: "call3value \<Rightarrow> struct_call" where
  "call3_struct c = ([enc_addr (target c), enc_uint (of_bool (allowFailure c)), enc_uint (cvalue c)],
     callData c)"

definition call3_transfers :: "sub_parser_fn option \<Rightarrow> call3value \<Rightarrow> transfer list" where
  "call3_transfers dsub c =
     (if 0 < cvalue c then [eth_transfer (target c) (int (cvalue c))] else [])
     @ (case dsub of None \<Rightarrow> [] | Some sub \<Rightarrow> sub_transfers sub (callData c))"

definition wf_call3 :: "call3value \<Rightarrow> bool" where
  "wf_call3 c \<longleftrightarrow> wf_address (target c) \<and> cvalue c < 2 ^ 256"

lemma appendInner_transfers:
  assumes "case dsub of None \<Rightarrow> True | Some sub \<Rightarrow> safe (sub raw)"
  shows "appendInner dsub raw out = Ok (out\<lparr>Transfers := Transfers out
    @ (case dsub of None \<Rightarrow> [] | Some sub \<Rightarrow> sub_transfers sub raw)\<rparr>)"
  using assms by (cases dsub) (simp_all add: appendInner_def appendSub_transfers)

lemma call3_head:
  assumes "wf_call3 c" and "params = pre @ enc_struct (fst (call3_struct c)) d @ rest"
    and "int (length pre) \<le> 2 * MaxInt32"
  shows "ReadAddressAt params (int (length pre)) = Ok (target c)"
    and "ReadUint256At params (int (length pre) + 64) = Ok (int (cvalue c))"
proof -
  let ?ws = "fst (call3_struct c)"
  have words: "\<forall>w \<in> set ?ws. length w = 32" and len: "length ?ws = 3"
    using assms(1) by (simp_all add: call3_struct_def wf_call3_def)
  have params: "params = pre @ concat ?ws @ enc_uint 128 @ enc_bytes d @ rest"
    using len by (simp add: assms(2) enc_struct_def)
  show "ReadAddressAt params (int (length pre)) = Ok (target c)"
    using addr.read_nth_word [OF words, of 0 pre] assms(3) len params
    by (simp add: call3_struct_def)
  show "ReadUint256At params (int (length pre) + 64) = Ok (int (cvalue c))"
    using uint.read_nth_word [OF words, of 2 pre] assms(1,3) len params
    by (simp add: call3_struct_def be_value_enc_uint wf_call3_def)
qed

lemma call3_step_enc:
  assumes "\<forall>c \<in> set cs. wf_call3 c" and "wf_calls 3 (map call3_struct cs)" and "i < length cs"
    and "int (length pre) \<le> MaxInt32"
    and "case dsub of None \<Rightarrow> True | Some sub \<Rightarrow> safe (sub (callData (cs ! i)))"
  shows "call3_step dsub (pre @ enc_calls (map call3_struct cs) @ rest) (int (length pre) + 32) i out
    = Ok (out\<lparr>Transfers := Transfers out @ call3_transfers dsub (cs ! i)\<rparr>)"
proof -
  let ?params = "pre @ enc_calls (map call3_struct cs) @ rest" and ?b = "int (length pre)"
  have i: "i < length (map call3_struct cs)" and three: "(3::nat) < 100" using assms(3) by simp_all
  obtain rel pre' rest' ws d where c: "map call3_struct cs ! i = (ws, d)"
    and rel: "ReadOffsetAt ?params (?b + 32 + int i * 32) = Ok rel"
    and split: "?params = pre' @ enc_struct ws d @ rest'"
    and pre': "int (length pre') = ?b + 32 + rel" "0 \<le> rel" "int (length pre') \<le> 2 * MaxInt32"
    and ws: "length ws = 3" "\<forall>w \<in> set ws. length w = 32" "int (length d) \<le> MaxInt32"
    using enc_calls_struct [OF assms(2) three i assms(4), of rest] by metis
  have ws_eq: "ws = fst (call3_struct (cs ! i))" and d: "d = callData (cs ! i)"
    using c assms(3) by (simp_all add: call3_struct_def)
  note head = call3_head [OF bspec [OF assms(1) nth_mem [OF assms(3)]] split [unfolded ws_eq] pre'(3)]
  note field = struct_bytes [OF ws(2) _ split pre'(3) ws(3)]
  have "i < 10000" using assms(2,3) by (simp add: wf_calls_def)
  then have ptr: "wrap64 (?b + 32 + wrap64 (int i * wordSize)) = ?b + 32 + int i * 32"
    using assms(4) by (simp add: wrap64_small)
  have base: "wrap64 (?b + 32 + rel) = int (length pre')"
    using pre' by (simp add: wrap64_small)
  have idx: "wrap64 (int (length pre') + wrap64 (0 * wordSize)) = int (length pre')"
    "wrap64 (int (length pre') + wrap64 (2 * wordSize)) = int (length pre') + 64"
    "wrap64 (int (length pre') + wrap64 (3 * wordSize)) = int (length pre') + 96"
    using struct_field_index [OF _ pre'(3), of 0] struct_field_index [OF _ pre'(3), of 2]
      struct_field_index [OF _ pre'(3), of 3]
    by (simp_all del: wordSize_def)
  have dat: "wrap64 (int (length pre') + 128) = int (length pre') + 128"
    using pre'(3) by (intro wrap64_small) simp_all
  have bytes: "ReadOffsetAt ?params (int (length pre') + 96) = Ok 128"
    "ReadDynamicBytesAt ?params (int (length pre') + 128) = Ok (callData (cs ! i))"
    using field ws(1) d by simp_all
  show ?thesis
    unfolding call3_step_def ptr rel map_err.simps bind_out.simps base Let_def idx head bytes dat
      appendInner_transfers [OF assms(5)]
    by (simp add: call3_transfers_def eth_transfer_def zero_transfer_def)
qed

lemma aggregate3Value_roundtrip:
  assumes "\<forall>c \<in> set cs. wf_call3 c" and "wf_calls 3 (map call3_struct cs)"
    and "\<forall>sub. dsub = Some sub \<longrightarrow> (\<forall>c \<in> set cs. safe (sub (callData c)))"
  shows "Multicall3_Decode dsub selMC3Aggregate3Value
      (enc_uint 32 @ enc_calls (map call3_struct cs) @ rest)
    = Ok \<lparr>Selector = selMC3Aggregate3Value, Transfers = concat (map (call3_transfers dsub) cs)\<rparr>"
proof -
  let ?params = "enc_uint 32 @ enc_calls (map call3_struct cs) @ rest"
  have off: "ReadOffset ?params 0 = Ok 32"
    using ReadOffsetAt_enc_uint [of 32 "[]"] by (simp add: ReadOffset_def wrap64_small)
  have n: "ReadArrayLength ?params 32 = Ok (int (length cs))"
    using ReadArrayLength_enc_uint [of "length cs" "enc_uint 32"] assms(2)
    by (simp add: wf_calls_def enc_calls_def enc_dyn_array_def)
  have step: "call3_step dsub ?params 64 i out
      = Ok (out\<lparr>Transfers := Transfers out @ call3_transfers dsub (cs ! i)\<rparr>)"
    if "i \<in> set [0..<length cs]" for i out
    using call3_step_enc [OF assms(1,2), of i "enc_uint 32" dsub rest out] assms(3) that
    by (auto split: option.split)
  have "for_each (call3_step dsub ?params 64) [0..<length cs] out = Ok (out\<lparr>Transfers := Transfers out
      @ concat (map (\<lambda>i. call3_transfers dsub (cs ! i)) [0..<length cs])\<rparr>)" for out
    by (rule for_each_transfers) (rule step)
  moreover have "map (\<lambda>i. call3_transfers dsub (cs ! i)) [0..<length cs] = map (call3_transfers dsub) cs"
    by (rule nth_equalityI) simp_all
  ultimately show ?thesis
    using off n by (simp add: Multicall3_Decode_def wrap64_small)
qed

text \<open>
  C19. Decoding an encoded \<open>Multicall3\<close> batch returns what its calls do, in order. For
  \<open>aggregate3\<close>, \<open>tryAggregate\<close> and \<open>aggregate\<close> these are the transfers of the \<open>bytes\<close> payload of
  every call struct, whatever its static words hold; undecodable payloads contribute nothing. Each
  selector reads its own layout: two or one static words per struct, and the array's offset in
  head word 0 or (after \<open>requireSuccess\<close>) 1. For \<open>aggregate3Value\<close> the ether attached to a call
  (nothing for a zero value) comes before the transfers of its payload; without a sub-parser the
  attached values are still reported.
\<close>

theorem multicall3_roundtrip:
  assumes "wf_calls 2 cs2" and "wf_calls 1 cs1" and "length w = 32"
    and "\<forall>c \<in> set cs2 \<union> set cs1. safe (sub (snd c))"
    and "\<forall>c \<in> set cs. wf_call3 c" and "wf_calls 3 (map call3_struct cs)"
    and "\<forall>sub. dsub = Some sub \<longrightarrow> (\<forall>c \<in> set cs. safe (sub (callData c)))"
  shows "Multicall_Decode (Some sub) selMC3Aggregate3 (enc_uint 32 @ enc_calls cs2 @ rest) =
      Ok \<lparr>Selector = selMC3Aggregate3, Transfers = concat (map (\<lambda>c. sub_transfers sub (snd c)) cs2)\<rparr>
    \<and> Multicall_Decode (Some sub) selMC3TryAggregate (w @ enc_uint 64 @ enc_calls cs1 @ rest) =
      Ok \<lparr>Selector = selMC3TryAggregate, Transfers = concat (map (\<lambda>c. sub_transfers sub (snd c)) cs1)\<rparr>
    \<and> Multicall_Decode (Some sub) selMC3Aggregate (enc_uint 32 @ enc_calls cs1 @ rest) =
      Ok \<lparr>Selector = selMC3Aggregate, Transfers = concat (map (\<lambda>c. sub_transfers sub (snd c)) cs1)\<rparr>
    \<and> Multicall3_Decode dsub selMC3Aggregate3Value (enc_uint 32 @ enc_calls (map call3_struct cs) @ rest) =
      Ok \<lparr>Selector = selMC3Aggregate3Value, Transfers = concat (map (call3_transfers dsub) cs)\<rparr>"
  using aggregate_roundtrip [OF assms(1-4)] aggregate3Value_roundtrip [OF assms(5-7)] by blast

definition demo_calls3 :: "call3value list" where
  "demo_calls3 = [\<lparr>target = replicate 20 1, allowFailure = True, cvalue = 5, callData = [1, 2, 3, 4]\<rparr>,
     \<lparr>target = replicate 20 2, allowFailure = False, cvalue = 0, callData = []\<rparr>]"

definition demo_calls :: "struct_call list" where
  "demo_calls = [([enc_uint 7], [1]), ([enc_uint 8], [])]"

theorem multicall3_roundtrip_witness:
  "Multicall_Decode (Some (ParseBytes cyclic_heap 0)) selMC3Aggregate3
      (enc_uint 32 @ enc_calls [([enc_uint 7, enc_uint 1], [1, 2, 3, 4, 5])] @ []) =
      Ok \<lparr>Selector = selMC3Aggregate3, Transfers = concat (map (\<lambda>c. sub_transfers (ParseBytes cyclic_heap 0) (snd c))
            [([enc_uint 7, enc_uint 1], [1, 2, 3, 4, 5])])\<rparr>
   \<and> Multicall_Decode (Some (ParseBytes cyclic_heap 0)) selMC3TryAggregate
      (enc_uint 1 @ enc_uint 64 @ enc_calls demo_calls @ []) =
      Ok \<lparr>Selector = selMC3TryAggregate, Transfers = concat (map (\<lambda>c. sub_transfers (ParseBytes cyclic_heap 0) (snd c)) demo_calls)\<rparr>
   \<and> Multicall_Decode (Some (ParseBytes cyclic_heap 0)) selMC3Aggregate (enc_uint 32 @ enc_calls demo_calls @ []) =
      Ok \<lparr>Selector = selMC3Aggregate, Transfers = concat (map (\<lambda>c. sub_transfers (ParseBytes cyclic_heap 0) (snd c)) demo_calls)\<rparr>
   \<and> Multicall3_Decode (Some (ParseBytes cyclic_heap 0)) selMC3Aggregate3Value
      (enc_uint 32 @ enc_calls (map call3_struct demo_calls3) @ []) =
      Ok \<lparr>Selector = selMC3Aggregate3Value,
          Transfers = concat (map (call3_transfers (Some (ParseBytes cyclic_heap 0))) demo_calls3)\<rparr>"
  by (rule multicall3_roundtrip)
     (simp_all add: demo_calls_def demo_calls3_def wf_calls_def wf_call3_def wf_address_def addressLen_def enc_calls_def
       call3_struct_def enc_struct_def enc_dyn_array_def enc_bytes_def enc_addr_def chain.sub_safe calldata_def)

end
