(* ===== verification/Go_Steps.thy ===== *)
theory Go_Steps
  imports Go_Prelude "HOL-Library.Multiset"
begin

text \<open>
  Concurrent code as event systems. A component is a partial step function: \<open>step e s\<close> is
  the state after the atomic action \<open>e\<close>, or \<open>None\<close> where \<open>e\<close> is not enabled. The
  interleavings of its goroutines are the event sequences \<open>exec\<close> runs, its reachable states
  the relation \<open>reachable\<close>; the locale \<open>invariant_of\<close> is the contract of an invariant,
  \<open>simulates\<close> extends it to a refinement between two event systems, and \<open>tally\<close> counts the
  goroutines at a program point.
\<close>

type_synonym ('e, 's) step = "'e \<Rightarrow> 's \<Rightarrow> 's option"

inductive reachable :: "('e, 's) step \<Rightarrow> ('s \<Rightarrow> bool) \<Rightarrow> 's \<Rightarrow> bool"
  for step :: "('e, 's) step" and start :: "'s \<Rightarrow> bool" where
  reach_start: "start s \<Longrightarrow> reachable step start s"
| reach_step: "reachable step start s \<Longrightarrow> step e s = Some s' \<Longrightarrow> reachable step start s'"

fun exec :: "('e, 's) step \<Rightarrow> 'e list \<Rightarrow> 's \<Rightarrow> 's option" where
  "exec step [] s = Some s"
| "exec step (e # es) s = (case step e s of None \<Rightarrow> None | Some s' \<Rightarrow> exec step es s')"

lemma exec_reachable:
  "reachable step start s \<Longrightarrow> exec step es s = Some t \<Longrightarrow> reachable step start t"
  by (induction es arbitrary: s) (auto split: option.splits intro: reach_step)

lemma exec_append:
  "exec step (es @ fs) s = (case exec step es s of None \<Rightarrow> None | Some t \<Rightarrow> exec step fs t)"
  by (induction es arbitrary: s) (auto split: option.splits)

text \<open>The reachable states are those some sequence of events leads to.\<close>

lemma reachable_iff_exec: "reachable step start t \<longleftrightarrow> (\<exists>s es. start s \<and> exec step es s = Some t)"
proof
  show "reachable step start t \<Longrightarrow> \<exists>s es. start s \<and> exec step es s = Some t"
  proof (induction rule: reachable.induct)
    case (reach_start s)
    then show ?case by (intro exI [of _ s] exI [of _ "[]"]) simp
  next
    case (reach_step s e s')
    then obtain s0 es where "start s0" "exec step es s0 = Some s" by blast
    then have "exec step (es @ [e]) s0 = Some s'" using reach_step.hyps(2) by (simp add: exec_append)
    with \<open>start s0\<close> show ?case by blast
  qed
next
  show "\<exists>s es. start s \<and> exec step es s = Some t \<Longrightarrow> reachable step start t"
    by (auto intro: exec_reachable reachable.reach_start)
qed

locale invariant_of =
  fixes step :: "('e, 's) step" and start :: "'s \<Rightarrow> bool" and inv :: "'s \<Rightarrow> bool"
  assumes inv_start: "start s \<Longrightarrow> inv s"
    and inv_step: "inv s \<Longrightarrow> step e s = Some s' \<Longrightarrow> inv s'"
begin

lemma inv_reachable: "reachable step start s \<Longrightarrow> inv s"
  by (induction rule: reachable.induct) (auto intro: inv_start inv_step)

lemma inv_exec: "inv s \<Longrightarrow> exec step es s = Some t \<Longrightarrow> inv t"
  by (induction es arbitrary: s) (auto split: option.splits intro: inv_step)

end

section \<open>Refinement\<close>

text \<open>
  \<open>view e s\<close> is what the abstract system sees of the event \<open>e\<close> in the state \<open>s\<close>; \<open>None\<close>
  is an internal event. \<open>visible\<close> collects these observations along a run.
\<close>

fun visible :: "('e, 's) step \<Rightarrow> ('e \<Rightarrow> 's \<Rightarrow> 'a option) \<Rightarrow> 'e list \<Rightarrow> 's \<Rightarrow> 'a list" where
  "visible step view [] s = []"
| "visible step view (e # es) s =
     (case step e s of None \<Rightarrow> []
      | Some s' \<Rightarrow> (case view e s of None \<Rightarrow> [] | Some a \<Rightarrow> [a]) @ visible step view es s')"

locale simulates = invariant_of step start inv
  for step :: "('e, 's) step" and start and inv +
  fixes astep :: "('a, 't) step" and astart :: "'t \<Rightarrow> bool"
    and abstr :: "'s \<Rightarrow> 't" and view :: "'e \<Rightarrow> 's \<Rightarrow> 'a option"
  assumes sim_start: "start s \<Longrightarrow> astart (abstr s)"
    and sim_step: "inv s \<Longrightarrow> step e s = Some s' \<Longrightarrow>
      (case view e s of None \<Rightarrow> abstr s' = abstr s | Some a \<Rightarrow> astep a (abstr s) = Some (abstr s'))"
begin

lemma sim_exec:
  assumes "inv s" and "exec step es s = Some t"
  shows "exec astep (visible step view es s) (abstr s) = Some (abstr t)"
  using assms
proof (induction es arbitrary: s)
  case (Cons e es)
  then obtain s' where s': "step e s = Some s'" by (auto split: option.splits)
  with Cons.prems Cons.IH [of s'] sim_step [of s e s'] inv_step [of s e s'] show ?case
    by (auto split: option.splits)
qed simp

lemma sim_reachable: "reachable step start s \<Longrightarrow> reachable astep astart (abstr s)"
proof (induction rule: reachable.induct)
  case (reach_start s)
  then show ?case by (auto intro: reachable.reach_start sim_start)
next
  case (reach_step s e s')
  then show ?case
    using sim_step [OF inv_reachable, of s e s'] by (auto split: option.splits intro: reachable.reach_step)
qed

end

section \<open>Updating one goroutine of a list\<close>

lemma update_insert: "\<forall>x \<in> set xs. P x \<Longrightarrow> P y \<Longrightarrow> \<forall>x \<in> set (xs[i := y]). P x"
  using set_update_subset_insert [of xs i y] by auto

lemma sum_list_update_add:
  fixes f :: "'a \<Rightarrow> 'b :: comm_monoid_add"
  assumes "i < length xs"
  shows "sum_list (map f (xs[i := y])) + f (xs ! i) = sum_list (map f xs) + f y"
  using assms
proof (induction xs arbitrary: i)
  case Nil
  then show ?case by simp
next
  case (Cons x xs)
  show ?case
  proof (cases i)
    case 0
    then show ?thesis by (simp add: ac_simps)
  next
    case (Suc j)
    with Cons.prems have "j < length xs" by simp
    from Cons.IH [OF this] Suc show ?thesis by (simp add: add.assoc)
  qed
qed

definition tally :: "('a \<Rightarrow> bool) \<Rightarrow> 'a list \<Rightarrow> int" where
  "tally P xs = sum_list (map (\<lambda>x. of_bool (P x)) xs)"

lemma tally_Nil [simp]: "tally P [] = 0"
  by (simp add: tally_def)

lemma tally_append [simp]: "tally P (xs @ ys) = tally P xs + tally P ys"
  by (simp add: tally_def)

lemma tally_Cons [simp]: "tally P (x # xs) = of_bool (P x) + tally P xs"
  by (simp add: tally_def)

lemma tally_update:
  "i < length xs \<Longrightarrow> tally P (xs[i := y]) = tally P xs + of_bool (P y) - of_bool (P (xs ! i))"
  using sum_list_update_add [of i xs "\<lambda>x. of_bool (P x) :: int" y] by (simp add: tally_def)

lemma tally_nonneg: "0 \<le> tally P xs"
  by (induction xs) simp_all

lemma tally_le_length: "tally P xs \<le> int (length xs)"
  by (induction xs) simp_all

lemma tally_mono: "(\<And>x. P x \<Longrightarrow> Q x) \<Longrightarrow> tally P xs \<le> tally Q xs"
  by (induction xs) (auto simp: of_bool_def)

lemma tally_pos: "x \<in> set xs \<Longrightarrow> P x \<Longrightarrow> 1 \<le> tally P xs"
  using tally_nonneg [of P] by (induction xs) (auto simp: add_increasing add_increasing2)

lemma tally_zero_iff: "tally P xs = 0 \<longleftrightarrow> (\<forall>x \<in> set xs. \<not> P x)"
  using tally_nonneg [of P] by (induction xs) (auto simp: add_nonneg_eq_0_iff)

lemma tally_replicate [simp]: "tally P (replicate n x) = int n * of_bool (P x)"
  by (induction n) (simp_all add: algebra_simps)

text \<open>The items a list of goroutines holds, as a multiset.\<close>

definition holding :: "('a \<Rightarrow> 'v multiset) \<Rightarrow> 'a list \<Rightarrow> 'v multiset" where
  "holding f xs = sum_list (map f xs)"

lemma holding_simps [simp]:
  "holding f [] = {#}" "holding f (x # xs) = f x + holding f xs"
  "holding f (xs @ ys) = holding f xs + holding f ys"
  by (simp_all add: holding_def)

lemma holding_update:
  "i < length xs \<Longrightarrow> holding f (xs[i := y]) + f (xs ! i) = holding f xs + f y"
  by (simp add: holding_def sum_list_update_add)

lemma holding_update_same:
  "i < length xs \<Longrightarrow> f (xs ! i) = f y \<Longrightarrow> holding f (xs[i := y]) = holding f xs"
  using holding_update [of i xs f y] by simp

lemma holding_update_take:
  "i < length xs \<Longrightarrow> f (xs ! i) = {#} \<Longrightarrow> holding f (xs[i := y]) = holding f xs + f y"
  using holding_update [of i xs f y] by simp

lemma holding_update_drop:
  "i < length xs \<Longrightarrow> f y = {#} \<Longrightarrow> holding f xs = holding f (xs[i := y]) + f (xs ! i)"
  using holding_update [of i xs f y] by simp

lemma holding_empty: "(\<And>x. x \<in> set xs \<Longrightarrow> f x = {#}) \<Longrightarrow> holding f xs = {#}"
  by (induction xs) simp_all

lemma holding_replicate_empty: "f x = {#} \<Longrightarrow> holding f (replicate n x) = {#}"
  by (induction n) simp_all

end
