(* ===== verification/Evm_Wiring.thy ===== *)
theory Evm_Wiring
  imports Evm_Chain Go_Steps
begin

text \<open>
  How chains and wrapper codecs are put together, down to the arrays behind their slices:
  \<open>NewChain\<close> keeps the slice it is given and \<open>Add\<close> appends to it, which writes into the spare
  capacity of the array when there is some. \<open>store_step\<close> is the system of the calls that build a
  decoder graph on such a store; \<open>heap_step\<close> is the same over the lists of \<open>Evm_Chain\<close>. The store
  refines the heap of lists as long as no two chains are made from one slice with spare
  capacity; the invariant behind it is that slices stay within their arrays.
\<close>

section \<open>Slices of decoders\<close>

text \<open>A slice is an array with an offset, a length and a capacity; an unset slot is nil.\<close>

record decoder_slice =
  arr :: nat
  off :: nat
  len :: nat
  cap :: nat

record evm_store =
  arrays :: "nat \<Rightarrow> decoder_ref option list"
  next_array :: nat
  chain_objs :: "chain_ptr \<Rightarrow> decoder_slice"
  wrapper_subs :: "wrapper_ptr \<Rightarrow> chain_ptr option"
  chain_count :: nat
  wrapper_count :: nat
  held_slices :: "decoder_slice list"

definition slots :: "evm_store \<Rightarrow> decoder_slice \<Rightarrow> decoder_ref option list" where
  "slots st s = take (len s) (drop (off s) (arrays st (arr s)))"

definition elems :: "evm_store \<Rightarrow> decoder_slice \<Rightarrow> decoder_ref list" where
  "elems st s = map the (slots st s)"

definition alloc_array :: "decoder_ref option list \<Rightarrow> evm_store \<Rightarrow> nat \<times> evm_store" where
  "alloc_array xs st =
     (next_array st, st\<lparr>arrays := (arrays st)(next_array st := xs), next_array := Suc (next_array st)\<rparr>)"

text \<open>
  \<open>append(s, d)\<close>: into the spare capacity, or into a new array. \<open>grow\<close> is the capacity the run
  time asks for; the language promises no more than that it suffices.
\<close>

definition append_slice :: "(nat \<Rightarrow> nat) \<Rightarrow> decoder_slice \<Rightarrow> decoder_ref \<Rightarrow> evm_store \<Rightarrow> decoder_slice \<times> evm_store" where
  "append_slice grow s d st =
     (if len s < cap s
      then (s\<lparr>len := Suc (len s)\<rparr>,
            st\<lparr>arrays := (arrays st)(arr s := (arrays st (arr s))[off s + len s := Some d])\<rparr>)
      else
        let cap' = max (grow (len s)) (Suc (len s));
            (a, st') = alloc_array (slots st s @ [Some d] @ replicate (cap' - Suc (len s)) None) st
        in (\<lparr>arr = a, off = 0, len = Suc (len s), cap = cap'\<rparr>, st'))"

section \<open>The calls that build a decoder graph\<close>

datatype store_op =
    MakeSlice "decoder_ref list" nat      \<comment> \<open>the caller makes a slice, with spare capacity\<close>
  | NewChainOf nat                        \<comment> \<open>\<open>NewChain(s...)\<close> for a slice of the caller\<close>
  | NewChainWith "decoder_ref list"       \<comment> \<open>\<open>NewChain(d1, d2, ...)\<close>\<close>
  | AddTo chain_ptr decoder_ref           \<comment> \<open>\<open>c.Add(d)\<close>\<close>
  | MakeMulticall "chain_ptr option"      \<comment> \<open>\<open>NewMulticallDecoder(sub)\<close>\<close>
  | MakeMulticall3 "chain_ptr option"     \<comment> \<open>\<open>NewMulticall3ValueDecoder(sub)\<close>\<close>
  | SetSub wrapper_ptr "chain_ptr option" \<comment> \<open>\<open>w.SetSubParser(sub)\<close>\<close>

text \<open>The references a Go program can hold at that point: what was allocated before, or nil.\<close>

fun ref_ok :: "evm_store \<Rightarrow> decoder_ref \<Rightarrow> bool" where
  "ref_ok st (MulticallDecoder p) = (p < wrapper_count st)"
| "ref_ok st (Multicall3ValueDecoder p) = (p < wrapper_count st)"
| "ref_ok st _ = True"

definition sub_ok :: "evm_store \<Rightarrow> chain_ptr option \<Rightarrow> bool" where
  "sub_ok st sub = (case sub of None \<Rightarrow> True | Some c \<Rightarrow> c < chain_count st)"

definition put_chain :: "decoder_slice \<Rightarrow> evm_store \<Rightarrow> evm_store" where
  "put_chain s st = st\<lparr>chain_objs := (chain_objs st)(chain_count st := s), chain_count := Suc (chain_count st)\<rparr>"

definition put_wrapper :: "chain_ptr option \<Rightarrow> evm_store \<Rightarrow> evm_store" where
  "put_wrapper sub st =
     st\<lparr>wrapper_subs := (wrapper_subs st)(wrapper_count st := sub), wrapper_count := Suc (wrapper_count st)\<rparr>"

definition literal :: "decoder_ref list \<Rightarrow> nat \<Rightarrow> evm_store \<Rightarrow> decoder_slice \<times> evm_store" where
  "literal ds spare st =
     (let (a, st') = alloc_array (map Some ds @ replicate spare None) st
      in (\<lparr>arr = a, off = 0, len = length ds, cap = length ds + spare\<rparr>, st'))"

fun store_step :: "(nat \<Rightarrow> nat) \<Rightarrow> (store_op, evm_store) step" where
  "store_step grow (MakeSlice ds spare) st =
     (if list_all (ref_ok st) ds
      then let (s, st') = literal ds spare st in Some (st'\<lparr>held_slices := held_slices st' @ [s]\<rparr>) else None)"
| "store_step grow (NewChainOf i) st =
     (if i < length (held_slices st) then Some (put_chain (held_slices st ! i) st) else None)"
| "store_step grow (NewChainWith ds) st =
     (if list_all (ref_ok st) ds
      then let (s, st') = literal ds 0 st in Some (put_chain s st') else None)"
| "store_step grow (AddTo c d) st =
     (if c < chain_count st \<and> ref_ok st d
      then let (s, st') = append_slice grow (chain_objs st c) d st
           in Some (st'\<lparr>chain_objs := (chain_objs st')(c := s)\<rparr>) else None)"
| "store_step grow (MakeMulticall sub) st = (if sub_ok st sub then Some (put_wrapper sub st) else None)"
| "store_step grow (MakeMulticall3 sub) st = (if sub_ok st sub then Some (put_wrapper sub st) else None)"
| "store_step grow (SetSub p sub) st =
     (if p < wrapper_count st \<and> sub_ok st sub
      then Some (st\<lparr>wrapper_subs := (wrapper_subs st)(p := sub)\<rparr>) else None)"

definition store_start :: "evm_store \<Rightarrow> bool" where
  "store_start st \<longleftrightarrow> chain_count st = 0 \<and> wrapper_count st = 0 \<and> held_slices st = []
     \<and> wrapper_subs st = (\<lambda>_. None)"

section \<open>Typing of the store\<close>

text \<open>
  A slice is typed when its array is allocated and long enough and its elements are decoders that
  are allocated themselves; the store is when its slices are and every sub-parser is a chain.
\<close>

definition slice_ok :: "evm_store \<Rightarrow> decoder_slice \<Rightarrow> bool" where
  "slice_ok st s \<longleftrightarrow> arr s < next_array st \<and> len s \<le> cap s \<and> off s + cap s \<le> length (arrays st (arr s))
     \<and> (\<forall>k < len s. \<exists>d. arrays st (arr s) ! (off s + k) = Some d \<and> ref_ok st d)"

definition store_ok :: "evm_store \<Rightarrow> bool" where
  "store_ok st \<longleftrightarrow> (\<forall>c < chain_count st. slice_ok st (chain_objs st c))
     \<and> (\<forall>s \<in> set (held_slices st). slice_ok st s)
     \<and> (\<forall>p. sub_ok st (wrapper_subs st p))"

lemma ref_ok_mono: "ref_ok st d \<Longrightarrow> wrapper_count st \<le> wrapper_count st' \<Longrightarrow> ref_ok st' d"
  by (cases d) simp_all

lemma sub_ok_mono: "sub_ok st sub \<Longrightarrow> chain_count st \<le> chain_count st' \<Longrightarrow> sub_ok st' sub"
  by (auto simp: sub_ok_def split: option.splits)

text \<open>A typed slice stays typed when more is allocated, and when a decoder is written into its array.\<close>

lemma slice_ok_ext:
  assumes "slice_ok st s" and "next_array st \<le> next_array st'" and "wrapper_count st \<le> wrapper_count st'"
    and "\<And>a. a < next_array st \<Longrightarrow> arrays st' a = arrays st a"
  shows "slice_ok st' s"
  using assms ref_ok_mono [OF _ assms(3)] by (auto simp: slice_ok_def)

lemma slice_ok_write:
  assumes "slice_ok st s" and "ref_ok st d"
  shows "slice_ok (st\<lparr>arrays := (arrays st)(a := (arrays st a)[k := Some d])\<rparr>) s"
proof -
  have refs: "ref_ok (st\<lparr>arrays := x\<rparr>) d' = ref_ok st d'" for x d' by (cases d') simp_all
  have len: "off s + i < length (arrays st (arr s))" if "i < len s" for i
    using assms(1) that by (simp add: slice_ok_def)
  have "\<exists>d'. (arrays st (arr s))[k := Some d] ! (off s + i) = Some d' \<and> ref_ok st d'" if "i < len s" for i
    using assms len [OF that] that by (cases "k = off s + i") (auto simp: slice_ok_def)
  then show ?thesis using assms by (auto simp: slice_ok_def refs)
qed

lemma slice_ok_irrelevant [simp]:
  "slice_ok (st\<lparr>chain_objs := x\<rparr>) s = slice_ok st s" "slice_ok (st\<lparr>held_slices := y\<rparr>) s = slice_ok st s"
  "slice_ok (st\<lparr>wrapper_subs := z\<rparr>) s = slice_ok st s" "slice_ok (st\<lparr>chain_count := n\<rparr>) s = slice_ok st s"
proof -
  have refs: "ref_ok (st\<lparr>chain_objs := x\<rparr>) d = ref_ok st d" "ref_ok (st\<lparr>held_slices := y\<rparr>) d = ref_ok st d"
    "ref_ok (st\<lparr>wrapper_subs := z\<rparr>) d = ref_ok st d" "ref_ok (st\<lparr>chain_count := n\<rparr>) d = ref_ok st d" for d
    by (cases d; simp)+
  show "slice_ok (st\<lparr>chain_objs := x\<rparr>) s = slice_ok st s" "slice_ok (st\<lparr>held_slices := y\<rparr>) s = slice_ok st s"
    "slice_ok (st\<lparr>wrapper_subs := z\<rparr>) s = slice_ok st s" "slice_ok (st\<lparr>chain_count := n\<rparr>) s = slice_ok st s"
    by (simp_all add: slice_ok_def refs)
qed

lemma alloc_array_facts:
  assumes "alloc_array xs st = (a, st')"
  shows "a = next_array st" "arrays st' a = xs" "next_array st' = Suc (next_array st)"
    and "\<And>b. b < next_array st \<Longrightarrow> arrays st' b = arrays st b"
    and "chain_objs st' = chain_objs st" "wrapper_subs st' = wrapper_subs st" "chain_count st' = chain_count st"
    "wrapper_count st' = wrapper_count st" "held_slices st' = held_slices st"
  using assms by (auto simp: alloc_array_def)

lemma alloc_slice_ok: "slice_ok st s \<Longrightarrow> alloc_array xs st = (a, st') \<Longrightarrow> slice_ok st' s"
  by (erule slice_ok_ext) (simp_all add: alloc_array_facts)

lemma alloc_store_ok: "store_ok st \<Longrightarrow> alloc_array xs st = (a, st') \<Longrightarrow> store_ok st'"
  using alloc_slice_ok [of st _ xs a st'] alloc_array_facts [of xs st a st']
  by (auto simp: store_ok_def sub_ok_def split: option.splits)

lemma literal_ok:
  assumes "list_all (ref_ok st) ds" and "literal ds spare st = (s, st')"
  shows "slice_ok st' s" and "store_ok st \<Longrightarrow> store_ok st'"
proof -
  obtain a where a: "alloc_array (map Some ds @ replicate spare None) st = (a, st')"
    and s: "s = \<lparr>arr = a, off = 0, len = length ds, cap = length ds + spare\<rparr>"
    using assms(2) by (auto simp: literal_def split: prod.splits)
  note facts = alloc_array_facts [OF a]
  have "ref_ok st' d" if "d \<in> set ds" for d
    using assms(1) that facts(8) by (auto simp: list_all_iff intro: ref_ok_mono)
  then show "slice_ok st' s" using facts by (auto simp: slice_ok_def s nth_append)
  show "store_ok st \<Longrightarrow> store_ok st'" using a by (rule alloc_store_ok [rotated])
qed

lemma slots_length: "slice_ok st s \<Longrightarrow> length (slots st s) = len s"
  by (auto simp: slots_def slice_ok_def)

lemma slots_nth: "slice_ok st s \<Longrightarrow> k < len s \<Longrightarrow> slots st s ! k = arrays st (arr s) ! (off s + k)"
  by (simp add: slots_def slice_ok_def)

lemma append_slice_ok:
  assumes "slice_ok st s" and "ref_ok st d" and "append_slice grow s d st = (s', st')"
  shows "slice_ok st' s'" and "store_ok st \<Longrightarrow> store_ok st'"
    and "chain_count st' = chain_count st" "chain_objs st' = chain_objs st" "held_slices st' = held_slices st"
    "wrapper_count st' = wrapper_count st" "wrapper_subs st' = wrapper_subs st"
proof -
  have "slice_ok st' s' \<and> (store_ok st \<longrightarrow> store_ok st') \<and> chain_count st' = chain_count st
      \<and> chain_objs st' = chain_objs st \<and> held_slices st' = held_slices st
      \<and> wrapper_count st' = wrapper_count st \<and> wrapper_subs st' = wrapper_subs st"
  proof (cases "len s < cap s")
    case True
    let ?st = "st\<lparr>arrays := (arrays st)(arr s := (arrays st (arr s))[off s + len s := Some d])\<rparr>"
    have eqs: "s' = s\<lparr>len := Suc (len s)\<rparr>" "st' = ?st" using assms(3) True by (auto simp: append_slice_def)
    have refs: "ref_ok ?st d' = ref_ok st d'" for d' by (cases d') simp_all
    have "slice_ok ?st s" by (rule slice_ok_write [OF assms(1,2)])
    moreover have "off s + len s < length (arrays st (arr s))" using assms(1) True by (simp add: slice_ok_def)
    ultimately have "slice_ok ?st s'"
      using True assms(2) by (auto simp: slice_ok_def eqs refs less_Suc_eq)
    moreover have "store_ok st \<Longrightarrow> store_ok ?st"
      using slice_ok_write [OF _ assms(2)] by (auto simp: store_ok_def sub_ok_def split: option.splits)
    ultimately show ?thesis by (simp add: eqs)
  next
    case False
    let ?cap = "max (grow (len s)) (Suc (len s))"
    obtain a where a: "alloc_array (slots st s @ [Some d] @ replicate (?cap - Suc (len s)) None) st = (a, st')"
      and s': "s' = \<lparr>arr = a, off = 0, len = Suc (len s), cap = ?cap\<rparr>"
      using assms(3) False by (auto simp: append_slice_def Let_def split: prod.splits)
    note facts = alloc_array_facts [OF a]
    have refs: "ref_ok st' d' = ref_ok st d'" for d' using facts(8) by (cases d') simp_all
    have "\<exists>d'. (slots st s @ [Some d] @ replicate (?cap - Suc (len s)) None) ! k = Some d' \<and> ref_ok st' d'"
      if "k < Suc (len s)" for k
      using that assms(1,2) slots_nth [OF assms(1), of k] slots_length [OF assms(1)]
      by (cases "k = len s") (auto simp: nth_append refs slice_ok_def)
    then have "slice_ok st' s'"
      using facts slots_length [OF assms(1)] by (auto simp: slice_ok_def s')
    then show ?thesis using alloc_store_ok [OF _ a] facts by simp
  qed
  then show "slice_ok st' s'" "store_ok st \<Longrightarrow> store_ok st'" "chain_count st' = chain_count st" "chain_objs st' = chain_objs st"
    "held_slices st' = held_slices st" "wrapper_count st' = wrapper_count st" "wrapper_subs st' = wrapper_subs st" by simp_all
qed

lemma put_chain_ok: "store_ok st \<Longrightarrow> slice_ok st s \<Longrightarrow> store_ok (put_chain s st)"
  by (auto simp: store_ok_def put_chain_def less_Suc_eq sub_ok_def split: option.splits)

lemma put_wrapper_ok:
  assumes "store_ok st" and "sub_ok st sub"
  shows "store_ok (put_wrapper sub st)"
proof -
  have "slice_ok (put_wrapper sub st) s" if "slice_ok st s" for s
    using that by (rule slice_ok_ext) (simp_all add: put_wrapper_def)
  then show ?thesis using assms by (auto simp: store_ok_def put_wrapper_def sub_ok_def split: option.splits)
qed

lemma store_step_ok:
  assumes "store_ok st" and "store_step grow e st = Some st'"
  shows "store_ok st'"
proof (cases e)
  case (MakeSlice ds spare)
  obtain s st1 where l: "literal ds spare st = (s, st1)" by (metis surj_pair)
  with assms MakeSlice literal_ok [OF _ l] show ?thesis
    by (auto simp: store_ok_def sub_ok_def split: if_splits option.splits)
next
  case (NewChainWith ds)
  obtain s st1 where l: "literal ds 0 st = (s, st1)" by (metis surj_pair)
  with assms NewChainWith literal_ok [OF _ l] show ?thesis by (auto split: if_splits intro: put_chain_ok)
next
  case (NewChainOf i)
  with assms show ?thesis by (auto simp: store_ok_def split: if_splits intro!: put_chain_ok [unfolded store_ok_def])
next
  case (AddTo c d)
  obtain s st1 where a: "append_slice grow (chain_objs st c) d st = (s, st1)" by (metis surj_pair)
  have c: "c < chain_count st" "ref_ok st d" and st': "st' = st1\<lparr>chain_objs := (chain_objs st1)(c := s)\<rparr>"
    using assms(2) AddTo a by (auto split: if_splits)
  have ok: "slice_ok st (chain_objs st c)" using assms(1) c(1) by (simp add: store_ok_def)
  note app = append_slice_ok [OF ok c(2) a]
  show ?thesis using app(1) app(2) [OF assms(1)] by (auto simp: st' store_ok_def sub_ok_def split: option.splits)
next
  case (SetSub p sub)
  with assms show ?thesis by (auto simp: store_ok_def sub_ok_def split: if_splits option.splits)
qed (use assms put_wrapper_ok in \<open>auto split: if_splits\<close>)

interpretation store: invariant_of "store_step grow" store_start store_ok
proof
  show "store_start st \<Longrightarrow> store_ok st" for st
    by (simp add: store_start_def store_ok_def sub_ok_def)
qed (rule store_step_ok)

section \<open>The same graph over lists\<close>

datatype heap_op = HNewChain "decoder_ref list" | HAdd chain_ptr decoder_ref
  | HMulticall "chain_ptr option" | HMulticall3 "chain_ptr option" | HSetSub wrapper_ptr "chain_ptr option"

fun heap_step :: "(heap_op, evm_heap) step" where
  "heap_step (HNewChain ds) h = Some (snd (NewChain ds h))"
| "heap_step (HAdd c d) h = Some (Chain_Add c d h)"
| "heap_step (HMulticall sub) h = Some (snd (NewMulticallDecoder sub h))"
| "heap_step (HMulticall3 sub) h = Some (snd (NewMulticall3ValueDecoder sub h))"
| "heap_step (HSetSub p sub) h = Some (SetSubParser p sub h)"

definition heap_start :: "evm_heap \<Rightarrow> bool" where
  "heap_start h \<longleftrightarrow> h = \<lparr>chains = (\<lambda>_. []), subs = (\<lambda>_. None), next_chain = 0, next_wrapper = 0\<rparr>"

definition heap_of :: "evm_store \<Rightarrow> evm_heap" where
  "heap_of st = \<lparr>chains = (\<lambda>c. if c < chain_count st then elems st (chain_objs st c) else []),
     subs = wrapper_subs st, next_chain = chain_count st, next_wrapper = wrapper_count st\<rparr>"

fun heap_view :: "store_op \<Rightarrow> evm_store \<Rightarrow> heap_op option" where
  "heap_view (MakeSlice ds spare) st = None"
| "heap_view (NewChainOf i) st = Some (HNewChain (elems st (held_slices st ! i)))"
| "heap_view (NewChainWith ds) st = Some (HNewChain ds)"
| "heap_view (AddTo c d) st = Some (HAdd c d)"
| "heap_view (MakeMulticall sub) st = Some (HMulticall sub)"
| "heap_view (MakeMulticall3 sub) st = Some (HMulticall3 sub)"
| "heap_view (SetSub p sub) st = Some (HSetSub p sub)"

text \<open>
  The discipline: a slice given to \<open>NewChain\<close> has no spare capacity. Then a chain with spare
  capacity is the only one that knows its array.
\<close>

fun tight :: "store_op \<Rightarrow> evm_store \<Rightarrow> bool" where
  "tight (NewChainOf i) st = (len (held_slices st ! i) = cap (held_slices st ! i))"
| "tight _ st = True"

definition tight_step :: "(nat \<Rightarrow> nat) \<Rightarrow> (store_op, evm_store) step" where
  "tight_step grow e st = (if tight e st then store_step grow e st else None)"

lemma tight_step_simps [simp]:
  "tight_step grow (NewChainWith ds) st = store_step grow (NewChainWith ds) st"
  "tight_step grow (AddTo c d) st = store_step grow (AddTo c d) st"
  "tight_step grow (MakeMulticall sub) st = store_step grow (MakeMulticall sub) st"
  "tight_step grow (SetSub p sub) st = store_step grow (SetSub p sub) st"
  by (simp_all add: tight_step_def)

definition exclusive :: "evm_store \<Rightarrow> bool" where
  "exclusive st \<longleftrightarrow> (\<forall>c < chain_count st. len (chain_objs st c) < cap (chain_objs st c) \<longrightarrow>
     (\<forall>c' < chain_count st. c' \<noteq> c \<longrightarrow> arr (chain_objs st c') \<noteq> arr (chain_objs st c))
     \<and> (\<forall>s \<in> set (held_slices st). arr s \<noteq> arr (chain_objs st c)))"

lemma elems_irrelevant [simp]:
  "elems (st\<lparr>chain_objs := x\<rparr>) s = elems st s" "elems (st\<lparr>held_slices := y\<rparr>) s = elems st s"
  "elems (st\<lparr>wrapper_subs := z\<rparr>) s = elems st s" "elems (st\<lparr>chain_count := n\<rparr>) s = elems st s"
  "elems (st\<lparr>wrapper_count := n\<rparr>) s = elems st s"
  by (simp_all add: elems_def slots_def)

lemma elems_alloc:
  assumes "alloc_array xs st = (a, st')" and "slice_ok st s"
  shows "elems st' s = elems st s"
  using assms alloc_array_facts(4) [OF assms(1)] by (simp add: elems_def slots_def slice_ok_def)

lemma literal_elems:
  assumes "literal ds spare st = (s, st')"
  shows "elems st' s = ds" and "slice_ok st t \<Longrightarrow> elems st' t = elems st t" and "arr s = next_array st"
    and "len s = length ds" and "cap s = length ds + spare"
    and "chain_objs st' = chain_objs st" "wrapper_subs st' = wrapper_subs st" "chain_count st' = chain_count st"
    "wrapper_count st' = wrapper_count st" "held_slices st' = held_slices st"
proof -
  obtain a where a: "alloc_array (map Some ds @ replicate spare None) st = (a, st')"
    and s: "s = \<lparr>arr = a, off = 0, len = length ds, cap = length ds + spare\<rparr>"
    using assms by (auto simp: literal_def split: prod.splits)
  note facts = alloc_array_facts [OF a]
  show "elems st' s = ds" using facts(2) by (simp add: elems_def slots_def s comp_def)
  show "slice_ok st t \<Longrightarrow> elems st' t = elems st t" by (rule elems_alloc [OF a])
  show "arr s = next_array st" "len s = length ds" "cap s = length ds + spare"
    "chain_objs st' = chain_objs st" "wrapper_subs st' = wrapper_subs st" "chain_count st' = chain_count st"
    "wrapper_count st' = wrapper_count st" "held_slices st' = held_slices st"
    using facts by (simp_all add: s)
qed

lemma append_elems:
  assumes "slice_ok st s" and "append_slice grow s d st = (s', st')"
  shows "elems st' s' = elems st s @ [d]"
    and "slice_ok st t \<Longrightarrow> (len s < cap s \<Longrightarrow> arr t \<noteq> arr s) \<Longrightarrow> elems st' t = elems st t"
    and "if len s < cap s then arr s' = arr s else arr s' = next_array st"
proof -
  have "elems st' s' = elems st s @ [d] \<and> (slice_ok st t \<longrightarrow> (len s < cap s \<longrightarrow> arr t \<noteq> arr s) \<longrightarrow> elems st' t = elems st t)
      \<and> (if len s < cap s then arr s' = arr s else arr s' = next_array st)"
  proof (cases "len s < cap s")
    case True
    let ?xs = "arrays st (arr s)"
    have eqs: "s' = s\<lparr>len := Suc (len s)\<rparr>" "arrays st' = (arrays st)(arr s := ?xs[off s + len s := Some d])"
      using assms(2) True by (auto simp: append_slice_def)
    have bound: "off s + len s < length ?xs" using assms(1) True by (simp add: slice_ok_def)
    then have min: "min (length ?xs - off s) (len s) = len s" by simp
    then have "take (Suc (len s)) (drop (off s) (?xs[off s + len s := Some d])) = take (len s) (drop (off s) ?xs) @ [Some d]"
      using bound by (simp add: take_Suc_conv_app_nth drop_update_swap take_update_swap list_update_append)
    then show ?thesis by (auto simp: elems_def slots_def eqs True)
  next
    case False
    let ?cap = "max (grow (len s)) (Suc (len s))"
    obtain a where a: "alloc_array (slots st s @ [Some d] @ replicate (?cap - Suc (len s)) None) st = (a, st')"
      and s': "s' = \<lparr>arr = a, off = 0, len = Suc (len s), cap = ?cap\<rparr>"
      using assms(2) False by (auto simp: append_slice_def Let_def split: prod.splits)
    have "slots st' s' = slots st s @ [Some d]"
      using alloc_array_facts(2) [OF a] slots_length [OF assms(1)] unfolding slots_def [of st' s'] by (simp add: s')
    then show ?thesis
      using elems_alloc [OF a] alloc_array_facts(1) [OF a] False by (auto simp: elems_def s')
  qed
  then show "elems st' s' = elems st s @ [d]"
    and "slice_ok st t \<Longrightarrow> (len s < cap s \<Longrightarrow> arr t \<noteq> arr s) \<Longrightarrow> elems st' t = elems st t"
    and "if len s < cap s then arr s' = arr s else arr s' = next_array st" by blast+
qed

lemma exclusive_step:
  assumes "store_ok st" and "exclusive st" and "tight_step grow e st = Some st'"
  shows "exclusive st'"
proof -
  have e: "tight e st" "store_step grow e st = Some st'" using assms(3) by (auto simp: tight_step_def split: if_splits)
  have old: "arr (chain_objs st c) < next_array st" if "c < chain_count st" for c
    using assms(1) that by (simp add: store_ok_def slice_ok_def)
  have held: "arr s < next_array st" if "s \<in> set (held_slices st)" for s
    using assms(1) that by (simp add: store_ok_def slice_ok_def)
  show ?thesis
  proof (cases e)
    case (MakeSlice ds spare)
    obtain s st1 where l: "literal ds spare st = (s, st1)" by (metis surj_pair)
    note lit = literal_elems [OF l]
    show ?thesis using e(2) MakeSlice l lit assms(2) old by (fastforce simp: exclusive_def split: if_splits)
  next
    case (NewChainOf i)
    then show ?thesis using e assms(2) by (auto simp: exclusive_def put_chain_def less_Suc_eq split: if_splits)
  next
    case (NewChainWith ds)
    obtain s st1 where l: "literal ds 0 st = (s, st1)" by (metis surj_pair)
    note lit = literal_elems [OF l]
    show ?thesis
      using e(2) NewChainWith l lit assms(2) old
      by (auto simp: exclusive_def put_chain_def less_Suc_eq split: if_splits) (metis nat_neq_iff)+
  next
    case (AddTo c d)
    obtain s st1 where a: "append_slice grow (chain_objs st c) d st = (s, st1)" by (metis surj_pair)
    have c: "c < chain_count st" "ref_ok st d" and st': "st' = st1\<lparr>chain_objs := (chain_objs st1)(c := s)\<rparr>"
      using e(2) AddTo a by (auto split: if_splits)
    have ok: "slice_ok st (chain_objs st c)" using assms(1) c(1) by (simp add: store_ok_def)
    note app = append_slice_ok [OF ok c(2) a] and el = append_elems(3) [OF ok a]
    have new: "arr s = arr (chain_objs st c) \<and> len (chain_objs st c) < cap (chain_objs st c) \<or> arr s = next_array st"
      using el by (auto split: if_splits)
    show ?thesis
      using assms(2) new c(1) old held
      by (auto simp: exclusive_def st' app(3-5)) (metis nat_neq_iff)+
  qed (use e assms(2) in \<open>auto simp: exclusive_def put_wrapper_def split: if_splits\<close>)
qed

lemma heap_of_put_wrapper:
  "heap_of (put_wrapper sub st) = snd (NewMulticallDecoder sub (heap_of st))"
  "heap_of (put_wrapper sub st) = snd (NewMulticall3ValueDecoder sub (heap_of st))"
  by (simp_all add: heap_of_def put_wrapper_def NewMulticallDecoder_def NewMulticall3ValueDecoder_def fun_eq_iff)

lemma heap_of_put_chain:
  "heap_of (put_chain s st) = snd (NewChain (elems st s) (heap_of st))"
  by (auto simp: heap_of_def put_chain_def NewChain_def fun_eq_iff)

lemma heap_of_set_sub:
  "heap_of (st\<lparr>wrapper_subs := (wrapper_subs st)(p := sub)\<rparr>) = SetSubParser p sub (heap_of st)"
  by (simp add: heap_of_def SetSubParser_def fun_eq_iff)

lemma heap_of_same:
  assumes "\<And>c. c < chain_count st \<Longrightarrow> elems st' (chain_objs st c) = elems st (chain_objs st c)"
    and "chain_objs st' = chain_objs st" "chain_count st' = chain_count st" "wrapper_subs st' = wrapper_subs st"
    "wrapper_count st' = wrapper_count st"
  shows "heap_of st' = heap_of st"
  using assms by (auto simp: heap_of_def)

lemma heap_of_step:
  assumes "store_ok st" and "exclusive st" and "tight_step grow e st = Some st'"
  shows "case heap_view e st of None \<Rightarrow> heap_of st' = heap_of st | Some a \<Rightarrow> heap_step a (heap_of st) = Some (heap_of st')"
proof -
  have e: "store_step grow e st = Some st'" using assms(3) by (auto simp: tight_step_def split: if_splits)
  have ok: "slice_ok st (chain_objs st c)" if "c < chain_count st" for c
    using assms(1) that by (simp add: store_ok_def)
  show ?thesis
  proof (cases e)
    case (MakeSlice ds spare)
    obtain s st1 where l: "literal ds spare st = (s, st1)" by (metis surj_pair)
    note lit = literal_elems [OF l]
    have "st' = st1\<lparr>held_slices := held_slices st1 @ [s]\<rparr>" using e MakeSlice l by (auto split: if_splits)
    then have "heap_of st' = heap_of st" by (intro heap_of_same) (use lit(2) [OF ok] lit(6-9) in simp_all)
    then show ?thesis using MakeSlice by simp
  next
    case (NewChainWith ds)
    obtain s st1 where l: "literal ds 0 st = (s, st1)" by (metis surj_pair)
    note lit = literal_elems [OF l]
    have "st' = put_chain s st1" using e NewChainWith l by (auto split: if_splits)
    moreover have "heap_of st1 = heap_of st" by (intro heap_of_same) (use lit(2) [OF ok] lit(6-9) in simp_all)
    ultimately show ?thesis using NewChainWith lit(1) by (simp add: heap_of_put_chain)
  next
    case (AddTo c d)
    obtain s st1 where a: "append_slice grow (chain_objs st c) d st = (s, st1)" by (metis surj_pair)
    have c: "c < chain_count st" "ref_ok st d" and st': "st' = st1\<lparr>chain_objs := (chain_objs st1)(c := s)\<rparr>"
      using e AddTo a by (auto split: if_splits)
    note app = append_slice_ok [OF ok [OF c(1)] c(2) a] and el = append_elems [OF ok [OF c(1)] a]
    have "elems st1 (chain_objs st c') = elems st (chain_objs st c')" if "c' < chain_count st" "c' \<noteq> c" for c'
      using that assms(2) c(1) by (intro el(2) ok) (auto simp: exclusive_def)
    then show ?thesis
      using AddTo c(1) el(1) app(3-7) by (auto simp: heap_of_def Chain_Add_def st' fun_eq_iff)
  qed (use e in \<open>auto simp: heap_of_put_wrapper [symmetric] heap_of_put_chain heap_of_set_sub split: if_splits\<close>)
qed

interpretation wiring: simulates "tight_step grow" store_start "\<lambda>st. store_ok st \<and> exclusive st"
  heap_step heap_start heap_of heap_view
proof (unfold_locales, goal_cases)
  case (1 st)
  then show ?case using store.inv_start [of st] by (simp add: store_start_def exclusive_def)
next
  case (2 st e st')
  then show ?case
    using exclusive_step [of st grow e st'] store_step_ok [of st grow e st'] by (auto simp: tight_step_def split: if_splits)
next
  case (3 st)
  then show ?case by (auto simp: store_start_def heap_start_def heap_of_def)
next
  case (4 st e st')
  then show ?case using heap_of_step by blast
qed

section \<open>Properties\<close>

definition empty_store :: evm_store where
  "empty_store = \<lparr>arrays = (\<lambda>_. []), next_array = 0, chain_objs = (\<lambda>_. \<lparr>arr = 0, off = 0, len = 0, cap = 0\<rparr>),
     wrapper_subs = (\<lambda>_. None), chain_count = 0, wrapper_count = 0, held_slices = []\<rparr>"

text \<open>The wiring of the documentation: a chain with a multicall codec that points back to it.\<close>

definition cyclic_wiring :: "store_op list" where
  "cyclic_wiring = [NewChainWith [WETHDecoder], MakeMulticall None, AddTo 0 (MulticallDecoder 0),
     AddTo 0 HeuristicDecoder, SetSub 0 (Some 0)]"

lemmas wiring_eval = empty_store_def store_start_def literal_def alloc_array_def append_slice_def put_chain_def
  put_wrapper_def sub_ok_def slots_def elems_def heap_of_def Let_def

text \<open>
  C14. As long as the slices spread into \<open>NewChain\<close> have no spare capacity, the arrays behind the
  chains cannot be told from lists: every run of the store is a run of the list operations, chain
  by chain and call by call, so \<open>Add\<close> changes the chain it is called on and no other. With spare
  capacity this fails: two chains made from the same slice share it, and the second \<open>Add\<close>
  replaces the decoder the first one had added to the other chain.
\<close>

theorem chains_refine_lists:
  assumes "store_start st" and "exec (tight_step grow) ops st = Some st'"
  shows "exec heap_step (visible (tight_step grow) heap_view ops st) (heap_of st) = Some (heap_of st')
    \<and> (\<forall>base a b n. list_all (ref_ok empty_store) (base @ [a, b]) \<longrightarrow>
        (\<exists>t. exec (store_step grow) [MakeSlice base (Suc n), NewChainOf 0, NewChainOf 0, AddTo 0 a, AddTo 1 b] empty_store = Some t
          \<and> chains (heap_of t) 0 = base @ [b] \<and> chains (heap_of t) 1 = base @ [b]))"
proof (intro conjI allI impI)
  show "exec heap_step (visible (tight_step grow) heap_view ops st) (heap_of st) = Some (heap_of st')"
    by (rule wiring.sim_exec [OF wiring.inv_start [OF assms(1)] assms(2)])
  fix base a b n assume refs: "list_all (ref_ok empty_store) (base @ [a, b])"
  have "ref_ok st d" if "wrapper_count st = 0" "ref_ok empty_store d" for st d
    using that by (cases d) (simp_all add: empty_store_def)
  then have ok: "list_all (ref_ok st) base" "ref_ok st a" "ref_ok st b" if "wrapper_count st = 0" for st
    using that refs by (simp_all add: list_all_iff)
  show "\<exists>t. exec (store_step grow) [MakeSlice base (Suc n), NewChainOf 0, NewChainOf 0, AddTo 0 a, AddTo 1 b] empty_store = Some t
      \<and> chains (heap_of t) 0 = base @ [b] \<and> chains (heap_of t) 1 = base @ [b]"
    by (simp add: ok wiring_eval list_update_append comp_def)
qed

theorem chains_refine_lists_witness:
  "\<exists>st'. exec (tight_step (\<lambda>n. 2 * n)) cyclic_wiring empty_store = Some st'
     \<and> exec heap_step [HNewChain [WETHDecoder], HMulticall None, HAdd 0 (MulticallDecoder 0), HAdd 0 HeuristicDecoder,
          HSetSub 0 (Some 0)] (heap_of empty_store) = Some (heap_of st')"
proof -
  have "\<exists>st'. exec (tight_step (\<lambda>n. 2 * n)) cyclic_wiring empty_store = Some st'"
    by (simp add: cyclic_wiring_def wiring_eval)
  then obtain st' where st': "exec (tight_step (\<lambda>n. 2 * n)) cyclic_wiring empty_store = Some st'" by blast
  have vis: "visible (tight_step (\<lambda>n. 2 * n)) heap_view cyclic_wiring empty_store
      = [HNewChain [WETHDecoder], HMulticall None, HAdd 0 (MulticallDecoder 0), HAdd 0 HeuristicDecoder, HSetSub 0 (Some 0)]"
    by (simp add: cyclic_wiring_def wiring_eval)
  have "store_start empty_store" by (simp add: store_start_def empty_store_def)
  from chains_refine_lists [OF this st'] st' vis show ?thesis by auto
qed

end
