(* ===== verification/Evm_Interface.thy ===== *)
theory Evm_Interface
  imports Evm_Chain
begin

text \<open>
  Chains and parsers over any values of the interface \<open>Decoder\<close> (\<open>chain.go\<close>, \<open>parser.go\<close>), not
  only the codecs of the package: a value may be nil, and a decoder of the caller may panic in either
  method and may return nil without an error. What is shown is which decoder decides about
  calldata, when a nil one is harmful, and that for the codecs of the package this is
  the dispatch of \<open>Evm_Chain\<close>.
\<close>

datatype go_decoder =
    NilDecoder
  | Decoder "selector \<Rightarrow> go_panic + bool" "selector \<Rightarrow> input_params \<Rightarrow> parsed_input option res"

fun CanDecode :: "go_decoder \<Rightarrow> selector \<Rightarrow> go_panic + bool" where
  "CanDecode NilDecoder sel = Inl NilDereference"
| "CanDecode (Decoder can dec) sel = can sel"

fun Decode :: "go_decoder \<Rightarrow> selector \<Rightarrow> input_params \<Rightarrow> parsed_input option res" where
  "Decode NilDecoder sel params = Panic NilDereference"
| "Decode (Decoder can dec) sel params = dec sel params"

fun any_dispatch :: "go_decoder list \<Rightarrow> selector \<Rightarrow> input_params \<Rightarrow> parsed_input option res" where
  "any_dispatch [] sel params = Err (ChainNoDecoder sel)"
| "any_dispatch (d # ds) sel params = (case CanDecode d sel of
       Inl p \<Rightarrow> Panic p
     | Inr can \<Rightarrow> if \<not> can then any_dispatch ds sel params else Decode d sel params)"

definition any_ParseBytes :: "go_decoder list \<Rightarrow> byte list \<Rightarrow> parsed_input option res" where
  "any_ParseBytes decoders raw =
     (if length raw < selectorSize then Err (ChainTooShort (length raw))
      else
        let sel = SelectorFromBytes (take selectorSize raw);
            params = drop selectorSize raw
        in any_dispatch decoders sel params)"

fun any_parser_dispatch :: "go_decoder list \<Rightarrow> selector \<Rightarrow> input_params \<Rightarrow> parsed_input option res" where
  "any_parser_dispatch [] sel params = Err (ParserNoDecoder sel)"
| "any_parser_dispatch (d # ds) sel params = (case CanDecode d sel of
       Inl p \<Rightarrow> Panic p
     | Inr can \<Rightarrow> if \<not> can then any_parser_dispatch ds sel params
         else map_err (Ctx ''decoding failed'') (Decode d sel params))"

definition any_Parse :: "go_decoder list \<Rightarrow> string \<Rightarrow> parsed_input option res" where
  "any_Parse decoders data =
     bind_out (map_err ParserInvalidHex (hex_DecodeString data)) (\<lambda>hexData.
     bind_out (slice hexData 0 4) (\<lambda>hd4.
     bind_out (slice hexData 4 (int (length hexData))) (\<lambda>params.
     any_parser_dispatch decoders (SelectorFromBytes hd4) params)))"

text \<open>A codec of the package as a value of the interface: never nil, and its results never are.\<close>

definition as_decoder :: "decoder_value \<Rightarrow> go_decoder" where
  "as_decoder v = Decoder (\<lambda>sel. Inr (fst v sel)) (\<lambda>sel params. map_ok Some (snd v sel params))"

lemma CanDecode_codec [simp]: "CanDecode (as_decoder v) sel = Inr (fst v sel)"
  by (simp add: as_decoder_def)

text \<open>The decoder that decides: the first one that does not plainly refuse the selector.\<close>

definition decides :: "go_decoder list \<Rightarrow> selector \<Rightarrow> go_decoder option" where
  "decides ds sel = List.find (\<lambda>d. CanDecode d sel \<noteq> Inr False) ds"

lemma decides_Cons: "decides (d # ds) sel = (if CanDecode d sel = Inr False then decides ds sel else Some d)"
  by (simp add: decides_def)

lemma any_dispatch_decides:
  "any_dispatch ds sel params = (case decides ds sel of
       None \<Rightarrow> Err (ChainNoDecoder sel)
     | Some d \<Rightarrow> (case CanDecode d sel of Inl p \<Rightarrow> Panic p | Inr _ \<Rightarrow> Decode d sel params))"
  by (induction ds) (auto simp: decides_Cons decides_def [of "[]"] split: sum.split)

lemma any_parser_dispatch_decides:
  "any_parser_dispatch ds sel params = (case decides ds sel of
       None \<Rightarrow> Err (ParserNoDecoder sel)
     | Some d \<Rightarrow> (case CanDecode d sel of Inl p \<Rightarrow> Panic p
         | Inr _ \<Rightarrow> map_err (Ctx ''decoding failed'') (Decode d sel params)))"
  by (induction ds) (auto simp: decides_Cons decides_def [of "[]"] split: sum.split)

lemma any_dispatch_codecs: "any_dispatch (map as_decoder vs) sel params = map_ok Some (chain_dispatch vs sel params)"
  by (induction vs sel params rule: chain_dispatch.induct) (simp_all add: as_decoder_def)

lemma any_Parse_hex:
  "4 \<le> length raw \<Longrightarrow> any_Parse ds (hex_EncodeToString raw) = any_parser_dispatch ds (take 4 raw) (drop 4 raw)"
  by (simp add: any_Parse_def hex_Decode_Encode slice_def)

lemma decides_nil:
  assumes "\<And>d. d \<in> set ds \<Longrightarrow> \<exists>b. CanDecode d sel = Inr b"
  shows "decides (ds @ NilDecoder # es) sel = (if \<exists>d \<in> set ds. CanDecode d sel = Inr True then decides ds sel else Some NilDecoder)"
  using assms
proof (induction ds)
  case Nil
  then show ?case by (simp add: decides_Cons)
next
  case (Cons d ds)
  then obtain b where b: "CanDecode d sel = Inr b" by auto
  show ?case using Cons.IH Cons.prems b by (cases b) (auto simp: decides_Cons)
qed

text \<open>
  C15. Dispatch over arbitrary decoders. Calldata of at least four bytes is decided by the first
  decoder that does not refuse its selector, and by no other one: a chain returns what that decoder
  returns (or its panic), a parser the same with its errors wrapped; without such a decoder both
  report the selector. So a nil decoder is harmless exactly for the selectors that a decoder
  registered before it accepts, and for all others \<open>ParseBytes\<close> and \<open>Parse\<close> panic, although
  \<open>Add\<close>, \<open>NewChain\<close> and \<open>New\<close> take it without complaint. For the codecs of the package the
  dispatch is that of the heap model.
\<close>

theorem any_decoder_dispatch:
  assumes "4 \<le> length raw" and "\<And>d. d \<in> set ds \<Longrightarrow> \<exists>b. CanDecode d (take 4 raw) = Inr b"
  shows "any_ParseBytes all raw = (case decides all (take 4 raw) of
         None \<Rightarrow> Err (ChainNoDecoder (take 4 raw))
       | Some d \<Rightarrow> (case CanDecode d (take 4 raw) of Inl p \<Rightarrow> Panic p | Inr _ \<Rightarrow> Decode d (take 4 raw) (drop 4 raw)))
    \<and> any_Parse all (hex_EncodeToString raw) = (case decides all (take 4 raw) of
         None \<Rightarrow> Err (ParserNoDecoder (take 4 raw))
       | Some d \<Rightarrow> (case CanDecode d (take 4 raw) of Inl p \<Rightarrow> Panic p
           | Inr _ \<Rightarrow> map_err (Ctx ''decoding failed'') (Decode d (take 4 raw) (drop 4 raw))))
    \<and> (if \<exists>d \<in> set ds. CanDecode d (take 4 raw) = Inr True
       then any_ParseBytes (ds @ NilDecoder # es) raw = any_ParseBytes ds raw
         \<and> any_Parse (ds @ NilDecoder # es) (hex_EncodeToString raw) = any_Parse ds (hex_EncodeToString raw)
       else any_ParseBytes (ds @ NilDecoder # es) raw = Panic NilDereference
         \<and> any_Parse (ds @ NilDecoder # es) (hex_EncodeToString raw) = Panic NilDereference)
    \<and> any_ParseBytes (map (as_decoder \<circ> decoder_value_of h rec) refs) raw
        = map_ok Some (Chain_ParseBytes (map (decoder_value_of h rec) refs) raw)"
proof -
  have sel: "SelectorFromBytes (take 4 raw) = take 4 raw" using assms(1) by (simp add: SelectorFromBytes_def)
  have chain: "any_ParseBytes xs raw = any_dispatch xs (take 4 raw) (drop 4 raw)" for xs
    using assms(1) sel by (simp add: any_ParseBytes_def selectorSize_def Let_def)
  have "any_ParseBytes (map (as_decoder \<circ> decoder_value_of h rec) refs) raw
      = map_ok Some (Chain_ParseBytes (map (decoder_value_of h rec) refs) raw)"
    using any_dispatch_codecs [of "map (decoder_value_of h rec) refs" "take 4 raw" "drop 4 raw"] assms(1) sel
    by (simp add: chain Chain_ParseBytes_def selectorSize_def Let_def)
  then show ?thesis
    by (simp add: chain any_Parse_hex [OF assms(1)] any_dispatch_decides any_parser_dispatch_decides decides_nil [OF assms(2)])
qed

text \<open>A chain with a nil decoder between the WETH codec and a decoder of the caller that returns nil for everything.\<close>

definition nil_chain :: "go_decoder list" where
  "nil_chain = [as_decoder (WETH_CanDecode, WETH_Decode), NilDecoder, Decoder (\<lambda>sel. Inr True) (\<lambda>sel params. Ok None)]"

theorem any_decoder_dispatch_witness:
  "any_ParseBytes nil_chain [1, 2, 3, 4] = Panic NilDereference
   \<and> any_Parse nil_chain (hex_EncodeToString [1, 2, 3, 4]) = Panic NilDereference
   \<and> any_ParseBytes nil_chain selWETHWithdraw = any_ParseBytes [as_decoder (WETH_CanDecode, WETH_Decode)] selWETHWithdraw"
proof -
  let ?ds = "[as_decoder (WETH_CanDecode, WETH_Decode)]" and ?es = "[Decoder (\<lambda>sel. Inr True) (\<lambda>sel params. Ok None)]"
  have ok: "\<exists>b. CanDecode d sel = Inr b" if "d \<in> set ?ds" for d sel using that by simp
  have weth: "\<not> WETH_CanDecode [1, 2, 3, 4]" "WETH_CanDecode selWETHWithdraw" "length selWETHWithdraw = 4"
    by (simp_all add: WETH_CanDecode_def selWETHWithdraw_def)
  note nil = any_decoder_dispatch [where ds = ?ds and es = ?es, THEN conjunct2, THEN conjunct2, THEN conjunct1]
  have "any_ParseBytes (?ds @ NilDecoder # ?es) [1, 2, 3, 4] = Panic NilDereference
      \<and> any_Parse (?ds @ NilDecoder # ?es) (hex_EncodeToString [1, 2, 3, 4]) = Panic NilDereference"
    using nil [of "[1, 2, 3, 4]", OF _ ok] weth(1) by simp
  moreover have "any_ParseBytes (?ds @ NilDecoder # ?es) selWETHWithdraw = any_ParseBytes ?ds selWETHWithdraw"
    using nil [of selWETHWithdraw, OF _ ok] weth(2,3) by simp
  ultimately show ?thesis by (simp add: nil_chain_def)
qed

end
