(* ===== verification/Go_Float.thy ===== *)
theory Go_Float
  imports Complex_Main Go_Prelude "HOL-Library.Log_Nat"
begin

text \<open>
  The use the sources make of \<open>float64\<close> and \<open>int32\<close>: comparisons, where every comparison
  with a NaN is false, the quotient of two non-negative integers rounded to 53 significant bits
  (round half to even), and 32-bit wrap-around.
\<close>

datatype float64 = NaN | NegInf | PosInf | Fin rat

fun f64_less :: "float64 \<Rightarrow> float64 \<Rightarrow> bool" where
  "f64_less (Fin x) (Fin y) \<longleftrightarrow> x < y"
| "f64_less NegInf (Fin _) \<longleftrightarrow> True"
| "f64_less NegInf PosInf \<longleftrightarrow> True"
| "f64_less (Fin _) PosInf \<longleftrightarrow> True"
| "f64_less _ _ \<longleftrightarrow> False"

fun f64_le :: "float64 \<Rightarrow> float64 \<Rightarrow> bool" where
  "f64_le NaN _ \<longleftrightarrow> False"
| "f64_le _ NaN \<longleftrightarrow> False"
| "f64_le x y \<longleftrightarrow> x = y \<or> f64_less x y"

text \<open>
  \<open>float64(n) / float64(d)\<close>. \<open>binade n d\<close> is the exponent of the quotient, that is
  \<open>2 ^ binade \<le> n / d < 2 ^ (binade + 1)\<close>; the quotient scaled by \<open>52 - binade\<close> bits has 53
  bits before the point. Arguments below \<open>2 ^ 31\<close> convert exactly and keep the scale
  non-negative and the result normal.
\<close>

definition binade :: "nat \<Rightarrow> nat \<Rightarrow> int" where
  "binade n d =
     (let k = int (floorlog 2 n) - int (floorlog 2 d) in
      if (if 0 \<le> k then d * 2 ^ nat k \<le> n else d \<le> n * 2 ^ nat (- k)) then k else k - 1)"

definition round_div :: "nat \<Rightarrow> nat \<Rightarrow> nat" where
  "round_div n d =
     (let q = n div d; r = n mod d in
      if 2 * r < d \<or> 2 * r = d \<and> even q then q else q + 1)"

definition f64_div :: "nat \<Rightarrow> nat \<Rightarrow> float64" where
  "f64_div n d =
     (if d = 0 then (if n = 0 then NaN else PosInf)
      else if n = 0 then Fin 0
      else let s = nat (52 - binade n d) in Fin (of_nat (round_div (n * 2 ^ s) d) / 2 ^ s))"

lemma f64_div_zero: "0 < d \<Longrightarrow> f64_div 0 d = Fin 0"
  by (simp add: f64_div_def)

text \<open>A quotient that is an integer below \<open>2 ^ 53\<close> is exact, so a full pool has the load one.\<close>

lemma f64_div_exact: "0 < d \<Longrightarrow> f64_div (k * d) d = Fin (of_nat k)"
  by (auto simp: f64_div_def round_div_def Let_def mult.assoc mult.left_commute)

lemma f64_div_self: "0 < d \<Longrightarrow> f64_div d d = Fin 1"
  using f64_div_exact [of d 1] by simp

text \<open>Rounding keeps the order of quotients over one denominator, and stays between integers.\<close>

lemma round_div_bounds: "0 < d \<Longrightarrow> n div d \<le> round_div n d \<and> round_div n d \<le> n div d + 1"
  by (simp add: round_div_def Let_def)

definition wrap32 :: "int \<Rightarrow> int" where
  "wrap32 x = (x + 2 ^ 31) mod 2 ^ 32 - 2 ^ 31"

lemma wrap32_small: "- (2 ^ 31) \<le> x \<Longrightarrow> x < 2 ^ 31 \<Longrightarrow> wrap32 x = x"
  by (simp add: wrap32_def)

text \<open>\<open>x / y\<close> on integers truncates towards zero.\<close>

definition quot :: "int \<Rightarrow> int \<Rightarrow> int" where
  "quot x y = sgn x * sgn y * (\<bar>x\<bar> div \<bar>y\<bar>)"

lemma quot_nonneg: "0 \<le> x \<Longrightarrow> 0 < y \<Longrightarrow> quot x y = x div y"
  by (cases "x = 0") (simp_all add: quot_def)

end
