(* ===== verification/Worker_Config.thy ===== *)
theory Worker_Config
  imports Go_Float
begin

text \<open>
  The configuration of the worker pool: \<open>src/workers/options.go\<close>, \<open>errors.go\<close> and the
  constants, \<open>config\<close> and the checks of \<open>New\<close> in \<open>worker.go\<close>. Options are functions on the
  configuration, as in the code; counts are 32-bit integers and durations nanoseconds.
\<close>

record config =
  pollingFreq :: int
  cfg_min :: int
  cfg_max :: int
  maxLoad :: float64
  minLoad :: float64
  scalingCooldown :: int

definition DefaultMinWorkerCount :: int where "DefaultMinWorkerCount = 3"
definition DefaultMaxWorkerCount :: int where "DefaultMaxWorkerCount = 5"
definition DefaultPollingFrequency :: int where "DefaultPollingFrequency = 300 * 1000000"
definition DefaultMaxLoad :: float64 where "DefaultMaxLoad = Fin (3152519739159347 / 2 ^ 52)"
definition DefaultMinLoad :: float64 where "DefaultMinLoad = Fin (5404319552844595 / 2 ^ 54)"
definition DefaultScalingCooldown :: int where "DefaultScalingCooldown = 5 * 1000000000"

datatype pool_error =
    ErrInvalidMinWorkerCount
  | ErrInvalidMaxWorkerCount
  | ErrInvalidMinMaxWorkerCount
  | ErrInvalidPollingFrequency
  | ErrInvalidMaxLoad
  | ErrInvalidMinLoad
  | ErrPoolClosed
  | ContextErr
  | HandlerErr string

type_synonym opt = "config \<Rightarrow> config"

definition WithMinWorkerCount :: "int \<Rightarrow> opt" where
  "WithMinWorkerCount count = (\<lambda>cfg. cfg\<lparr>cfg_min := count\<rparr>)"

definition WithMaxWorkerCount :: "int \<Rightarrow> opt" where
  "WithMaxWorkerCount count = (\<lambda>cfg. cfg\<lparr>cfg_max := count\<rparr>)"

definition WithPollingFrequency :: "int \<Rightarrow> opt" where
  "WithPollingFrequency f = (\<lambda>cfg. cfg\<lparr>pollingFreq := f\<rparr>)"

definition WithMaxLoad :: "float64 \<Rightarrow> opt" where
  "WithMaxLoad l = (\<lambda>cfg. cfg\<lparr>maxLoad := l\<rparr>)"

definition WithMinLoad :: "float64 \<Rightarrow> opt" where
  "WithMinLoad l = (\<lambda>cfg. cfg\<lparr>minLoad := l\<rparr>)"

definition WithScalingCooldown :: "int \<Rightarrow> opt" where
  "WithScalingCooldown cooldown = (\<lambda>cfg. cfg\<lparr>scalingCooldown := cooldown\<rparr>)"

lemmas option_defs = WithMinWorkerCount_def WithMaxWorkerCount_def WithPollingFrequency_def
  WithMaxLoad_def WithMinLoad_def WithScalingCooldown_def

definition default_config :: config where
  "default_config = \<lparr>pollingFreq = DefaultPollingFrequency, cfg_min = DefaultMinWorkerCount,
     cfg_max = DefaultMaxWorkerCount, maxLoad = DefaultMaxLoad, minLoad = DefaultMinLoad,
     scalingCooldown = DefaultScalingCooldown\<rparr>"

lemmas default_defs = default_config_def DefaultMinWorkerCount_def DefaultMaxWorkerCount_def
  DefaultPollingFrequency_def DefaultMaxLoad_def DefaultMinLoad_def DefaultScalingCooldown_def

text \<open>The checks of \<open>New\<close>, in their order; the first that fails decides.\<close>

definition validate :: "config \<Rightarrow> (pool_error, unit) outcome" where
  "validate c =
     (if cfg_min c = 0 then Err ErrInvalidMinWorkerCount
      else if cfg_max c = 0 then Err ErrInvalidMaxWorkerCount
      else if cfg_min c > cfg_max c then Err ErrInvalidMinMaxWorkerCount
      else if pollingFreq c = 0 then Err ErrInvalidPollingFrequency
      else if f64_less (Fin 1) (maxLoad c) \<or> f64_le (maxLoad c) (Fin 0) then Err ErrInvalidMaxLoad
      else if f64_less (minLoad c) (Fin 0) \<or> f64_le (maxLoad c) (minLoad c) then Err ErrInvalidMinLoad
      else Ok ())"

text \<open>A configuration the pool can run with, as the error messages describe it.\<close>

definition sound_config :: "config \<Rightarrow> bool" where
  "sound_config c \<longleftrightarrow> 1 \<le> cfg_min c \<and> cfg_min c \<le> cfg_max c \<and> cfg_max c < 2 ^ 31
     \<and> 0 < pollingFreq c
     \<and> (case (maxLoad c, minLoad c) of
          (Fin hi, Fin lo) \<Rightarrow> 0 \<le> lo \<and> lo < hi \<and> hi \<le> 1 | _ \<Rightarrow> False)"

lemma sound_validate: "sound_config c \<Longrightarrow> validate c = Ok ()"
  by (auto simp: sound_config_def validate_def split: float64.splits)

text \<open>
  What passes the checks: the counts are non-zero and ordered, the frequency non-zero, and each
  load in its range or a NaN.
\<close>

lemma validate_Ok_iff:
  "validate c = Ok () \<longleftrightarrow> cfg_min c \<noteq> 0 \<and> cfg_max c \<noteq> 0 \<and> cfg_min c \<le> cfg_max c \<and> pollingFreq c \<noteq> 0
     \<and> (maxLoad c = NaN \<or> (\<exists>hi. maxLoad c = Fin hi \<and> 0 < hi \<and> hi \<le> 1))
     \<and> (minLoad c = NaN \<or> maxLoad c = NaN \<and> \<not> f64_less (minLoad c) (Fin 0)
        \<or> (\<exists>hi lo. maxLoad c = Fin hi \<and> minLoad c = Fin lo \<and> 0 \<le> lo \<and> lo < hi))"
  by (cases "maxLoad c"; cases "minLoad c") (auto simp: validate_def)

lemma sound_default: "sound_config default_config"
  by (simp add: sound_config_def default_defs)

end
