(* ===== verification/Worker_Pool.thy ===== *)
theory Worker_Pool
  imports Worker_Config Go_Steps
begin

text \<open>
  The worker pool of \<open>src/workers/worker.go\<close>. The record \<open>pool\<close> is the struct \<open>Pool\<close>
  (the handler is a parameter: its results and panics are chosen by the events), \<open>pool_run\<close> adds
  the goroutines that run on it: the autoscaler, the workers (and how many \<open>Start\<close> has still to
  spawn), the calls of \<open>Submit\<close> and \<open>Close\<close> in progress, the results handed to the error group, and three history lists. Every access to shared
  state is one step, so the event sequences are the interleavings of the goroutines.
\<close>

section \<open>State\<close>

record 'v pool =
  cfg :: config
  dataCh :: "'v list"
  dataClosed :: bool
  deflateCh :: nat
  activeWorkers :: int
  busyWorkers :: int
  lastScalingTime :: int
  stopping :: bool
  closed :: bool

definition New :: "opt list \<Rightarrow> (pool_error, 'v pool) outcome" where
  "New opts =
     (let c = fold (\<lambda>opt c. opt c) opts default_config in
      bind_out (validate c) (\<lambda>_.
        if cfg_max c < 0 then Panic MakeChanSize
        else Ok \<lparr>cfg = c, dataCh = [], dataClosed = False, deflateCh = 0, activeWorkers = 0,
                 busyWorkers = 0, lastScalingTime = 0, stopping = False, closed = False\<rparr>))"

text \<open>The program points of a spawned worker.\<close>

datatype 'v worker_pc =
    WStart                       \<comment> \<open>before \<open>activeWorkers.Load\<close>\<close>
  | WLoaded int                  \<comment> \<open>before the comparison and the compare-and-swap\<close>
  | WSelect                      \<comment> \<open>at the select\<close>
  | WClosed                      \<comment> \<open>the channel is closed and drained\<close>
  | WGot 'v                      \<comment> \<open>an item was received, before \<open>stopping.Load\<close>\<close>
  | WBegin 'v                    \<comment> \<open>before \<open>busyWorkers.Add(1)\<close>\<close>
  | WHandle 'v                   \<comment> \<open>the handler runs\<close>
  | WHandled "string option"     \<comment> \<open>before \<open>busyWorkers.Add(-1)\<close>\<close>
  | WExit "pool_error option"    \<comment> \<open>before the deferred \<open>activeWorkers.Add(-1)\<close>\<close>
  | WDone                        \<comment> \<open>returned to the error group\<close>

datatype scaler_pc =
    SNone                        \<comment> \<open>\<open>Start\<close> was not called\<close>
  | SInit                        \<comment> \<open>before \<open>NewTicker\<close>\<close>
  | SWait                        \<comment> \<open>at the select\<close>
  | SLoaded int                  \<comment> \<open>\<open>active\<close> was loaded\<close>
  | SRead int int                \<comment> \<open>\<open>active\<close> and \<open>busy\<close> were loaded\<close>
  | SShrink nat int              \<comment> \<open>tokens left to send, time of the decision\<close>
  | SDone

datatype 'v submit_pc = SubEntered 'v | SubSelect 'v | SubDone "pool_error option"

datatype closer_pc = CEntered | CWon | CDone

record 'v pool_run = "'v pool" +
  scaler :: scaler_pc
  to_spawn :: nat
  spawned :: "'v worker_pc list"
  submits :: "'v submit_pc list"
  closers :: "closer_pc list"
  cancelled :: bool
  returned :: "pool_error option list"
  crashed :: "go_panic option"
  accepted :: "'v list"
  handled :: "'v list"
  dropped :: "'v list"

definition launch :: "'v pool \<Rightarrow> 'v pool_run" where
  "launch p = pool.extend p (pool_run.fields SNone 0 [] [] [] False [] None [] [] [])"

section \<open>Submit and Close\<close>

datatype submit_event = LoadClosed | Send | SubmitCtx

primrec Submit :: "submit_event \<Rightarrow> nat \<Rightarrow> 'v pool_run \<Rightarrow> 'v pool_run option" where
  "Submit LoadClosed i p = (case submits p ! i of
       SubEntered v \<Rightarrow> Some (p\<lparr>submits := (submits p)
         [i := if closed p then SubDone (Some ErrPoolClosed) else SubSelect v]\<rparr>)
     | _ \<Rightarrow> None)"
| "Submit Send i p = (case submits p ! i of
       SubSelect v \<Rightarrow>
         if dataClosed p then Some (p\<lparr>crashed := Some SendOnClosedChannel\<rparr>)
         else if int (length (dataCh p)) < cfg_max (cfg p)
         then Some (p\<lparr>dataCh := dataCh p @ [v], submits := (submits p)[i := SubDone None],
                accepted := accepted p @ [v]\<rparr>)
         else None
     | _ \<Rightarrow> None)"
| "Submit SubmitCtx i p = (case submits p ! i of
       SubSelect v \<Rightarrow> Some (p\<lparr>submits := (submits p)[i := SubDone (Some ContextErr)]\<rparr>)
     | _ \<Rightarrow> None)"

datatype close_event = CloseCAS | CloseChan

primrec Close :: "close_event \<Rightarrow> nat \<Rightarrow> 'v pool_run \<Rightarrow> 'v pool_run option" where
  "Close CloseCAS i p = (case closers p ! i of
       CEntered \<Rightarrow> Some (if closed p then p\<lparr>closers := (closers p)[i := CDone]\<rparr>
         else p\<lparr>closed := True, closers := (closers p)[i := CWon]\<rparr>)
     | _ \<Rightarrow> None)"
| "Close CloseChan i p = (case closers p ! i of
       CWon \<Rightarrow> Some (if dataClosed p then p\<lparr>crashed := Some CloseOfClosedChannel\<rparr>
         else p\<lparr>dataClosed := True, closers := (closers p)[i := CDone]\<rparr>)
     | _ \<Rightarrow> None)"

section \<open>spawn and the worker loop\<close>

definition spawn :: "'v pool_run \<Rightarrow> 'v pool_run" where
  "spawn p = (if stopping p then p else p\<lparr>spawned := spawned p @ [WStart]\<rparr>)"

datatype worker_event = Load | CAS | CtxDone | Deflate | Receive | StoreStopping | LoadStopping
  | Begin | HandlerReturns "string option" | HandlerPanics | EndBusy | Leave

abbreviation goto :: "nat \<Rightarrow> 'v worker_pc \<Rightarrow> 'v pool_run \<Rightarrow> 'v pool_run" where
  "goto i w p \<equiv> p\<lparr>spawned := (spawned p)[i := w]\<rparr>"

primrec worker_loop :: "worker_event \<Rightarrow> nat \<Rightarrow> 'v pool_run \<Rightarrow> 'v pool_run option" where
  "worker_loop Load i p = (case spawned p ! i of
       WStart \<Rightarrow> Some (goto i (WLoaded (activeWorkers p)) p) | _ \<Rightarrow> None)"
| "worker_loop CAS i p = (case spawned p ! i of
       WLoaded current \<Rightarrow> Some
         (if current \<ge> cfg_max (cfg p) then (goto i WDone p)\<lparr>returned := returned p @ [None]\<rparr>
          else if activeWorkers p = current
          then (goto i WSelect p)\<lparr>activeWorkers := wrap32 (current + 1)\<rparr>
          else goto i WStart p)
     | _ \<Rightarrow> None)"
| "worker_loop CtxDone i p = (case spawned p ! i of
       WSelect \<Rightarrow> if cancelled p then Some (goto i (WExit (Some ContextErr)) p) else None
     | _ \<Rightarrow> None)"
| "worker_loop Deflate i p = (case spawned p ! i of
       WSelect \<Rightarrow> if 0 < deflateCh p
         then Some ((goto i (WExit None) p)\<lparr>deflateCh := deflateCh p - 1\<rparr>) else None
     | _ \<Rightarrow> None)"
| "worker_loop Receive i p = (case spawned p ! i of
       WSelect \<Rightarrow> (case dataCh p of
           d # ds \<Rightarrow> Some ((goto i (WGot d) p)\<lparr>dataCh := ds\<rparr>)
         | [] \<Rightarrow> if dataClosed p then Some (goto i WClosed p) else None)
     | _ \<Rightarrow> None)"
| "worker_loop StoreStopping i p = (case spawned p ! i of
       WClosed \<Rightarrow> Some ((goto i (WExit None) p)\<lparr>stopping := True\<rparr>) | _ \<Rightarrow> None)"
| "worker_loop LoadStopping i p = (case spawned p ! i of
       WGot d \<Rightarrow> Some (if stopping p then (goto i (WExit None) p)\<lparr>dropped := dropped p @ [d]\<rparr>
         else goto i (WBegin d) p)
     | _ \<Rightarrow> None)"
| "worker_loop Begin i p = (case spawned p ! i of
       WBegin d \<Rightarrow> Some ((goto i (WHandle d) p)
         \<lparr>busyWorkers := wrap32 (busyWorkers p + 1), handled := handled p @ [d]\<rparr>)
     | _ \<Rightarrow> None)"
| "worker_loop (HandlerReturns err) i p = (case spawned p ! i of
       WHandle d \<Rightarrow> Some (goto i (WHandled err) p) | _ \<Rightarrow> None)"
| "worker_loop HandlerPanics i p = (case spawned p ! i of
       WHandle d \<Rightarrow> Some (p\<lparr>crashed := Some CallbackPanic\<rparr>) | _ \<Rightarrow> None)"
| "worker_loop EndBusy i p = (case spawned p ! i of
       WHandled err \<Rightarrow> Some ((goto i (case err of None \<Rightarrow> WSelect | Some e \<Rightarrow> WExit (Some (HandlerErr e))) p)
         \<lparr>busyWorkers := wrap32 (busyWorkers p - 1)\<rparr>)
     | _ \<Rightarrow> None)"
| "worker_loop Leave i p = (case spawned p ! i of
       WExit r \<Rightarrow> Some ((goto i WDone p)
         \<lparr>activeWorkers := wrap32 (activeWorkers p - 1), returned := returned p @ [r]\<rparr>)
     | _ \<Rightarrow> None)"

section \<open>The autoscaler\<close>

datatype decision = Skip | Grow | Shrink int

text \<open>
  One tick of the autoscaler, from the values it loaded. Both counters are non-negative in every
  reachable state (below), so their conversion to \<open>float64\<close> is that of natural numbers.
\<close>

definition scale_decision :: "config \<Rightarrow> int \<Rightarrow> int \<Rightarrow> int \<Rightarrow> int \<Rightarrow> decision" where
  "scale_decision c active busy now lastScaling =
     (if active = 0 then Skip
      else if wrap64 (now - lastScaling) < scalingCooldown c then Skip
      else
        let busyRatio = f64_div (nat busy) (nat active) in
        if f64_le (maxLoad c) busyRatio \<and> active < cfg_max c then Grow
        else if active > cfg_min c \<and> f64_less busyRatio (minLoad c)
        then let excess = wrap32 (active - cfg_min c)
             in Shrink (min excess (max 1 (quot active 2)))
        else Skip)"

datatype scaler_event = NewTicker | Tick | LoadBusy | Decide int | Token | StoreTime | ScalerCtx

primrec autoscaler :: "scaler_event \<Rightarrow> 'v pool_run \<Rightarrow> 'v pool_run option" where
  "autoscaler NewTicker p = (case scaler p of
       SInit \<Rightarrow> Some (if pollingFreq (cfg p) \<le> 0 then p\<lparr>crashed := Some NonPositiveTicker\<rparr>
         else p\<lparr>scaler := SWait\<rparr>)
     | _ \<Rightarrow> None)"
| "autoscaler Tick p = (case scaler p of
       SWait \<Rightarrow> Some (p\<lparr>scaler := SLoaded (activeWorkers p)\<rparr>) | _ \<Rightarrow> None)"
| "autoscaler LoadBusy p = (case scaler p of
       SLoaded a \<Rightarrow> Some (p\<lparr>scaler := SRead a (busyWorkers p)\<rparr>) | _ \<Rightarrow> None)"
| "autoscaler (Decide now) p = (case scaler p of
       SRead active busy \<Rightarrow> Some
         (case scale_decision (cfg p) active busy now (lastScalingTime p) of
            Skip \<Rightarrow> p\<lparr>scaler := SWait\<rparr>
          | Grow \<Rightarrow> (spawn p)\<lparr>lastScalingTime := now, scaler := SWait\<rparr>
          | Shrink toRemove \<Rightarrow> p\<lparr>scaler := SShrink (nat toRemove) now\<rparr>)
     | _ \<Rightarrow> None)"
| "autoscaler Token p = (case scaler p of
       SShrink (Suc n) now \<Rightarrow> Some
         (if int (deflateCh p) < cfg_max (cfg p)
          then p\<lparr>deflateCh := deflateCh p + 1, scaler := SShrink n now\<rparr>
          else p\<lparr>scaler := SShrink n now\<rparr>)
     | _ \<Rightarrow> None)"
| "autoscaler StoreTime p = (case scaler p of
       SShrink 0 now \<Rightarrow> Some (p\<lparr>lastScalingTime := now, scaler := SWait\<rparr>) | _ \<Rightarrow> None)"
| "autoscaler ScalerCtx p = (case scaler p of
       SWait \<Rightarrow> if cancelled p then Some (p\<lparr>scaler := SDone, returned := returned p @ [Some ContextErr]\<rparr>) else None
     | _ \<Rightarrow> None)"

section \<open>Start and the event system\<close>

text \<open>
  \<open>Start\<close> refuses a closed pool; else it launches the autoscaler and makes \<open>min\<close> calls of \<open>spawn\<close>,
  each of which reads \<open>stopping\<close> (\<open>start_spawn\<close>), while the goroutines already launched run.
\<close>

definition Start :: "'v pool_run \<Rightarrow> (pool_error, 'v pool_run) outcome" where
  "Start p =
     (if closed p then Err ErrPoolClosed
      else Ok (p\<lparr>scaler := SInit, to_spawn := nat (cfg_min (cfg p))\<rparr>))"

definition start_spawn :: "'v pool_run \<Rightarrow> 'v pool_run option" where
  "start_spawn p = (case to_spawn p of 0 \<Rightarrow> None | Suc n \<Rightarrow> Some ((spawn p)\<lparr>to_spawn := n\<rparr>))"

text \<open>
  \<open>Start\<close> then waits: \<open>group.Wait()\<close> returns when the autoscaler and every worker have; what the error group makes
  of their results, in the order they returned, is a parameter, as is the moment its context
  is cancelled (the event \<open>Cancel\<close>).
\<close>

definition Start_returns ::
    "(pool_error option list \<Rightarrow> pool_error option) \<Rightarrow> 'v pool_run \<Rightarrow> pool_error option option" where
  "Start_returns wait p =
     (if scaler p = SDone \<and> to_spawn p = 0 \<and> list_all (\<lambda>w. case w of WDone \<Rightarrow> True | _ \<Rightarrow> False) (spawned p)
      then Some (wait (returned p)) else None)"

definition ActiveWorkers :: "('v, 'a) pool_scheme \<Rightarrow> int" where "ActiveWorkers p = activeWorkers p"
definition BusyWorkers :: "('v, 'a) pool_scheme \<Rightarrow> int" where "BusyWorkers p = busyWorkers p"
definition QueueSize :: "('v, 'a) pool_scheme \<Rightarrow> int" where "QueueSize p = int (length (dataCh p))"

datatype 'v pool_event =
    CallSubmit 'v
  | CallClose
  | CallStart
  | StartSpawn
  | Cancel
  | AtSubmit submit_event nat
  | AtClose close_event nat
  | AtWorker worker_event nat
  | AtScaler scaler_event

text \<open>A panic stops the process; one call of \<open>Start\<close> per pool.\<close>

fun pool_step :: "('v pool_event, 'v pool_run) step" where
  "pool_step (CallSubmit v) p =
     (if crashed p \<noteq> None then None else Some (p\<lparr>submits := submits p @ [SubEntered v]\<rparr>))"
| "pool_step CallClose p =
     (if crashed p \<noteq> None then None else Some (p\<lparr>closers := closers p @ [CEntered]\<rparr>))"
| "pool_step CallStart p =
     (if crashed p \<noteq> None \<or> scaler p \<noteq> SNone then None
      else case Start p of Ok p' \<Rightarrow> Some p' | _ \<Rightarrow> Some p)"
| "pool_step StartSpawn p = (if crashed p \<noteq> None then None else start_spawn p)"
| "pool_step Cancel p = (if crashed p \<noteq> None then None else Some (p\<lparr>cancelled := True\<rparr>))"
| "pool_step (AtSubmit e i) p =
     (if crashed p \<noteq> None \<or> i \<ge> length (submits p) then None else Submit e i p)"
| "pool_step (AtClose e i) p =
     (if crashed p \<noteq> None \<or> i \<ge> length (closers p) then None else Close e i p)"
| "pool_step (AtWorker e i) p =
     (if crashed p \<noteq> None \<or> i \<ge> length (spawned p) then None else worker_loop e i p)"
| "pool_step (AtScaler e) p = (if crashed p \<noteq> None then None else autoscaler e p)"

definition pool_start :: "'v pool_run \<Rightarrow> bool" where
  "pool_start s \<longleftrightarrow> (\<exists>opts p. New opts = Ok p \<and> cfg_max (cfg p) < 2 ^ 31
     \<and> - (2 ^ 31) \<le> cfg_min (cfg p) \<and> s = launch p)"

end
