(* ===== verification/Worker_Props.thy ===== *)
theory Worker_Props
  imports Worker_Pool
begin

text \<open>
  What holds in every reachable state of a worker pool: the counters are exactly the goroutines
  they count and stay within the configured maximum, the channels stay within their capacity,
  \<open>Close\<close> closes the data channel once, and every accepted item is in exactly one place.
\<close>

section \<open>Preservation by every event\<close>

lemma pool_step_preserves:
  assumes "pool_step e p = Some p'" and "P p"
    and "\<And>e i p'. i < length (submits p) \<Longrightarrow> Submit e i p = Some p' \<Longrightarrow> P p'"
    and "\<And>e i p'. i < length (closers p) \<Longrightarrow> Close e i p = Some p' \<Longrightarrow> P p'"
    and "\<And>e i p'. i < length (spawned p) \<Longrightarrow> worker_loop e i p = Some p' \<Longrightarrow> P p'"
    and "\<And>e p'. autoscaler e p = Some p' \<Longrightarrow> P p'"
    and "\<And>p'. Start p = Ok p' \<Longrightarrow> P p'" and "\<And>p'. start_spawn p = Some p' \<Longrightarrow> P p'"
    and "\<And>v. P (p\<lparr>submits := submits p @ [SubEntered v]\<rparr>)"
    and "P (p\<lparr>closers := closers p @ [CEntered]\<rparr>)" and "P (p\<lparr>cancelled := True\<rparr>)"
  shows "P p'"
  using assms by (cases e) (auto split: if_splits outcome.splits simp: not_le)

lemma spawn_fields:
  "cfg (spawn p) = cfg p" "scaler (spawn p) = scaler p" "cancelled (spawn p) = cancelled p" "crashed (spawn p) = crashed p"
  "returned (spawn p) = returned p" "to_spawn (spawn p) = to_spawn p" "accepted (spawn p) = accepted p" "handled (spawn p) = handled p"
  by (simp_all add: spawn_def)

section \<open>Counters\<close>

fun counted :: "'v worker_pc \<Rightarrow> bool" where
  "counted WStart = False"
| "counted (WLoaded c) = False"
| "counted WDone = False"
| "counted _ = True"

fun running :: "'v worker_pc \<Rightarrow> bool" where
  "running (WHandle v) = True"
| "running (WHandled e) = True"
| "running _ = False"

definition counters_ok :: "'v pool_run \<Rightarrow> bool" where
  "counters_ok p \<longleftrightarrow> 0 < cfg_max (cfg p) \<and> cfg_max (cfg p) < 2 ^ 31
     \<and> activeWorkers p = tally counted (spawned p) \<and> busyWorkers p = tally running (spawned p)
     \<and> activeWorkers p \<le> cfg_max (cfg p)
     \<and> int (length (dataCh p)) \<le> cfg_max (cfg p) \<and> int (deflateCh p) \<le> cfg_max (cfg p)"

lemma tally_running_counted: "tally running ws \<le> tally counted ws"
  by (rule tally_mono) (auto elim: running.elims)

lemma spawn_counters: "counters_ok p \<Longrightarrow> counters_ok (spawn p)"
  by (simp add: counters_ok_def spawn_def)

lemma start_spawn_counters: "counters_ok p \<Longrightarrow> start_spawn p = Some p' \<Longrightarrow> counters_ok p'"
  using spawn_counters [of p] by (auto simp: start_spawn_def counters_ok_def split: nat.splits)

lemma counters_at:
  assumes "counters_ok p" and "i < length (spawned p)"
  shows "0 \<le> busyWorkers p" and "busyWorkers p \<le> activeWorkers p"
    and "counted (spawned p ! i) \<Longrightarrow> 1 \<le> activeWorkers p"
    and "running (spawned p ! i) \<Longrightarrow> 1 \<le> busyWorkers p"
    and "counted (spawned p ! i) \<Longrightarrow> \<not> running (spawned p ! i) \<Longrightarrow> busyWorkers p < activeWorkers p"
proof -
  have eqs: "activeWorkers p = tally counted (spawned p)" "busyWorkers p = tally running (spawned p)"
    using assms(1) by (simp_all add: counters_ok_def)
  show "0 \<le> busyWorkers p" and "busyWorkers p \<le> activeWorkers p"
    by (simp_all add: eqs tally_nonneg tally_running_counted)
  show "counted (spawned p ! i) \<Longrightarrow> 1 \<le> activeWorkers p"
    and "running (spawned p ! i) \<Longrightarrow> 1 \<le> busyWorkers p"
    using nth_mem [OF assms(2)] by (simp_all add: eqs tally_pos)
  show "counted (spawned p ! i) \<Longrightarrow> \<not> running (spawned p ! i) \<Longrightarrow> busyWorkers p < activeWorkers p"
    using tally_running_counted [of "(spawned p)[i := WDone]"] assms(2)
    by (simp add: eqs tally_update)
qed

lemma worker_counters:
  assumes "counters_ok p" and "i < length (spawned p)" and "worker_loop e i p = Some p'"
  shows "counters_ok p'"
proof -
  note at = counters_at [OF assms(1,2)]
  have max: "activeWorkers p \<le> cfg_max (cfg p)" "cfg_max (cfg p) < 2 ^ 31"
    using assms(1) by (simp_all add: counters_ok_def)
  show ?thesis
    using assms at max
    by (cases e; cases "spawned p ! i")
       (auto simp: counters_ok_def tally_update wrap32_small split: if_splits list.splits option.splits)
qed

lemma scaler_counters: "counters_ok p \<Longrightarrow> autoscaler e p = Some p' \<Longrightarrow> counters_ok p'"
  by (cases e) (auto simp: counters_ok_def spawn_def split: scaler_pc.splits nat.splits
      decision.splits if_splits)

lemma submit_counters: "counters_ok p \<Longrightarrow> Submit e i p = Some p' \<Longrightarrow> counters_ok p'"
  by (cases e) (auto simp: counters_ok_def split: submit_pc.splits if_splits)

lemma close_counters: "counters_ok p \<Longrightarrow> Close e i p = Some p' \<Longrightarrow> counters_ok p'"
  by (cases e) (auto simp: counters_ok_def split: closer_pc.splits if_splits)

lemma start_counters: "counters_ok p \<Longrightarrow> Start p = Ok p' \<Longrightarrow> counters_ok p'"
  by (auto simp: Start_def counters_ok_def split: if_splits)

lemma pool_step_counters: "counters_ok p \<Longrightarrow> pool_step e p = Some p' \<Longrightarrow> counters_ok p'"
  by (erule pool_step_preserves [where P = counters_ok])
     (auto intro: worker_counters scaler_counters submit_counters close_counters start_counters start_spawn_counters,
      auto simp: counters_ok_def)

lemma New_Ok_iff:
  "New opts = Ok p \<longleftrightarrow> (let c = fold (\<lambda>opt c. opt c) opts default_config in
     validate c = Ok () \<and> 0 \<le> cfg_max c \<and>
     p = \<lparr>cfg = c, dataCh = [], dataClosed = False, deflateCh = 0, activeWorkers = 0,
          busyWorkers = 0, lastScalingTime = 0, stopping = False, closed = False\<rparr>)"
  by (auto simp: New_def Let_def outcome_simps)

lemma pool_start_cfg: "pool_start s \<Longrightarrow> validate (cfg s) = Ok () \<and> 0 < cfg_max (cfg s) \<and> cfg_max (cfg s) < 2 ^ 31"
  by (auto simp: pool_start_def New_Ok_iff Let_def launch_def pool.defs pool_run.defs validate_Ok_iff)

lemma pool_start_fields:
  assumes "pool_start s"
  shows "dataCh s = []" "dataClosed s = False" "deflateCh s = 0" "activeWorkers s = 0" "busyWorkers s = 0"
    "stopping s = False" "closed s = False" "scaler s = SNone" "to_spawn s = 0" "spawned s = []" "submits s = []"
    "closers s = []" "crashed s = None" "accepted s = []" "handled s = []" "dropped s = []"
    "lastScalingTime s = 0"
  using assms by (auto simp: pool_start_def New_Ok_iff Let_def launch_def pool.defs pool_run.defs)

interpretation counters: invariant_of pool_step pool_start counters_ok
proof
  show "pool_start s \<Longrightarrow> counters_ok s" for s :: "'a pool_run"
    using pool_start_cfg [of s] by (simp add: counters_ok_def pool_start_fields)
qed (rule pool_step_counters)

section \<open>The data channel\<close>

text \<open>The items a worker has received and not yet handed to the handler or dropped.\<close>

fun held :: "'v worker_pc \<Rightarrow> 'v multiset" where
  "held (WGot v) = {#v#}"
| "held (WBegin v) = {#v#}"
| "held _ = {#}"

definition close_ok :: "'v pool_run \<Rightarrow> bool" where
  "close_ok p \<longleftrightarrow> tally (\<lambda>c. c = CWon) (closers p) + of_bool (dataClosed p) = of_bool (closed p)
     \<and> (\<forall>q. crashed p = Some q \<longrightarrow> q = SendOnClosedChannel \<and> closed p
          \<or> q = NonPositiveTicker \<and> pollingFreq (cfg p) \<le> 0 \<or> q = CallbackPanic)"

definition drain_ok :: "'v pool_run \<Rightarrow> bool" where
  "drain_ok p \<longleftrightarrow> (stopping p \<or> WClosed \<in> set (spawned p) \<longrightarrow> dataClosed p \<and> dataCh p = [])
     \<and> (dropped p \<noteq> [] \<longrightarrow> stopping p)"

definition items_ok :: "'v pool_run \<Rightarrow> bool" where
  "items_ok p \<longleftrightarrow> mset (accepted p)
     = mset (handled p) + mset (dropped p) + mset (dataCh p) + holding held (spawned p)"

definition channel_ok :: "'v pool_run \<Rightarrow> bool" where
  "channel_ok p \<longleftrightarrow> close_ok p \<and> drain_ok p \<and> items_ok p"

lemmas channel_defs = channel_ok_def close_ok_def drain_ok_def items_ok_def

lemma WClosed_update: "WClosed \<in> set (ws[i := w]) \<Longrightarrow> w \<noteq> WClosed \<Longrightarrow> WClosed \<in> set ws"
  using set_update_subset_insert [of ws i w] by auto

lemma spawn_channel: "channel_ok p \<Longrightarrow> channel_ok (spawn p)"
  by (cases "stopping p") (auto simp: channel_defs spawn_def)

lemma start_spawn_channel: "channel_ok p \<Longrightarrow> start_spawn p = Some p' \<Longrightarrow> channel_ok p'"
proof -
  assume "channel_ok p" and "start_spawn p = Some p'"
  then obtain n where p': "p' = (spawn p)\<lparr>to_spawn := n\<rparr>" by (auto simp: start_spawn_def split: nat.splits)
  have "channel_ok (spawn p)" by (rule spawn_channel) fact
  then show "channel_ok p'" unfolding p' by (simp add: channel_defs)
qed

lemma worker_close_ok: "close_ok p \<Longrightarrow> worker_loop e i p = Some p' \<Longrightarrow> close_ok p'"
  by (cases e; cases "spawned p ! i") (auto simp: close_ok_def split: if_splits list.splits)

lemma worker_drain_ok: "drain_ok p \<Longrightarrow> i < length (spawned p) \<Longrightarrow> worker_loop e i p = Some p' \<Longrightarrow> drain_ok p'"
  by (cases e; cases "spawned p ! i")
     (auto simp: drain_ok_def dest!: WClosed_update nth_mem split: if_splits list.splits option.splits)

lemma worker_items_ok:
  assumes "items_ok p" and "i < length (spawned p)" and "worker_loop e i p = Some p'"
  shows "items_ok p'"
proof -
  have drop: "holding held (spawned p) = holding held ((spawned p)[i := w]) + held (spawned p ! i)"
    if "held w = {#}" for w
    using assms(2) that by (rule holding_update_drop)
  consider d where "e = LoadStopping" "spawned p ! i = WGot d" "stopping p"
    | d where "e = Begin" "spawned p ! i = WBegin d"
    | "\<not> (e = LoadStopping \<and> stopping p)" "e \<noteq> Begin"
    using assms(3) by (cases e; cases "spawned p ! i") auto
  then show ?thesis
  proof cases
    case 1
    then show ?thesis using assms drop [of "WExit None"] by (auto simp: items_ok_def)
  next
    case (2 d)
    then show ?thesis using assms drop [of "WHandle d"] by (auto simp: items_ok_def)
  next
    case 3
    then show ?thesis
      using assms by (cases e; cases "spawned p ! i")
        (auto simp: items_ok_def holding_update_same holding_update_take
          split: if_splits list.splits option.splits)
  qed
qed

lemma worker_channel:
  "channel_ok p \<Longrightarrow> i < length (spawned p) \<Longrightarrow> worker_loop e i p = Some p' \<Longrightarrow> channel_ok p'"
  by (auto simp: channel_ok_def intro: worker_close_ok worker_drain_ok worker_items_ok)

text \<open>The autoscaler leaves the data channel alone.\<close>

lemma scaler_effect:
  assumes "autoscaler e p = Some p'"
  shows "cfg p' = cfg p" "dataCh p' = dataCh p" "dataClosed p' = dataClosed p" "stopping p' = stopping p"
    "closed p' = closed p" "closers p' = closers p" "accepted p' = accepted p"
    "handled p' = handled p" "dropped p' = dropped p"
    and "spawned p' = spawned p \<or> spawned p' = spawned p @ [WStart]"
    and "crashed p' = crashed p \<or> crashed p' = Some NonPositiveTicker \<and> pollingFreq (cfg p) \<le> 0"
  using assms by (cases e; auto split: scaler_pc.splits nat.splits decision.splits if_splits
      simp: spawn_def)+

lemma scaler_channel:
  assumes "channel_ok p" and "autoscaler e p = Some p'"
  shows "channel_ok p'"
proof -
  note same = scaler_effect [OF assms(2)]
  have "close_ok p'" using assms(1) same(1-9) same(11) by (auto simp: channel_defs)
  moreover have "drain_ok p'" using assms(1) same(1-9) same(10) by (auto simp: channel_defs)
  moreover have "items_ok p'" using assms(1) same(1-9) same(10) by (auto simp: channel_defs)
  ultimately show ?thesis by (simp add: channel_ok_def)
qed

lemma submit_channel:
  assumes "channel_ok p" and "Submit e i p = Some p'"
  shows "channel_ok p'"
proof -
  have "closed p" if "dataClosed p"
    using that assms(1) tally_nonneg [of "\<lambda>c. c = CWon" "closers p"]
    by (auto simp: channel_ok_def close_ok_def of_bool_def split: if_splits)
  then have "close_ok p'" using assms
    by (cases e; cases "submits p ! i") (auto simp: channel_ok_def close_ok_def split: if_splits)
  moreover have "drain_ok p'" using assms
    by (cases e; cases "submits p ! i") (auto simp: channel_ok_def drain_ok_def split: if_splits)
  moreover have "items_ok p'" using assms
    by (cases e; cases "submits p ! i") (auto simp: channel_ok_def items_ok_def split: if_splits)
  ultimately show ?thesis by (simp add: channel_ok_def)
qed

lemma close_ok_pending:
  assumes "close_ok p" and "i < length (closers p)" and "closers p ! i = CWon"
  shows "\<not> dataClosed p" and "closed p" and "tally (\<lambda>c. c = CWon) (closers p) = 1"
proof -
  have "1 \<le> tally (\<lambda>c. c = CWon) (closers p)" by (rule tally_pos [OF nth_mem]) (use assms in simp_all)
  then show "\<not> dataClosed p" and "closed p" and "tally (\<lambda>c. c = CWon) (closers p) = 1"
    using assms(1) by (auto simp: close_ok_def of_bool_def split: if_splits)
qed

lemma close_ok_unclosed:
  "close_ok p \<Longrightarrow> \<not> closed p \<Longrightarrow> \<not> dataClosed p \<and> tally (\<lambda>c. c = CWon) (closers p) = 0"
  using tally_nonneg [of "\<lambda>c. c = CWon" "closers p"] by (auto simp: close_ok_def of_bool_def split: if_splits)

lemma close_channel:
  assumes "channel_ok p" and "i < length (closers p)" and "Close e i p = Some p'"
  shows "channel_ok p'"
proof (cases e)
  case CloseCAS
  then have pc: "closers p ! i = CEntered" using assms(3) by (cases "closers p ! i") simp_all
  show ?thesis
  proof (cases "closed p")
    case True
    then show ?thesis using assms CloseCAS pc by (auto simp: channel_defs tally_update)
  next
    case False
    with close_ok_unclosed [of p] show ?thesis
      using assms CloseCAS pc by (auto simp: channel_defs tally_update)
  qed
next
  case CloseChan
  then have pc: "closers p ! i = CWon" using assms(3) by (cases "closers p ! i") simp_all
  have ok: "close_ok p" "drain_ok p" "items_ok p" using assms(1) by (simp_all add: channel_ok_def)
  note pend = close_ok_pending [OF ok(1) assms(2) pc]
  have p': "p' = p\<lparr>dataClosed := True, closers := (closers p)[i := CDone]\<rparr>"
    using assms(3) CloseChan pc pend(1) by simp
  have "close_ok p'"
    using ok(1) pend assms(2) pc by (simp add: p' close_ok_def tally_update)
  moreover have "drain_ok p'" "items_ok p'" using ok(2,3) by (simp_all add: p' drain_ok_def items_ok_def)
  ultimately show ?thesis by (simp add: channel_ok_def)
qed

lemma start_channel: "channel_ok p \<Longrightarrow> Start p = Ok p' \<Longrightarrow> channel_ok p'"
  by (auto simp: Start_def channel_defs split: if_splits)

lemma pool_step_channel: "channel_ok p \<Longrightarrow> pool_step e p = Some p' \<Longrightarrow> channel_ok p'"
  by (erule pool_step_preserves [where P = channel_ok])
     (erule worker_channel scaler_channel submit_channel close_channel start_channel start_spawn_channel, assumption+
      | simp add: channel_defs)+

interpretation channel: invariant_of pool_step pool_start channel_ok
proof
  show "pool_start s \<Longrightarrow> channel_ok s" for s :: "'a pool_run"
    by (simp add: channel_defs pool_start_fields)
qed (rule pool_step_channel)

end
