(* ===== verification/Worker_Live.thy ===== *)
theory Worker_Live
  imports Worker_Props
begin

text \<open>
  Progress of a worker pool: once the context of \<open>Start\<close> is done, \<open>Start\<close> can make its calls of
  \<open>spawn\<close>, and the autoscaler and then every worker can be run to its return by its own steps, a handler that is running returning first. The
  lemmas follow a worker backwards through the program points of its loop.
\<close>

section \<open>One worker\<close>

lemma worker_frame:
  assumes "worker_loop e i p = Some p'"
  shows "\<exists>w. spawned p' = (spawned p)[i := w]" and "scaler p' = scaler p" and "cancelled p' = cancelled p"
    and "cfg p' = cfg p" and "to_spawn p' = to_spawn p"
proof -
  show "\<exists>w. spawned p' = (spawned p)[i := w]"
  proof (cases "e = HandlerPanics")
    case True
    then have "spawned p' = (spawned p)[i := spawned p ! i]" using assms by (auto split: worker_pc.splits)
    then show ?thesis ..
  next
    case False
    then show ?thesis using assms by (cases e) (auto split: worker_pc.splits list.splits option.splits if_splits)
  qed
  show "scaler p' = scaler p" and "cancelled p' = cancelled p" and "cfg p' = cfg p" and "to_spawn p' = to_spawn p"
    using assms by (cases e; auto split: worker_pc.splits list.splits option.splits if_splits)+
qed

lemma worker_crash: "worker_loop e i p = Some p' \<Longrightarrow> e \<noteq> HandlerPanics \<Longrightarrow> crashed p' = crashed p"
  by (cases e; cases "spawned p ! i") (auto split: list.splits if_splits)

definition finishes :: "nat \<Rightarrow> 'v pool_run \<Rightarrow> bool" where
  "finishes i p \<longleftrightarrow> (\<exists>es q. exec pool_step (map (\<lambda>e. AtWorker e i) es) p = Some q
     \<and> spawned q = (spawned p)[i := WDone] \<and> scaler q = scaler p \<and> cancelled q \<and> crashed q = None \<and> cfg q = cfg p
     \<and> to_spawn q = to_spawn p)"

text \<open>A worker that can be finished: its index is in range, nothing has crashed, the context is done.\<close>

definition stoppable :: "nat \<Rightarrow> 'v pool_run \<Rightarrow> bool" where
  "stoppable i p \<longleftrightarrow> i < length (spawned p) \<and> crashed p = None \<and> cancelled p"

lemma stoppable_step: "stoppable i p \<Longrightarrow> worker_loop e i p = Some p' \<Longrightarrow> e \<noteq> HandlerPanics \<Longrightarrow> stoppable i p'"
  using worker_frame [of e i p p'] worker_crash [of e i p p'] by (auto simp: stoppable_def)

lemma finishes_step:
  assumes "stoppable i p" and "worker_loop e i p = Some p'" and "finishes i p'" and "e \<noteq> HandlerPanics"
  shows "finishes i p"
proof -
  obtain es q where q: "exec pool_step (map (\<lambda>e. AtWorker e i) es) p' = Some q" "spawned q = (spawned p')[i := WDone]"
    "scaler q = scaler p'" "cancelled q" "crashed q = None" "cfg q = cfg p'" "to_spawn q = to_spawn p'"
    using assms(3) by (auto simp: finishes_def)
  obtain w where "spawned p' = (spawned p)[i := w]" using worker_frame(1) [OF assms(2)] by blast
  then show ?thesis
    using assms(1,2,4) q worker_frame(2-5) [OF assms(2)] worker_crash [OF assms(2,4)] unfolding finishes_def
    by (intro exI [of _ "e # es"] exI [of _ q]) (simp add: stoppable_def)
qed

lemma finishes_done: "stoppable i p \<Longrightarrow> spawned p ! i = WDone \<Longrightarrow> finishes i p"
  unfolding finishes_def by (intro exI [of _ "[]"] exI [of _ p]) (metis exec.simps(1) list.map(1) list_update_id stoppable_def)

lemma finishes_by:
  assumes "stoppable i p" and "worker_loop e i p = Some p'" and "stoppable i p' \<Longrightarrow> finishes i p'" and "e \<noteq> HandlerPanics"
  shows "finishes i p"
  using finishes_step [OF assms(1,2) _ assms(4)] assms(3) [OF stoppable_step [OF assms(1,2,4)]] by blast

lemma finishes_exit:
  assumes "stoppable i p" and "spawned p ! i = WExit r"
  shows "finishes i p"
  by (rule finishes_by [OF assms(1), of Leave]) (use assms in \<open>auto intro!: finishes_done simp: stoppable_def\<close>)

lemma finishes_select:
  assumes "stoppable i p" and "spawned p ! i = WSelect"
  shows "finishes i p"
  by (rule finishes_by [OF assms(1), of CtxDone]) (use assms in \<open>auto intro!: finishes_exit simp: stoppable_def\<close>)

lemma finishes_handled:
  assumes "stoppable i p" and "spawned p ! i = WHandled err"
  shows "finishes i p"
proof (cases err)
  case None
  show ?thesis by (rule finishes_by [OF assms(1), of EndBusy])
      (use assms None in \<open>auto intro!: finishes_select simp: stoppable_def\<close>)
next
  case (Some e)
  show ?thesis by (rule finishes_by [OF assms(1), of EndBusy])
      (use assms Some in \<open>auto intro!: finishes_exit simp: stoppable_def\<close>)
qed

lemma finishes_handle:
  assumes "stoppable i p" and "spawned p ! i = WHandle d"
  shows "finishes i p"
  by (rule finishes_by [OF assms(1), of "HandlerReturns None"])
     (use assms in \<open>auto intro!: finishes_handled simp: stoppable_def\<close>)

lemma finishes_begin:
  assumes "stoppable i p" and "spawned p ! i = WBegin d"
  shows "finishes i p"
  by (rule finishes_by [OF assms(1), of Begin]) (use assms in \<open>auto intro!: finishes_handle simp: stoppable_def\<close>)

lemma finishes_got:
  assumes "stoppable i p" and "spawned p ! i = WGot d"
  shows "finishes i p"
proof (cases "stopping p")
  case True
  show ?thesis by (rule finishes_by [OF assms(1), of LoadStopping])
      (use assms True in \<open>auto intro!: finishes_exit simp: stoppable_def\<close>)
next
  case False
  show ?thesis by (rule finishes_by [OF assms(1), of LoadStopping])
      (use assms False in \<open>auto intro!: finishes_begin simp: stoppable_def\<close>)
qed

lemma finishes_closed:
  assumes "stoppable i p" and "spawned p ! i = WClosed"
  shows "finishes i p"
  by (rule finishes_by [OF assms(1), of StoreStopping]) (use assms in \<open>auto intro!: finishes_exit simp: stoppable_def\<close>)

lemma finishes_loaded_now:
  assumes "stoppable i p" and "spawned p ! i = WLoaded (activeWorkers p)"
  shows "finishes i p"
proof (cases "cfg_max (cfg p) \<le> activeWorkers p")
  case True
  show ?thesis by (rule finishes_by [OF assms(1), of CAS])
      (use assms True in \<open>auto intro!: finishes_done simp: stoppable_def\<close>)
next
  case False
  show ?thesis by (rule finishes_by [OF assms(1), of CAS])
      (use assms False in \<open>auto intro!: finishes_select simp: stoppable_def\<close>)
qed

lemma finishes_start:
  assumes "stoppable i p" and "spawned p ! i = WStart"
  shows "finishes i p"
  by (rule finishes_by [OF assms(1), of Load]) (use assms in \<open>auto intro!: finishes_loaded_now simp: stoppable_def\<close>)

lemma finishes_loaded:
  assumes "stoppable i p" and "spawned p ! i = WLoaded c"
  shows "finishes i p"
proof -
  consider "cfg_max (cfg p) \<le> c" | "c < cfg_max (cfg p)" "activeWorkers p \<noteq> c" | "activeWorkers p = c" by linarith
  then show ?thesis
  proof cases
    case 1
    show ?thesis by (rule finishes_by [OF assms(1), of CAS])
        (use assms 1 in \<open>auto intro!: finishes_done simp: stoppable_def\<close>)
  next
    case 2
    show ?thesis by (rule finishes_by [OF assms(1), of CAS])
        (use assms 2 in \<open>auto intro!: finishes_start simp: stoppable_def\<close>)
  next
    case 3
    then show ?thesis using assms finishes_loaded_now [OF assms(1)] by simp
  qed
qed

lemma worker_finishes: "stoppable i p \<Longrightarrow> finishes i p"
  by (cases "spawned p ! i")
     (auto intro: finishes_start finishes_loaded finishes_select finishes_closed finishes_got finishes_begin
        finishes_handle finishes_handled finishes_exit finishes_done)

section \<open>All workers\<close>

text \<open>The steps of the pool's own goroutines, as opposed to calls from outside.\<close>

fun own_step :: "'v pool_event \<Rightarrow> bool" where
  "own_step StartSpawn = True"
| "own_step (AtWorker e i) = True"
| "own_step (AtScaler e) = True"
| "own_step _ = False"

lemma workers_finish:
  assumes "crashed p = None" and "cancelled p" and "n \<le> length (spawned p)"
  shows "\<exists>es q. exec pool_step es p = Some q \<and> list_all own_step es \<and> (\<forall>i < n. spawned q ! i = WDone) \<and> length (spawned q) = length (spawned p)
    \<and> scaler q = scaler p \<and> cancelled q \<and> crashed q = None \<and> to_spawn q = to_spawn p"
  using assms(3)
proof (induction n)
  case 0
  then show ?case using assms by (intro exI [of _ "[]"] exI [of _ p]) simp
next
  case (Suc n)
  then obtain es q where q: "exec pool_step es p = Some q" "list_all own_step es" "\<forall>i < n. spawned q ! i = WDone"
    "length (spawned q) = length (spawned p)" "scaler q = scaler p" "cancelled q" "crashed q = None" "to_spawn q = to_spawn p" by auto
  then have "stoppable n q" using Suc.prems by (simp add: stoppable_def)
  then obtain fs t where "exec pool_step (map (\<lambda>e. AtWorker e n) fs) q = Some t" "spawned t = (spawned q)[n := WDone]"
    "scaler t = scaler q" "cancelled t" "crashed t = None" "to_spawn t = to_spawn q"
    using worker_finishes by (fastforce simp: finishes_def)
  then show ?case
    using q Suc.prems by (intro exI [of _ "es @ map (\<lambda>e. AtWorker e n) fs"] exI [of _ t])
      (auto simp: exec_append less_Suc_eq nth_list_update list_all_iff)
qed

section \<open>The autoscaler\<close>

definition scaler_finishes :: "'v pool_run \<Rightarrow> bool" where
  "scaler_finishes p \<longleftrightarrow> (\<exists>es q. exec pool_step (map AtScaler es) p = Some q \<and> scaler q = SDone \<and> cancelled q \<and> crashed q = None
     \<and> to_spawn q = to_spawn p)"

lemma scaler_to_spawn: "autoscaler e p = Some p' \<Longrightarrow> to_spawn p' = to_spawn p"
  by (cases e) (auto simp: spawn_def split: scaler_pc.splits nat.splits decision.splits if_splits)

lemma scaler_finishes_step:
  assumes "crashed p = None" and "autoscaler e p = Some p'" and "scaler_finishes p'"
  shows "scaler_finishes p"
proof -
  obtain es q where "exec pool_step (map AtScaler es) p' = Some q" "scaler q = SDone" "cancelled q" "crashed q = None"
    "to_spawn q = to_spawn p'"
    using assms(3) by (auto simp: scaler_finishes_def)
  then show ?thesis using assms(1,2) scaler_to_spawn [OF assms(2)] unfolding scaler_finishes_def by (intro exI [of _ "e # es"] exI [of _ q]) simp
qed

lemma scaler_finishes_wait:
  assumes "crashed p = None" and "cancelled p" and "scaler p = SWait"
  shows "scaler_finishes p"
  unfolding scaler_finishes_def using assms by (intro exI [of _ "[ScalerCtx]"]) simp

lemma scaler_finishes_shrink:
  assumes "crashed p = None" and "cancelled p" and "scaler p = SShrink n now"
  shows "scaler_finishes p"
  using assms
proof (induction n arbitrary: p)
  case 0
  then show ?case
    by (intro scaler_finishes_step [of p StoreTime]) (auto intro: scaler_finishes_wait)
next
  case (Suc n)
  show ?case
    by (rule scaler_finishes_step [of p Token]) (use Suc in \<open>auto intro!: Suc.IH\<close>)
qed

lemma scaler_finishes_read:
  assumes "crashed p = None" and "cancelled p" and "scaler p = SRead a b"
  shows "scaler_finishes p"
proof (cases "scale_decision (cfg p) a b 0 (lastScalingTime p)")
  case (Shrink k)
  show ?thesis by (rule scaler_finishes_step [of p "Decide 0"])
      (use assms Shrink in \<open>auto intro!: scaler_finishes_shrink\<close>)
next
  case Skip
  show ?thesis by (rule scaler_finishes_step [of p "Decide 0"])
      (use assms Skip in \<open>auto intro!: scaler_finishes_wait\<close>)
next
  case Grow
  show ?thesis by (rule scaler_finishes_step [of p "Decide 0"])
      (use assms Grow in \<open>auto intro!: scaler_finishes_wait simp: spawn_def\<close>)
qed

lemma scaler_can_finish:
  assumes "crashed p = None" and "cancelled p" and "0 < pollingFreq (cfg p)" and "scaler p \<noteq> SNone"
  shows "scaler_finishes p"
proof (cases "scaler p")
  case SInit
  then show ?thesis
    using assms by (intro scaler_finishes_step [of p NewTicker]) (auto intro!: scaler_finishes_wait)
next
  case (SLoaded a)
  then show ?thesis
    using assms by (intro scaler_finishes_step [of p LoadBusy]) (auto intro!: scaler_finishes_read)
next
  case SDone
  then show ?thesis using assms unfolding scaler_finishes_def by (intro exI [of _ "[]"]) simp
qed (use assms in \<open>auto intro: scaler_finishes_wait scaler_finishes_read scaler_finishes_shrink\<close>)

section \<open>Start\<close>

lemma start_spawns:
  "crashed p = None \<Longrightarrow> \<exists>q. exec pool_step (replicate (to_spawn p) StartSpawn) p = Some q \<and> to_spawn q = 0
     \<and> scaler q = scaler p \<and> cancelled q = cancelled p \<and> crashed q = None \<and> cfg q = cfg p"
proof (induction "to_spawn p" arbitrary: p)
  case (Suc n)
  have "start_spawn p = Some ((spawn p)\<lparr>to_spawn := n\<rparr>)" using Suc.hyps(2) [symmetric] by (simp add: start_spawn_def)
  moreover have "\<exists>q. exec pool_step (replicate n StartSpawn) ((spawn p)\<lparr>to_spawn := n\<rparr>) = Some q \<and> to_spawn q = 0
     \<and> scaler q = scaler p \<and> cancelled q = cancelled p \<and> crashed q = None \<and> cfg q = cfg p"
    using Suc.hyps(1) [of "(spawn p)\<lparr>to_spawn := n\<rparr>"] Suc.prems by (simp add: spawn_fields)
  ultimately show ?case using Suc.prems Suc.hyps(2) [symmetric] by simp
qed simp

text \<open>Together: \<open>Start\<close> can return.\<close>

lemma start_finishes:
  assumes "crashed p = None" and "cancelled p" and "0 < pollingFreq (cfg p)" and "scaler p \<noteq> SNone"
  shows "\<exists>es q. exec pool_step es p = Some q \<and> list_all own_step es \<and> Start_returns wait q \<noteq> None"
proof -
  let ?ss = "replicate (to_spawn p) StartSpawn"
  obtain r where r: "exec pool_step ?ss p = Some r" "to_spawn r = 0" "scaler r = scaler p" "cancelled r" "crashed r = None"
    "cfg r = cfg p" using start_spawns [OF assms(1)] assms(2) by auto
  obtain es q where q: "exec pool_step (map AtScaler es) r = Some q" "scaler q = SDone" "cancelled q" "crashed q = None"
    "to_spawn q = 0" using scaler_can_finish [of r] assms r by (auto simp: scaler_finishes_def)
  obtain fs t where t: "exec pool_step fs q = Some t" "\<forall>i < length (spawned q). spawned t ! i = WDone"
    "length (spawned t) = length (spawned q)" "scaler t = scaler q" "list_all own_step fs" "to_spawn t = to_spawn q"
    using workers_finish [OF q(4,3) order.refl] by blast
  have "list_all (\<lambda>w. case w of WDone \<Rightarrow> True | _ \<Rightarrow> False) (spawned t)" using t(2,3) by (simp add: list_all_length)
  then show ?thesis
    using r(1) q(1,2,5) t(1,4-6) by (intro exI [of _ "?ss @ map AtScaler es @ fs"] exI [of _ t])
      (auto simp: exec_append Start_returns_def list_all_iff)
qed

end
