(* ===== verification/Worker_Claims.thy ===== *)
theory Worker_Claims
  imports Worker_Live
begin

text \<open>
  The properties of the worker pool: the bounds of its counters and channels, the fate of
  accepted items, when it can panic, when \<open>Start\<close> returns, the decisions of the autoscaler and
  the configurations \<open>New\<close> accepts.
\<close>

section \<open>Concrete runs\<close>

definition idle_run :: "config \<Rightarrow> 'v pool_run" where
  "idle_run c = launch \<lparr>cfg = c, dataCh = [], dataClosed = False, deflateCh = 0, activeWorkers = 0,
     busyWorkers = 0, lastScalingTime = 0, stopping = False, closed = False\<rparr>"

lemma idle_run_start:
  assumes "validate c = Ok ()" and "0 \<le> cfg_max c" and "cfg_max c < 2 ^ 31" and "- (2 ^ 31) \<le> cfg_min c"
  shows "pool_start (idle_run c)"
  unfolding pool_start_def idle_run_def
  by (rule exI [of _ "[\<lambda>_. c]"]) (use assms in \<open>simp add: New_Ok_iff\<close>)

lemmas run_simps = idle_run_def launch_def pool.defs pool_run.defs Start_def start_spawn_def spawn_def default_defs
  wrap32_small

lemma pool_start_default: "pool_start (idle_run default_config)"
  by (rule idle_run_start) (use sound_validate [OF sound_default] in \<open>simp_all add: default_defs\<close>)

lemma exec_from_start: "pool_start s \<Longrightarrow> exec pool_step es s = Some p \<Longrightarrow> reachable pool_step pool_start p"
  by (rule exec_reachable [where start = pool_start, OF reachable.reach_start])

lemmas exec_from_idle = exec_from_start [OF pool_start_default]

text \<open>One worker handling an item.\<close>

definition busy_events :: "nat pool_event list" where
  "busy_events = [CallStart, StartSpawn, StartSpawn, StartSpawn, AtWorker Load 0, AtWorker CAS 0, CallSubmit 7, AtSubmit LoadClosed 0,
     AtSubmit Send 0, AtWorker Receive 0, AtWorker LoadStopping 0, AtWorker Begin 0]"

lemma busy_run: "\<exists>p. exec pool_step busy_events (idle_run default_config) = Some p
    \<and> activeWorkers p = 1 \<and> busyWorkers p = 1 \<and> accepted p = [7] \<and> handled p = [7]"
  by (simp add: busy_events_def run_simps numeral_3_eq_3)

section \<open>Properties of every reachable state\<close>

text \<open>
  C5. At every moment of every interleaving the counters and channels of a pool stay in their
  bounds: there are never more busy than active workers and never more active workers than the
  configured maximum, and the queue and the pending scale-down tokens stay within the capacity.
\<close>

theorem pool_counters_bounded:
  assumes "reachable pool_step pool_start p"
  shows "0 \<le> BusyWorkers p \<and> BusyWorkers p \<le> ActiveWorkers p \<and> ActiveWorkers p \<le> cfg_max (cfg p)
    \<and> 0 \<le> QueueSize p \<and> QueueSize p \<le> cfg_max (cfg p) \<and> int (deflateCh p) \<le> cfg_max (cfg p)"
  using counters.inv_reachable [OF assms] tally_running_counted [of "spawned p"]
    tally_nonneg [of running "spawned p"]
  by (simp add: counters_ok_def BusyWorkers_def ActiveWorkers_def QueueSize_def)

theorem pool_counters_bounded_witness:
  "\<exists>p :: nat pool_run. reachable pool_step pool_start p \<and> BusyWorkers p = 1
    \<and> (0 \<le> BusyWorkers p \<and> BusyWorkers p \<le> ActiveWorkers p \<and> ActiveWorkers p \<le> cfg_max (cfg p)
    \<and> 0 \<le> QueueSize p \<and> QueueSize p \<le> cfg_max (cfg p) \<and> int (deflateCh p) \<le> cfg_max (cfg p))"
proof -
  obtain p where "exec pool_step busy_events (idle_run default_config) = Some p" "busyWorkers p = 1"
    using busy_run by blast
  with exec_from_idle pool_counters_bounded [of p] show ?thesis
    by (intro exI [of _ p]) (auto simp: BusyWorkers_def)
qed

text \<open>
  C6. No item is duplicated, and an item is lost only while the pool shuts down: every item that
  \<open>Submit\<close> accepted was handed to the handler, is queued, is with a worker that just received
  it, or was dropped, counted with multiplicity; and items are dropped only once a worker has
  seen the closed channel drained.
\<close>

theorem pool_items_conserved:
  assumes "reachable pool_step pool_start p"
  shows "mset (accepted p) = mset (handled p) + mset (dropped p) + mset (dataCh p) + holding held (spawned p)
    \<and> (dropped p \<noteq> [] \<longrightarrow> stopping p) \<and> (stopping p \<longrightarrow> closed p \<and> dataCh p = [])"
  using channel.inv_reachable [OF assms] tally_nonneg [of "\<lambda>c. c = CWon" "closers p"]
  by (auto simp: channel_defs of_bool_def split: if_splits)

theorem pool_items_conserved_witness:
  "\<exists>p :: nat pool_run. reachable pool_step pool_start p \<and> accepted p = [7]
    \<and> mset (accepted p) = mset (handled p) + mset (dropped p) + mset (dataCh p) + holding held (spawned p)
    \<and> (dropped p \<noteq> [] \<longrightarrow> stopping p) \<and> (stopping p \<longrightarrow> closed p \<and> dataCh p = [])"
proof -
  obtain p where "exec pool_step busy_events (idle_run default_config) = Some p" "accepted p = [7]"
    using busy_run by blast
  with exec_from_idle pool_items_conserved [of p] show ?thesis by (intro exI [of _ p]) auto
qed

definition race_events :: "'v \<Rightarrow> 'v pool_event list" where
  "race_events v = [CallSubmit v, AtSubmit LoadClosed 0, CallClose, AtClose CloseCAS 0,
     AtClose CloseChan 0, AtSubmit Send 0]"

lemma race_run: "\<exists>p. exec pool_step (race_events v) (idle_run c) = Some p
    \<and> crashed p = Some SendOnClosedChannel"
  by (simp add: race_events_def run_simps)

text \<open>
  C25. A pool panics in two situations of its own only (besides a panic of the handler): a send on
  the data channel after \<open>Close\<close>, or a polling frequency that is not positive. In particular the channel is never closed twice,
  however many goroutines call \<open>Close\<close>. The first situation arises on every pool: a \<open>Submit\<close>
  that read \<open>closed\<close> before \<open>Close\<close> ran sends on the closed channel and panics in its caller
  instead of returning \<open>ErrPoolClosed\<close>.
\<close>

theorem pool_panics_only:
  "(reachable pool_step pool_start p \<longrightarrow> crashed p = Some q \<longrightarrow>
      q = SendOnClosedChannel \<and> closed p \<or> q = NonPositiveTicker \<and> pollingFreq (cfg p) \<le> 0 \<or> q = CallbackPanic)
   \<and> (\<exists>p'. exec pool_step [CallSubmit v, AtSubmit LoadClosed 0, CallClose, AtClose CloseCAS 0,
       AtClose CloseChan 0, AtSubmit Send 0] (idle_run c) = Some p' \<and> crashed p' = Some SendOnClosedChannel)"
  using channel.inv_reachable [of p] race_run [of v c]
  by (simp only: race_events_def channel_ok_def close_ok_def) blast

theorem pool_panics_only_witness:
  "\<exists>p :: nat pool_run. reachable pool_step pool_start p \<and> crashed p = Some SendOnClosedChannel \<and> closed p"
proof -
  obtain p :: "nat pool_run" where p: "exec pool_step (race_events 1) (idle_run default_config) = Some p"
      "crashed p = Some SendOnClosedChannel"
    using race_run [of "1 :: nat" default_config] by blast
  note reach = exec_from_idle [OF p(1)]
  have "closed p"
    using pool_panics_only [THEN conjunct1, rule_format, OF reach p(2)] by simp
  then show ?thesis using reach p(2) by blast
qed

text \<open>The autoscaler stops only because the context of the group is done.\<close>

definition scaler_ok :: "'v pool_run \<Rightarrow> bool" where
  "scaler_ok p \<longleftrightarrow> (scaler p = SDone \<longrightarrow> cancelled p)"

lemma pool_step_scaler:
  assumes "scaler_ok p" and "pool_step e p = Some p'"
  shows "scaler_ok p'"
  using assms(2)
proof (rule pool_step_preserves)
  show "scaler_ok p'" if "worker_loop e i p = Some p'" for e i p'
    using that assms(1)
    by (cases e; cases "spawned p ! i") (auto simp: scaler_ok_def split: if_splits list.splits)
  show "scaler_ok p'" if "autoscaler e p = Some p'" for e p'
    using that assms(1)
    by (cases e; cases "scaler p")
       (auto simp: scaler_ok_def spawn_def split: if_splits nat.splits decision.splits)
  show "scaler_ok p'" if "Submit e i p = Some p'" for e i p'
    using that assms(1) by (cases e; cases "submits p ! i") (auto simp: scaler_ok_def split: if_splits)
  show "scaler_ok p'" if "Close e i p = Some p'" for e i p'
    using that assms(1) by (cases e; cases "closers p ! i") (auto simp: scaler_ok_def split: if_splits)
  show "scaler_ok p'" if "Start p = Ok p'" for p'
    using that by (auto simp: Start_def scaler_ok_def split: if_splits)
  show "scaler_ok p'" if "start_spawn p = Some p'" for p'
    using that assms(1) by (auto simp: start_spawn_def scaler_ok_def spawn_fields split: nat.splits)
qed (use assms(1) in \<open>simp_all add: scaler_ok_def\<close>)

interpretation scaler: invariant_of pool_step pool_start scaler_ok
proof
  show "pool_start s \<Longrightarrow> scaler_ok s" for s :: "'a pool_run"
    by (simp add: scaler_ok_def pool_start_fields)
qed (rule pool_step_scaler)

text \<open>
  C26. When \<open>Start\<close> returns, the pool is quiet and the context is done: no worker is active or
  busy, and every accepted item was handled, dropped or is still queued. So closing the pool
  does not make \<open>Start\<close> return; only the end of the context does. And it does: from every state
  after that the pool's own goroutines can be run until \<open>Start\<close> returns (a handler that is
  running returns first), without any call from outside.
\<close>

theorem start_returns_quiet:
  assumes "reachable pool_step pool_start p"
  shows "(Start_returns wait p = Some r \<longrightarrow> ActiveWorkers p = 0 \<and> BusyWorkers p = 0 \<and> cancelled p
      \<and> mset (accepted p) = mset (handled p) + mset (dropped p) + mset (dataCh p))
    \<and> (cancelled p \<and> scaler p \<noteq> SNone \<and> crashed p = None \<and> 0 < pollingFreq (cfg p) \<longrightarrow>
      (\<exists>es q. exec pool_step es p = Some q \<and> list_all own_step es \<and> Start_returns wait q \<noteq> None))"
proof (intro conjI impI)
  assume ret: "Start_returns wait p = Some r"
  have all: "w = WDone" if "w \<in> set (spawned p)" for w
    using ret that by (cases w) (auto simp: Start_returns_def list_all_iff split: if_splits)
  obtain n where "spawned p = replicate n WDone"
    using all by (metis replicate_length_same)
  then have "tally counted (spawned p) = 0" "tally running (spawned p) = 0" "holding held (spawned p) = {#}"
    by (simp_all add: holding_replicate_empty)
  moreover have "scaler p = SDone" using ret by (auto simp: Start_returns_def split: if_splits)
  ultimately have "ActiveWorkers p = 0 \<and> BusyWorkers p = 0 \<and> cancelled p
      \<and> mset (accepted p) = mset (handled p) + mset (dropped p) + mset (dataCh p)"
    using counters.inv_reachable [OF assms(1)] channel.inv_reachable [OF assms(1)]
      scaler.inv_reachable [OF assms(1)]
    by (simp add: counters_ok_def channel_ok_def items_ok_def scaler_ok_def ActiveWorkers_def BusyWorkers_def)
  then show "ActiveWorkers p = 0" "BusyWorkers p = 0" "cancelled p"
    "mset (accepted p) = mset (handled p) + mset (dropped p) + mset (dataCh p)" by simp_all
next
  assume "cancelled p \<and> scaler p \<noteq> SNone \<and> crashed p = None \<and> 0 < pollingFreq (cfg p)"
  then show "\<exists>es q. exec pool_step es p = Some q \<and> list_all own_step es \<and> Start_returns wait q \<noteq> None"
    by (intro start_finishes) simp_all
qed

definition stop_events :: "nat pool_event list" where
  "stop_events = busy_events @ [AtWorker Load 1, AtWorker CAS 1, AtWorker Load 2, AtWorker CAS 2,
     AtScaler NewTicker, Cancel, AtWorker (HandlerReturns (Some ''boom'')) 0, AtWorker EndBusy 0, AtWorker Leave 0,
     AtWorker CtxDone 1, AtWorker Leave 1, AtWorker CtxDone 2, AtWorker Leave 2, AtScaler ScalerCtx]"

lemma stop_run: "\<exists>p. exec pool_step stop_events (idle_run default_config) = Some p
    \<and> Start_returns (\<lambda>rs. hd rs) p = Some (Some (HandlerErr ''boom'')) \<and> accepted p = [7]"
  by (simp add: stop_events_def busy_events_def run_simps numeral_3_eq_3 Start_returns_def numeral_2_eq_2)

theorem start_returns_quiet_witness:
  "\<exists>p :: nat pool_run. Start_returns (\<lambda>rs. hd rs) p = Some (Some (HandlerErr ''boom''))
    \<and> ActiveWorkers p = 0 \<and> BusyWorkers p = 0 \<and> cancelled p
    \<and> mset (accepted p) = mset (handled p) + mset (dropped p) + mset (dataCh p)"
proof -
  obtain p where p: "exec pool_step stop_events (idle_run default_config) = Some p"
      "Start_returns (\<lambda>rs. hd rs) p = Some (Some (HandlerErr ''boom''))"
    using stop_run by blast
  with start_returns_quiet [OF exec_from_idle [OF p(1)], of "\<lambda>rs. hd rs"] show ?thesis by (intro exI [of _ p]) simp
qed

section \<open>The autoscaler\<close>

text \<open>
  C27. The autoscaler decides as documented, for a sound configuration and counters in their
  bounds: nothing happens within the cooldown or without active workers; it grows only below
  the maximum, and always when every worker is busy; it shrinks by at least one and at most half
  of the workers and never plans to go below the minimum, and always shrinks an idle pool above
  the minimum (when the lower threshold is positive).
\<close>

theorem scale_decision_sound:
  assumes "sound_config c" and "0 \<le> busy" and "busy \<le> active" and "active \<le> cfg_max c"
  shows "(wrap64 (now - lastScaling) < scalingCooldown c \<or> active = 0 \<longrightarrow> scale_decision c active busy now lastScaling = Skip)
    \<and> (scale_decision c active busy now lastScaling = Grow \<longrightarrow> 0 < active \<and> active < cfg_max c)
    \<and> (\<forall>n. scale_decision c active busy now lastScaling = Shrink n \<longrightarrow>
         1 \<le> n \<and> n \<le> active - cfg_min c \<and> n \<le> max 1 (active div 2))
    \<and> (scalingCooldown c \<le> wrap64 (now - lastScaling) \<and> 0 < active \<longrightarrow>
         (busy = active \<and> active < cfg_max c \<longrightarrow> scale_decision c active busy now lastScaling = Grow)
         \<and> (busy = 0 \<and> cfg_min c < active \<and> minLoad c \<noteq> Fin 0 \<longrightarrow>
              (\<exists>n. scale_decision c active busy now lastScaling = Shrink n)))"
proof -
  obtain hi lo where loads: "maxLoad c = Fin hi" "minLoad c = Fin lo" "0 \<le> lo" "lo < hi" "hi \<le> 1"
    and counts: "1 \<le> cfg_min c" "cfg_min c \<le> cfg_max c" "cfg_max c < 2 ^ 31"
    using assms(1) by (auto simp: sound_config_def split: float64.splits)
  have full: "f64_div (nat active) (nat active) = Fin 1" and idle: "f64_div 0 (nat active) = Fin 0"
    if "0 < active"
    using that by (simp_all add: f64_div_self f64_div_zero)
  have excess: "wrap32 (active - cfg_min c) = active - cfg_min c"
    using assms counts by (intro wrap32_small) simp_all
  have half: "quot active 2 = active div 2" using assms(2,3) by (intro quot_nonneg) simp_all
  have le1: "f64_le (maxLoad c) (Fin 1)" using loads by auto
  show ?thesis
    using assms(2-4) loads full idle le1
    by (auto simp: scale_decision_def Let_def excess half split: if_splits)
qed

theorem scale_decision_sound_witness:
  "scale_decision default_config 4 4 (10 ^ 18) 0 = Grow \<and>
   (\<exists>n. scale_decision default_config 5 0 (10 ^ 18) 0 = Shrink n \<and> 1 \<le> n \<and> n \<le> 2)"
proof -
  have "wrap64 (10 ^ 18 - 0) = 10 ^ 18" by (simp add: wrap64_small)
  then show ?thesis
    using scale_decision_sound [OF sound_default, of 4 4 "10 ^ 18" 0]
      scale_decision_sound [OF sound_default, of 0 5 "10 ^ 18" 0]
    by (auto simp: default_defs)
qed

section \<open>New\<close>

text \<open>A field that some option sets and that the others leave alone.\<close>

lemma fold_keeps:
  "f d = v \<Longrightarrow> \<forall>opt \<in> set opts. \<forall>d. f (opt d) = v \<or> f (opt d) = f d
    \<Longrightarrow> f (fold (\<lambda>opt c. opt c) opts d) = v"
proof (induction opts arbitrary: d)
  case (Cons opt opts)
  then have "f (opt d) = v" by (metis list.set_intros(1))
  then show ?case using Cons.IH [of "opt d"] Cons.prems(2) by simp
qed simp

lemma fold_sets:
  "\<exists>opt \<in> set opts. \<forall>d. f (opt d) = v \<Longrightarrow> \<forall>opt \<in> set opts. \<forall>d. f (opt d) = v \<or> f (opt d) = f d
    \<Longrightarrow> f (fold (\<lambda>opt c. opt c) opts d) = v"
proof (induction opts arbitrary: d)
  case (Cons opt opts)
  show ?case
  proof (cases "\<forall>d. f (opt d) = v")
    case True
    then show ?thesis using Cons.prems(2) fold_keeps [of f "opt d" v opts] by simp
  next
    case False
    with Cons.prems have "\<exists>opt \<in> set opts. \<forall>d. f (opt d) = v" by auto
    then show ?thesis using Cons.IH [of "opt d"] Cons.prems(2) by simp
  qed
qed simp

text \<open>
  \<open>New\<close> with the six options gives a pool with exactly these settings when they are sound,
  whatever the order of the options; the pool is empty and open. The first setting out of its
  range decides the error.
\<close>

lemma new_accepts_sound:
  assumes "sound_config c"
    and "set opts = {WithMinWorkerCount (cfg_min c), WithMaxWorkerCount (cfg_max c),
      WithPollingFrequency (pollingFreq c), WithMaxLoad (maxLoad c), WithMinLoad (minLoad c),
      WithScalingCooldown (scalingCooldown c)}"
  shows "\<exists>p. New opts = Ok p \<and> cfg p = c \<and> ActiveWorkers p = 0 \<and> QueueSize p = 0 \<and> \<not> closed p"
proof -
  have "f (fold (\<lambda>opt c. opt c) opts d) = f c"
    if "f \<in> {cfg_min, cfg_max, pollingFreq, scalingCooldown}" for f :: "config \<Rightarrow> int" and d
    using that by (intro fold_sets) (auto simp: assms(2) option_defs)
  moreover have "f (fold (\<lambda>opt c. opt c) opts d) = f c"
    if "f \<in> {maxLoad, minLoad}" for f :: "config \<Rightarrow> float64" and d
    using that by (intro fold_sets) (auto simp: assms(2) option_defs)
  ultimately have "fold (\<lambda>opt c. opt c) opts default_config = c" by (intro config.equality) simp_all
  then show ?thesis
    using sound_validate [OF assms(1)] assms(1)
    by (simp add: New_def sound_config_def ActiveWorkers_def QueueSize_def)
qed

text \<open>
  \<open>New\<close> compares the counts and the frequency with zero only. Negative counts panic in
  \<open>make\<close>; a negative minimum gives a pool that starts no worker and never scales; a
  negative polling frequency crashes the autoscaler at its first step; and a NaN threshold passes
  every range check and disables growing.
\<close>

lemma new_accepts_unusable:
  "(New [WithMinWorkerCount (-2), WithMaxWorkerCount (-1)] :: (pool_error, 'v pool) outcome) = Panic MakeChanSize
   \<and> (\<exists>p :: 'v pool. New [WithMinWorkerCount (-1)] = Ok p
        \<and> (\<exists>q. Start (launch p) = Ok q \<and> spawned q = [] \<and> to_spawn q = 0))
   \<and> (\<exists>p :: 'v pool. New [WithPollingFrequency (-1)] = Ok p
        \<and> (\<exists>q. exec pool_step [CallStart, AtScaler NewTicker] (launch p) = Some q
             \<and> crashed q = Some NonPositiveTicker))
   \<and> (\<exists>p :: 'v pool. New [WithMaxLoad NaN] = Ok p
        \<and> (\<forall>active busy now last'. scale_decision (cfg p) active busy now last' \<noteq> Grow))"
  by (simp add: New_def default_defs option_defs validate_def launch_def pool.defs pool_run.defs
      Start_def scale_decision_def Let_def numeral_3_eq_3 spawn_def)

end
