(* ===== verification/Worker_Queue.thy ===== *)
theory Worker_Queue
  imports Worker_Claims
begin

text \<open>
  An abstract specification of the worker pool: a bounded queue that hands out items in the order
  they were accepted, to at most as many takers at a time as it has room. Every interleaving of a
  pool is a run of it, if one looks only at the steps that move an item (\<open>queue_view\<close>).
\<close>

section \<open>The specification\<close>

record 'v work_queue =
  queued :: "'v list"
  room :: int
  shut :: bool
  inhand :: "'v multiset"    \<comment> \<open>taken, the handler not yet called\<close>
  atwork :: "'v multiset"    \<comment> \<open>with the handler\<close>

datatype 'v queue_action = Accept 'v | Shut | Take 'v | Work 'v | Finish 'v | Lose 'v

fun queue_step :: "('v queue_action, 'v work_queue) step" where
  "queue_step (Accept v) q =
     (if \<not> shut q \<and> int (length (queued q)) < room q then Some (q\<lparr>queued := queued q @ [v]\<rparr>) else None)"
| "queue_step Shut q = (if shut q then None else Some (q\<lparr>shut := True\<rparr>))"
| "queue_step (Take v) q =
     (if queued q \<noteq> [] \<and> hd (queued q) = v \<and> int (size (inhand q) + size (atwork q)) < room q
      then Some (q\<lparr>queued := tl (queued q), inhand := add_mset v (inhand q)\<rparr>) else None)"
| "queue_step (Work v) q =
     (if v \<in># inhand q then Some (q\<lparr>inhand := inhand q - {#v#}, atwork := add_mset v (atwork q)\<rparr>) else None)"
| "queue_step (Finish v) q = (if v \<in># atwork q then Some (q\<lparr>atwork := atwork q - {#v#}\<rparr>) else None)"
| "queue_step (Lose v) q =
     (if shut q \<and> queued q = [] \<and> v \<in># inhand q then Some (q\<lparr>inhand := inhand q - {#v#}\<rparr>) else None)"

definition queue_start :: "'v work_queue \<Rightarrow> bool" where
  "queue_start q \<longleftrightarrow> queued q = [] \<and> \<not> shut q \<and> inhand q = {#} \<and> atwork q = {#} \<and> 0 < room q"

fun accepts :: "'v queue_action list \<Rightarrow> 'v list" where
  "accepts [] = []"
| "accepts (Accept v # as) = v # accepts as"
| "accepts (_ # as) = accepts as"

fun takes :: "'v queue_action list \<Rightarrow> 'v list" where
  "takes [] = []"
| "takes (Take v # as) = v # takes as"
| "takes (_ # as) = takes as"

fun works :: "'v queue_action list \<Rightarrow> 'v list" where
  "works [] = []"
| "works (Work v # as) = v # works as"
| "works (_ # as) = works as"

lemma works_append [simp]: "works (as @ bs) = works as @ works bs"
  by (induction as rule: works.induct) simp_all

lemma accepts_append [simp]: "accepts (as @ bs) = accepts as @ accepts bs"
  by (induction as rule: accepts.induct) simp_all

text \<open>First in, first out: what was accepted is what was taken, in this order, and then what is queued.\<close>

lemma queue_fifo: "exec queue_step as q = Some q' \<Longrightarrow> queued q @ accepts as = takes as @ queued q'"
proof (induction as arbitrary: q)
  case (Cons a as)
  then obtain q1 where "queue_step a q = Some q1" "exec queue_step as q1 = Some q'" by (auto split: option.splits)
  with Cons.IH [of q1] show ?case by (cases a) (auto split: if_splits simp: neq_Nil_conv)
qed simp

definition queue_fine :: "'v work_queue \<Rightarrow> bool" where
  "queue_fine q \<longleftrightarrow> int (length (queued q)) \<le> room q \<and> int (size (inhand q) + size (atwork q)) \<le> room q"

interpretation queue: invariant_of queue_step queue_start queue_fine
proof
  show "queue_start q \<Longrightarrow> queue_fine q" for q :: "'a work_queue"
    by (simp add: queue_start_def queue_fine_def)
  show "queue_fine q \<Longrightarrow> queue_step a q = Some q' \<Longrightarrow> queue_fine q'" for a and q q' :: "'a work_queue"
    by (cases a) (auto simp: queue_fine_def dest!: multi_member_split split: if_splits)
qed

section \<open>The pool seen as a queue\<close>

fun with_handler :: "'v worker_pc \<Rightarrow> 'v multiset" where
  "with_handler (WHandle v) = {#v#}"
| "with_handler _ = {#}"

definition as_queue :: "'v pool_run \<Rightarrow> 'v work_queue" where
  "as_queue p = \<lparr>queued = dataCh p, room = cfg_max (cfg p), shut = dataClosed p,
     inhand = holding held (spawned p), atwork = holding with_handler (spawned p)\<rparr>"

fun queue_view :: "'v pool_event \<Rightarrow> 'v pool_run \<Rightarrow> 'v queue_action option" where
  "queue_view (AtSubmit Send i) p =
     (case submits p ! i of SubSelect v \<Rightarrow> if dataClosed p then None else Some (Accept v) | _ \<Rightarrow> None)"
| "queue_view (AtClose CloseChan i) p = (if dataClosed p then None else Some Shut)"
| "queue_view (AtWorker Receive i) p = (case dataCh p of [] \<Rightarrow> None | v # _ \<Rightarrow> Some (Take v))"
| "queue_view (AtWorker LoadStopping i) p =
     (case spawned p ! i of WGot v \<Rightarrow> if stopping p then Some (Lose v) else None | _ \<Rightarrow> None)"
| "queue_view (AtWorker Begin i) p = (case spawned p ! i of WBegin v \<Rightarrow> Some (Work v) | _ \<Rightarrow> None)"
| "queue_view (AtWorker (HandlerReturns e) i) p = (case spawned p ! i of WHandle v \<Rightarrow> Some (Finish v) | _ \<Rightarrow> None)"
| "queue_view _ p = None"

definition simulated :: "'v pool_event \<Rightarrow> 'v pool_run \<Rightarrow> 'v pool_run \<Rightarrow> bool" where
  "simulated e p p' \<longleftrightarrow> (case queue_view e p of None \<Rightarrow> as_queue p' = as_queue p
     | Some a \<Rightarrow> queue_step a (as_queue p) = Some (as_queue p'))"

text \<open>A worker at its select is active and holds no item, so there is room for one more.\<close>

lemma busy_le_active: "int (size (holding held ws) + size (holding with_handler ws)) \<le> tally counted ws"
proof (induction ws)
  case (Cons w ws)
  then show ?case by (cases w) simp_all
qed simp

lemma select_has_room:
  assumes "counters_ok p" and "i < length (spawned p)" and "spawned p ! i = WSelect"
  shows "int (size (holding held (spawned p)) + size (holding with_handler (spawned p))) < cfg_max (cfg p)"
proof -
  let ?ws = "(spawned p)[i := WDone]"
  have "holding held ?ws = holding held (spawned p)" "holding with_handler ?ws = holding with_handler (spawned p)"
    using assms(2,3) by (simp_all add: holding_update_same)
  moreover have "tally counted ?ws = tally counted (spawned p) - 1" using assms(2,3) by (simp add: tally_update)
  ultimately show ?thesis using busy_le_active [of ?ws] assms(1) by (simp add: counters_ok_def)
qed

lemma held_mem: "i < length ws \<Longrightarrow> f (ws ! i) = {#v#} \<Longrightarrow> v \<in># holding f ws"
  by (induction ws arbitrary: i) (auto simp: nth_Cons split: nat.splits)

lemma holding_update_minus:
  "i < length xs \<Longrightarrow> f (xs ! i) = {#v#} \<Longrightarrow> f y = {#} \<Longrightarrow> holding f (xs[i := y]) = holding f xs - {#v#}"
  using holding_update_drop [of i xs f y] by simp

lemmas held_updates = holding_update_same holding_update_take holding_update_minus held_mem

lemma worker_simulated:
  assumes ok: "counters_ok p" "channel_ok p" and i: "i < length (spawned p)" and step: "worker_loop e i p = Some p'"
  shows "simulated (AtWorker e i) p p'"
proof (cases e)
  case Receive
  then have pc: "spawned p ! i = WSelect" using step by (cases "spawned p ! i") simp_all
  show ?thesis
    using step Receive pc i select_has_room [OF ok(1) i pc]
    by (auto simp: simulated_def as_queue_def held_updates split: list.splits if_splits)
next
  case LoadStopping
  then obtain d where pc: "spawned p ! i = WGot d" using step by (cases "spawned p ! i") simp_all
  have "stopping p \<Longrightarrow> dataClosed p \<and> dataCh p = []" using ok(2) by (simp add: channel_ok_def drain_ok_def)
  then show ?thesis
    using step LoadStopping pc i by (auto simp: simulated_def as_queue_def held_updates split: if_splits)
next
  case Begin
  then obtain d where pc: "spawned p ! i = WBegin d" using step by (cases "spawned p ! i") simp_all
  then show ?thesis using step Begin i by (auto simp: simulated_def as_queue_def held_updates)
next
  case (HandlerReturns err)
  then obtain d where pc: "spawned p ! i = WHandle d" using step by (cases "spawned p ! i") simp_all
  then show ?thesis using step HandlerReturns i by (auto simp: simulated_def as_queue_def held_updates)
qed (use step i in \<open>auto simp: simulated_def as_queue_def holding_update_same split: worker_pc.splits if_splits option.splits\<close>)

lemma pool_simulated:
  assumes "counters_ok p" and "channel_ok p" and "pool_step e p = Some p'"
  shows "simulated e p p'"
proof (cases e)
  case (AtWorker ev i)
  then show ?thesis using assms worker_simulated by (auto simp: not_le split: if_splits)
next
  case (AtSubmit ev i)
  then show ?thesis using assms(3)
    by (cases ev) (auto simp: simulated_def as_queue_def split: submit_pc.splits if_splits)
next
  case (AtClose ev i)
  then show ?thesis using assms(3)
    by (cases ev) (auto simp: simulated_def as_queue_def split: closer_pc.splits if_splits)
next
  case (AtScaler ev)
  then show ?thesis using assms(3)
    by (cases ev) (auto simp: simulated_def as_queue_def spawn_def split: scaler_pc.splits nat.splits decision.splits if_splits)
next
  case CallStart
  then show ?thesis using assms(3) by (auto simp: simulated_def Start_def as_queue_def split: if_splits)
next
  case StartSpawn
  then show ?thesis using assms(3)
    by (auto simp: simulated_def start_spawn_def as_queue_def spawn_def split: if_splits nat.splits)
qed (use assms(3) in \<open>auto simp: simulated_def as_queue_def split: if_splits\<close>)

interpretation pool_queue: simulates pool_step pool_start "\<lambda>p. counters_ok p \<and> channel_ok p"
    queue_step queue_start as_queue queue_view
proof
  show "counters_ok p \<and> channel_ok p" if "pool_start p" for p :: "'a pool_run"
    using that counters.inv_start channel.inv_start by blast
  show "counters_ok p' \<and> channel_ok p'" if "counters_ok p \<and> channel_ok p" "pool_step e p = Some p'" for e and p p' :: "'a pool_run"
    using that pool_step_counters pool_step_channel by blast
  show "queue_start (as_queue p)" if "pool_start p" for p :: "'a pool_run"
    using that pool_start_cfg [OF that] by (simp add: queue_start_def as_queue_def pool_start_fields)
  show "case queue_view e p of None \<Rightarrow> as_queue p' = as_queue p | Some a \<Rightarrow> queue_step a (as_queue p) = Some (as_queue p')"
    if "counters_ok p \<and> channel_ok p" "pool_step e p = Some p'" for e and p p' :: "'a pool_run"
    using pool_simulated that by (auto simp: simulated_def)
qed

section \<open>Properties\<close>

lemma history_step:
  assumes "pool_step e p = Some p'"
  shows "accepted p' = accepted p @ accepts (case queue_view e p of None \<Rightarrow> [] | Some a \<Rightarrow> [a])
    \<and> handled p' = handled p @ works (case queue_view e p of None \<Rightarrow> [] | Some a \<Rightarrow> [a])"
proof (cases e)
  case (AtWorker ev i)
  then show ?thesis using assms
    by (cases ev; cases "spawned p ! i") (auto split: if_splits list.splits)
next
  case (AtSubmit ev i)
  then show ?thesis using assms by (cases ev) (auto split: submit_pc.splits if_splits)
next
  case (AtClose ev i)
  then show ?thesis using assms by (cases ev) (auto split: closer_pc.splits if_splits)
next
  case (AtScaler ev)
  then show ?thesis using assms
    by (cases ev) (auto simp: spawn_def split: scaler_pc.splits nat.splits decision.splits if_splits)
next
  case CallStart
  then show ?thesis using assms by (auto simp: Start_def split: if_splits)
next
  case StartSpawn
  then show ?thesis using assms by (auto simp: start_spawn_def spawn_fields split: if_splits nat.splits)
qed (use assms in \<open>auto split: if_splits\<close>)

lemma history_exec:
  "exec pool_step es p = Some q \<Longrightarrow> accepted q = accepted p @ accepts (visible pool_step queue_view es p)
     \<and> handled q = handled p @ works (visible pool_step queue_view es p)"
proof (induction es arbitrary: p)
  case (Cons e es)
  then obtain p1 where "pool_step e p = Some p1" "exec pool_step es p1 = Some q" by (auto split: option.splits)
  with Cons.IH [of p1] history_step [of e p p1] show ?case by simp
qed simp

text \<open>
  C3. A worker pool refines a bounded first-in-first-out queue. In every interleaving its steps that
  move an item are steps of the queue: items are accepted while the queue is open and has room, are
  taken in the order in which they were accepted, at most \<open>max\<close> of them are with workers at a time,
  the handler is called on items that were taken, and an item is given up only after the queue was
  shut and emptied. The histories of the pool are those of the queue.
\<close>

theorem pool_refines_queue:
  assumes "pool_start p" and "exec pool_step es p = Some q"
  shows "exec queue_step (visible pool_step queue_view es p) (as_queue p) = Some (as_queue q)
    \<and> accepted q = takes (visible pool_step queue_view es p) @ dataCh q
    \<and> handled q = works (visible pool_step queue_view es p)
    \<and> int (size (holding held (spawned q)) + size (holding with_handler (spawned q))) \<le> cfg_max (cfg q)"
proof -
  let ?tr = "visible pool_step queue_view es p"
  have run: "exec queue_step ?tr (as_queue p) = Some (as_queue q)"
    by (rule pool_queue.sim_exec [OF pool_queue.inv_start [OF assms(1)] assms(2)])
  have "queue_fine (as_queue q)"
    by (rule queue.inv_exec [OF queue.inv_start [OF pool_queue.sim_start [OF assms(1)]] run])
  then show ?thesis
    using run queue_fifo [OF run] history_exec [OF assms(2)] pool_start_fields [OF assms(1)]
    by (simp add: queue_fine_def as_queue_def)
qed

definition two_items :: "nat pool_event list" where
  "two_items = [CallStart, StartSpawn, StartSpawn, AtWorker Load 0, AtWorker CAS 0, AtWorker Load 1, AtWorker CAS 1,
     CallSubmit 7, AtSubmit LoadClosed 0, AtSubmit Send 0, CallSubmit 8, AtSubmit LoadClosed 1, AtSubmit Send 1,
     AtWorker Receive 1, AtWorker Receive 0, AtWorker LoadStopping 0, AtWorker Begin 0]"

theorem pool_refines_queue_witness:
  "\<exists>q :: nat pool_run. exec pool_step two_items (idle_run default_config) = Some q
     \<and> accepted q = [7, 8] \<and> takes (visible pool_step queue_view two_items (idle_run default_config)) = [7, 8]
     \<and> handled q = works (visible pool_step queue_view two_items (idle_run default_config)) \<and> handled q = [8]"
proof -
  have "\<exists>q. exec pool_step two_items (idle_run default_config) = Some q \<and> accepted q = [7, 8] \<and> dataCh q = [] \<and> handled q = [8]"
    by (simp add: two_items_def run_simps numeral_3_eq_3)
  then obtain q where q: "exec pool_step two_items (idle_run default_config) = Some q" "accepted q = [7, 8]" "dataCh q = []"
    "handled q = [8]" by blast
  then have "accepted q = takes (visible pool_step queue_view two_items (idle_run default_config)) @ dataCh q"
    "handled q = works (visible pool_step queue_view two_items (idle_run default_config))"
    using pool_refines_queue [OF pool_start_default q(1)] by blast+
  then show ?thesis using q by (intro exI [of _ q]) (metis append_Nil2)
qed

end
