(* ===== verification/Worker_Drain.thy ===== *)
theory Worker_Drain
  imports Worker_Claims
begin

text \<open>
  Whether accepted items are handled in the end: one worker in its loop can empty the queue by
  itself, in a bounded number of steps; and a pool that has lost its last worker never handles an
  item again, whatever is called on it.
\<close>

section \<open>A worker empties the queue\<close>

text \<open>A worker in its loop, when its handler has not failed, and the item it has still to pass to the handler.\<close>

fun in_loop :: "'v worker_pc \<Rightarrow> bool" where
  "in_loop WSelect = True"
| "in_loop (WGot v) = True"
| "in_loop (WBegin v) = True"
| "in_loop (WHandle v) = True"
| "in_loop (WHandled r) = (r = None)"
| "in_loop _ = False"

fun in_hand :: "'v worker_pc \<Rightarrow> 'v list" where
  "in_hand (WGot v) = [v]"
| "in_hand (WBegin v) = [v]"
| "in_hand _ = []"

text \<open>The run of worker \<open>i\<close> from its program point to its next select, and through one more item.\<close>

fun to_select :: "'v worker_pc \<Rightarrow> worker_event list" where
  "to_select (WGot v) = [LoadStopping, Begin, HandlerReturns None, EndBusy]"
| "to_select (WBegin v) = [Begin, HandlerReturns None, EndBusy]"
| "to_select (WHandle v) = [HandlerReturns None, EndBusy]"
| "to_select (WHandled r) = [EndBusy]"
| "to_select _ = []"

definition one_item :: "worker_event list" where
  "one_item = [Receive, LoadStopping, Begin, HandlerReturns None, EndBusy]"

definition drain_run :: "nat \<Rightarrow> 'v pool_run \<Rightarrow> 'v pool_event list" where
  "drain_run i p = map (\<lambda>e. AtWorker e i)
     (to_select (spawned p ! i) @ concat (replicate (length (dataCh p)) one_item))"

text \<open>Worker \<open>i\<close> is alone at work: it is at its select and nothing stops it.\<close>

definition at_select :: "nat \<Rightarrow> 'v pool_run \<Rightarrow> bool" where
  "at_select i p \<longleftrightarrow> i < length (spawned p) \<and> spawned p ! i = WSelect \<and> crashed p = None \<and> \<not> stopping p"

lemma reaches_select:
  assumes "i < length (spawned p)" and "in_loop (spawned p ! i)" and "crashed p = None" and "\<not> stopping p"
  shows "\<exists>q. exec pool_step (map (\<lambda>e. AtWorker e i) (to_select (spawned p ! i))) p = Some q \<and> at_select i q
    \<and> dataCh q = dataCh p \<and> handled q = handled p @ in_hand (spawned p ! i)"
  using assms by (cases "spawned p ! i") (auto simp: at_select_def)

lemma handles_one:
  assumes "at_select i p" and "dataCh p = d # ds"
  shows "\<exists>q. exec pool_step (map (\<lambda>e. AtWorker e i) one_item) p = Some q \<and> at_select i q \<and> dataCh q = ds
    \<and> handled q = handled p @ [d]"
  using assms by (auto simp: one_item_def at_select_def)

lemma handles_all:
  assumes "at_select i p"
  shows "\<exists>q. exec pool_step (map (\<lambda>e. AtWorker e i) (concat (replicate (length (dataCh p)) one_item))) p = Some q
    \<and> at_select i q \<and> dataCh q = [] \<and> handled q = handled p @ dataCh p"
  using assms
proof (induction "dataCh p" arbitrary: p)
  case Nil
  then show ?case by simp
next
  case (Cons d ds)
  obtain q where q: "exec pool_step (map (\<lambda>e. AtWorker e i) one_item) p = Some q" "at_select i q" "dataCh q = ds"
    "handled q = handled p @ [d]" using handles_one [OF Cons.prems] Cons.hyps(2) by metis
  obtain r where "exec pool_step (map (\<lambda>e. AtWorker e i) (concat (replicate (length ds) one_item))) q = Some r"
    "at_select i r" "dataCh r = []" "handled r = handled q @ ds" using Cons.hyps(1) [of q] q(2,3) by auto
  then show ?case using q Cons.hyps(2) [symmetric] by (simp add: exec_append)
qed

text \<open>
  C11. Items do not get stuck while a worker is left: from every reachable state of a pool that is not
  stopping, any worker that is in its loop can pass its own item and then all queued items to the
  handler, in the order of the queue, by its own steps alone; five steps per item are enough if
  the handler returns nil.
\<close>

theorem pool_drains:
  assumes "reachable pool_step pool_start p" and "crashed p = None" and "\<not> stopping p"
    and "i < length (spawned p)" and "in_loop (spawned p ! i)"
  shows "\<exists>q. exec pool_step (drain_run i p) p = Some q \<and> dataCh q = [] \<and> spawned q ! i = WSelect
    \<and> handled q = handled p @ in_hand (spawned p ! i) @ dataCh p
    \<and> int (length (drain_run i p)) \<le> 5 * (cfg_max (cfg p) + 1)"
proof -
  obtain r where r: "exec pool_step (map (\<lambda>e. AtWorker e i) (to_select (spawned p ! i))) p = Some r" "at_select i r"
    "dataCh r = dataCh p" "handled r = handled p @ in_hand (spawned p ! i)" using reaches_select [OF assms(4,5,2,3)] by blast
  obtain q where q: "exec pool_step (map (\<lambda>e. AtWorker e i) (concat (replicate (length (dataCh p)) one_item))) r = Some q"
    "at_select i q" "dataCh q = []" "handled q = handled r @ dataCh p" using handles_all [OF r(2)] r(3) by auto
  have "length (to_select (spawned p ! i)) \<le> 5" by (cases "spawned p ! i") simp_all
  moreover have "length (concat (replicate n one_item)) = 5 * n" for n by (induction n) (simp_all add: one_item_def)
  moreover have "int (length (dataCh p)) \<le> cfg_max (cfg p)"
    using counters.inv_reachable [OF assms(1)] by (simp add: counters_ok_def)
  ultimately have "int (length (drain_run i p)) \<le> 5 * (cfg_max (cfg p) + 1)" by (simp add: drain_run_def)
  then show ?thesis using r(1,4) q by (simp add: drain_run_def exec_append at_select_def)
qed

definition backlog :: "nat pool_event list" where
  "backlog = busy_events @ [CallSubmit 8, AtSubmit LoadClosed 1, AtSubmit Send 1, CallSubmit 9, AtSubmit LoadClosed 2, AtSubmit Send 2]"

theorem pool_drains_witness:
  "\<exists>p q :: nat pool_run. exec pool_step backlog (idle_run default_config) = Some p \<and> dataCh p = [8, 9] \<and> handled p = [7]
     \<and> exec pool_step (drain_run 0 p) p = Some q \<and> dataCh q = [] \<and> handled q = [7, 8, 9]"
proof -
  have "\<exists>p. exec pool_step backlog (idle_run default_config) = Some p \<and> dataCh p = [8, 9] \<and> handled p = [7]
      \<and> crashed p = None \<and> \<not> stopping p \<and> 0 < length (spawned p) \<and> spawned p ! 0 = WHandle 7"
    by (simp add: backlog_def busy_events_def run_simps numeral_3_eq_3 numeral_2_eq_2)
  then obtain p where p: "exec pool_step backlog (idle_run default_config) = Some p" "dataCh p = [8, 9]" "handled p = [7]"
    "crashed p = None" "\<not> stopping p" "0 < length (spawned p)" "spawned p ! 0 = WHandle 7" by blast
  from pool_drains [OF exec_from_idle [OF p(1)] p(4-6)] p show ?thesis by auto
qed

section \<open>A pool without workers\<close>

text \<open>No worker is left or on its way, and the autoscaler has not seen one.\<close>

definition deserted :: "'v pool_run \<Rightarrow> bool" where
  "deserted p \<longleftrightarrow> (\<forall>w \<in> set (spawned p). w = WDone) \<and> to_spawn p = 0 \<and> activeWorkers p = 0
     \<and> (case scaler p of SNone \<Rightarrow> False | SLoaded a \<Rightarrow> a = 0 | SRead a b \<Rightarrow> a = 0 | _ \<Rightarrow> True)"

lemma deserted_stuck: "deserted p \<Longrightarrow> i < length (spawned p) \<Longrightarrow> worker_loop e i p = None"
proof -
  assume "deserted p" and "i < length (spawned p)"
  then have "spawned p ! i = WDone" using nth_mem by (fastforce simp: deserted_def)
  then show "worker_loop e i p = None" by (cases e) simp_all
qed

lemma deserted_scaler: "deserted p \<Longrightarrow> autoscaler e p = Some p' \<Longrightarrow> deserted p' \<and> handled p' = handled p"
  by (cases e; cases "scaler p") (auto simp: deserted_def scale_decision_def split: if_splits nat.splits)

lemma deserted_step:
  assumes "deserted p" and "pool_step e p = Some p'"
  shows "deserted p' \<and> handled p' = handled p"
proof (cases e)
  case (AtSubmit ev i)
  then show ?thesis using assms by (cases ev) (auto simp: deserted_def split: submit_pc.splits if_splits)
next
  case (AtClose ev i)
  then show ?thesis using assms by (cases ev) (auto simp: deserted_def split: closer_pc.splits if_splits)
next
  case (AtWorker ev i)
  then show ?thesis using assms deserted_stuck [OF assms(1), of i ev] by (auto simp: not_le split: if_splits)
next
  case (AtScaler ev)
  then show ?thesis using assms deserted_scaler by (auto split: if_splits)
qed (use assms in \<open>auto simp: deserted_def start_spawn_def split: if_splits\<close>)

lemma deserted_exec: "deserted p \<Longrightarrow> exec pool_step es p = Some q \<Longrightarrow> deserted q \<and> handled q = handled p"
proof (induction es arbitrary: p)
  case (Cons e es)
  then obtain p1 where "pool_step e p = Some p1" "exec pool_step es p1 = Some q" by (auto split: option.splits)
  with Cons.IH [of p1] deserted_step [OF Cons.prems(1)] show ?case by simp
qed simp

definition small_config :: config where
  "small_config = default_config\<lparr>cfg_min := 1, cfg_max := 2\<rparr>"

definition shrink_tick :: "int \<Rightarrow> 'v pool_event list" where
  "shrink_tick now = [AtScaler Tick, AtScaler LoadBusy, AtScaler (Decide now), AtScaler Token, AtScaler StoreTime]"

text \<open>
  Scale-down tokens of two ticks add up: with a minimum of one worker, two ticks that both
  see two idle workers each send a token, both workers take one and the pool is left with no
  active worker, below its minimum.
\<close>

definition starving_events :: "'v \<Rightarrow> 'v pool_event list" where
  "starving_events v = [CallStart, StartSpawn, AtScaler NewTicker, AtWorker Load 0, AtWorker CAS 0,
     CallSubmit v, AtSubmit LoadClosed 0, AtSubmit Send 0, AtWorker Receive 0, AtWorker LoadStopping 0, AtWorker Begin 0,
     AtScaler Tick, AtScaler LoadBusy, AtScaler (Decide 1000000000000),
     AtWorker Load 1, AtWorker CAS 1, AtWorker (HandlerReturns None) 0, AtWorker EndBusy 0]
     @ shrink_tick 1010000000000 @ shrink_tick 1020000000000 @
     [AtWorker Deflate 0, AtWorker Leave 0, AtWorker Deflate 1, AtWorker Leave 1,
      CallSubmit v, AtSubmit LoadClosed 1, AtSubmit Send 1]"

lemma small_config_valid: "validate small_config = Ok ()"
  by (simp add: small_config_def default_defs validate_def)

lemma pool_shrinks_below_minimum:
  "\<exists>p. exec pool_step (starving_events v) (idle_run small_config) = Some p \<and> deserted p \<and> QueueSize p = 1
     \<and> ActiveWorkers p < cfg_min (cfg p) \<and> \<not> closed p \<and> \<not> cancelled p \<and> crashed p = None"
  by (simp add: starving_events_def run_simps small_config_def shrink_tick_def scale_decision_def wrap64_small quot_def
      f64_div_self f64_div_zero ActiveWorkers_def QueueSize_def deserted_def)

text \<open>
  C39. An accepted item may never be handled, in two ways. It can be lost in an orderly shutdown: a
  worker has received the last item when another one finds the closed channel empty and sets
  \<open>stopping\<close>; the first one then returns without calling the handler, although \<open>Submit\<close> reported
  success and the context is not done. And a pool can starve: a running pool that is neither closed
  nor stopped can lose its last worker, with an accepted item in its queue; from then on no run
  whatever calls the handler again, since every tick of the autoscaler skips when no worker is active.
\<close>

theorem accepted_items_unhandled:
  "(\<exists>p. exec pool_step [CallStart, StartSpawn, StartSpawn, StartSpawn, AtWorker Load 0, AtWorker CAS 0, AtWorker Load 1,
       AtWorker CAS 1, CallSubmit v, AtSubmit LoadClosed 0, AtSubmit Send 0, AtWorker Receive 0,
       CallClose, AtClose CloseCAS 0, AtClose CloseChan 0, AtWorker Receive 1,
       AtWorker StoreStopping 1, AtWorker LoadStopping 0] (idle_run default_config) = Some p
     \<and> submits p = [SubDone None] \<and> accepted p = [v] \<and> handled p = [] \<and> dropped p = [v]
     \<and> \<not> cancelled p \<and> crashed p = None)
   \<and> (\<exists>p :: 'v pool_run. reachable pool_step pool_start p \<and> deserted p \<and> QueueSize p = 1 \<and> ActiveWorkers p < cfg_min (cfg p)
        \<and> \<not> closed p \<and> \<not> cancelled p \<and> crashed p = None)
   \<and> (deserted s \<longrightarrow> exec pool_step es s = Some t \<longrightarrow> deserted t \<and> handled t = handled s)"
proof (intro conjI impI)
  have start: "pool_start (idle_run small_config :: 'v pool_run)"
    by (rule idle_run_start [OF small_config_valid]) (simp_all add: small_config_def default_defs)
  obtain p :: "'v pool_run" where "exec pool_step (starving_events undefined) (idle_run small_config) = Some p"
    "deserted p" "QueueSize p = 1" "ActiveWorkers p < cfg_min (cfg p)" "\<not> closed p" "\<not> cancelled p" "crashed p = None"
    using pool_shrinks_below_minimum [where v = undefined] by (elim exE conjE) (rule that)
  moreover from this(1) have "reachable pool_step pool_start p" by (rule exec_from_start [OF start])
  ultimately show "\<exists>p :: 'v pool_run. reachable pool_step pool_start p \<and> deserted p \<and> QueueSize p = 1
        \<and> ActiveWorkers p < cfg_min (cfg p) \<and> \<not> closed p \<and> \<not> cancelled p \<and> crashed p = None"
    by blast
qed (use deserted_exec in blast | simp add: run_simps numeral_3_eq_3)+

theorem accepted_items_unhandled_witness:
  "\<exists>p q :: nat pool_run. QueueSize p = 1 \<and> \<not> cancelled p
     \<and> exec pool_step [CallSubmit 5, AtSubmit LoadClosed (length (submits p)), CallClose] p = Some q \<and> handled q = handled p"
proof -
  obtain p :: "nat pool_run" where p: "deserted p" "QueueSize p = 1" "\<not> closed p" "\<not> cancelled p" "crashed p = None"
    using accepted_items_unhandled [THEN conjunct2, THEN conjunct1] by blast
  let ?es = "[CallSubmit 5, AtSubmit LoadClosed (length (submits p)), CallClose]"
  obtain q where q: "exec pool_step ?es p = Some q" using p(5) by (simp add: nth_append)
  have "handled q = handled p" using accepted_items_unhandled [THEN conjunct2, THEN conjunct2, of p ?es q] p(1) q by blast
  then show ?thesis using p(2,4) q by blast
qed

end
