(* ===== verification/Go_Url.thy ===== *)
theory Go_Url
  imports Go_Hex
begin

text \<open>
  The parts of \<open>net/url\<close> and \<open>net\<close> behind a connection string: percent-encoding of the three
  URL components that occur, \<open>UserPassword\<close>, \<open>JoinHostPort\<close> and \<open>URL.String\<close> for a URL with a
  scheme, user, host, absolute path and optional query. The lemmas say that an encoded component
  has none of its delimiters and decodes to what was encoded.
\<close>

datatype url_mode = EncodeUserPassword | EncodeHost | EncodePath

definition alnum :: "char \<Rightarrow> bool" where
  "alnum c = (let n = of_char c :: nat in
     48 \<le> n \<and> n \<le> 57 \<or> 65 \<le> n \<and> n \<le> 90 \<or> 97 \<le> n \<and> n \<le> 122)"

definition shouldEscape :: "char \<Rightarrow> url_mode \<Rightarrow> bool" where
  "shouldEscape c mode =
     (if alnum c then False
      else if mode = EncodeHost \<and> c \<in> set ''!$&'' \<union> {CHR 0x27} \<union> set ''()*+,;=:[]<>'' \<union> {CHR 0x22} then False
      else if c \<in> set ''-_.~'' then False
      else if c \<in> set ''$&+,/:;=?@''
      then (case mode of
              EncodePath \<Rightarrow> c = CHR ''?''
            | EncodeUserPassword \<Rightarrow> c = CHR ''@'' \<or> c = CHR ''/'' \<or> c = CHR ''?'' \<or> c = CHR '':''
            | EncodeHost \<Rightarrow> True)
      else True)"

definition upperhex :: string where "upperhex = ''0123456789ABCDEF''"

definition escape_char :: "url_mode \<Rightarrow> char \<Rightarrow> string" where
  "escape_char mode c =
     (if shouldEscape c mode
      then let n = of_char c :: nat in [CHR ''%'', upperhex ! (n div 16), upperhex ! (n mod 16)]
      else [c])"

definition escape :: "string \<Rightarrow> url_mode \<Rightarrow> string" where
  "escape s mode = concat (map (escape_char mode) s)"

definition JoinHostPort :: "string \<Rightarrow> string \<Rightarrow> string" where
  "JoinHostPort host port =
     (if CHR '':'' \<in> set host then ''['' @ host @ '']:'' @ port else host @ '':'' @ port)"

definition UserPassword_String :: "string \<Rightarrow> string \<Rightarrow> string" where
  "UserPassword_String user password = escape user EncodeUserPassword @ '':'' @ escape password EncodeUserPassword"

text \<open>\<open>URL.String\<close> for a non-empty scheme and host and a path that starts with a slash.\<close>

definition URL_String :: "string \<Rightarrow> string \<Rightarrow> string \<Rightarrow> string \<Rightarrow> string \<Rightarrow> string" where
  "URL_String scheme userinfo host path rawQuery =
     scheme @ ''://'' @ userinfo @ ''@'' @ escape host EncodeHost @ escape path EncodePath
     @ (if rawQuery = [] then [] else ''?'' @ rawQuery)"

section \<open>Decoding\<close>

fun unescape :: "string \<Rightarrow> string" where
  "unescape [] = []"
| "unescape (c # s) =
     (if c = CHR ''%'' then (case s of
        a # b # s' \<Rightarrow> char_of (16 * the (hex_digit a) + the (hex_digit b)) # unescape (drop 2 s)
      | _ \<Rightarrow> [])
      else c # unescape s)"

lemma length_upperhex: "length upperhex = 16"
  by (simp add: upperhex_def)

lemma upperhex_digit: "n < 16 \<Longrightarrow> hex_digit (upperhex ! n) = Some n"
proof -
  have "\<forall>n \<in> set [0..<16]. hex_digit (upperhex ! n) = Some n"
    by (simp add: upperhex_def hex_digit_def upt_rec numeral_eq_Suc)
  then show "n < 16 \<Longrightarrow> hex_digit (upperhex ! n) = Some n" by simp
qed

lemma of_char_256: "(of_char c :: nat) < 256"
  by (metis of_char_mod_256 mod_less_divisor zero_less_numeral)

lemma of_char_nibble: "(of_char c :: nat) div 16 < 16"
  by (rule less_mult_imp_div_less) (use of_char_256 [of c] in simp)

lemma percent_escaped [simp]: "shouldEscape (CHR ''%'') mode"
  by (cases mode) (simp_all add: shouldEscape_def alnum_def)

lemma unescape_escape_char: "unescape (escape_char mode c @ s) = c # unescape s"
proof (cases "shouldEscape c mode")
  case True
  have "16 * (of_char c div 16) + of_char c mod 16 = (of_char c :: nat)" by simp
  then have "char_of (16 * (of_char c div 16) + of_char c mod 16 :: nat) = c" by simp
  moreover have "(of_char c :: nat) div 16 < 16" by (rule of_char_nibble)
  ultimately show ?thesis using True by (simp add: escape_char_def Let_def upperhex_digit)
next
  case False
  then have "c \<noteq> CHR ''%''" by auto
  then show ?thesis using False by (simp add: escape_char_def)
qed

lemma unescape_escape: "unescape (escape s mode @ t) = s @ unescape t"
  by (induction s) (simp_all add: escape_def unescape_escape_char)

text \<open>A character that is escaped and is neither the percent sign nor a digit does not occur.\<close>

lemma escape_avoids:
  assumes "shouldEscape d mode" and "d \<noteq> CHR ''%''" and "d \<notin> set upperhex"
  shows "d \<notin> set (escape s mode)"
proof -
  have "d \<notin> set (escape_char mode c)" for c
  proof (cases "shouldEscape c mode")
    case True
    have "(of_char c :: nat) div 16 < 16" by (rule of_char_nibble)
    then have "upperhex ! (of_char c div 16) \<in> set upperhex" "upperhex ! (of_char c mod 16) \<in> set upperhex"
      by (auto intro!: nth_mem simp: length_upperhex)
    then show ?thesis using True assms by (auto simp: escape_char_def Let_def)
  next
    case False
    then show ?thesis using assms(1) by (auto simp: escape_char_def)
  qed
  then show ?thesis by (auto simp: escape_def)
qed

lemma takeWhile_escape:
  assumes "d \<notin> set s"
  shows "takeWhile (\<lambda>c. c \<noteq> d) (s @ d # t) = s" and "dropWhile (\<lambda>c. c \<noteq> d) (s @ d # t) = d # t"
  using assms by (induction s) auto

end
