(* ===== verification/Graceful.thy ===== *)
theory Graceful
  imports Go_Url
begin

text \<open>
  The loops of \<open>src/graceful\<close>: \<open>Signals\<close> and \<open>WaitContext\<close> of \<open>graceful.go\<close>, \<open>worker.go\<close> and
  \<open>tiker.go\<close>. A loop that waits is a function of what it receives: the list of items or wake-ups
  so far; \<open>None\<close> means that it is still waiting. Errors are items of an arbitrary type;
  \<open>eris.Is\<close>, \<open>eris.Wrap\<close> and the error group are parameters.
\<close>

record 'e sentinels =
  ErrShutdownBySignal :: 'e
  ErrTickerFailure :: 'e
  ErrWorkerFailure :: 'e
  ErrServerClosed :: 'e
  ErrDeadlineExceeded :: 'e
  ctxErr :: 'e

section \<open>Signals and WaitContext\<close>

datatype signal_wake = Signalled | SignalCtxDone

text \<open>The select of \<open>Signals\<close> returns at its first wake-up.\<close>

fun Signals :: "'e sentinels \<Rightarrow> signal_wake list \<Rightarrow> 'e option option" where
  "Signals es [] = None"
| "Signals es (Signalled # _) = Some (Some (ErrShutdownBySignal es))"
| "Signals es (SignalCtxDone # _) = Some (Some (ctxErr es))"

text \<open>\<open>results\<close>: what the runners returned, in that order; \<open>wait\<close>: what the error group makes of it.\<close>

definition WaitContext :: "('e \<Rightarrow> 'e \<Rightarrow> bool) \<Rightarrow> ('e option \<Rightarrow> string \<Rightarrow> 'e option) \<Rightarrow> ('e option list \<Rightarrow> 'e option)
    \<Rightarrow> 'e sentinels \<Rightarrow> 'e option list \<Rightarrow> 'e option" where
  "WaitContext isErr wrap wait es results =
     (let err = wait results in
      if (case err of None \<Rightarrow> False | Some e \<Rightarrow> isErr e (ErrShutdownBySignal es)) then None
      else wrap err ''shutting down with error'')"

section \<open>Loggers\<close>

text \<open>A logger is the one that discards everything, or one of the caller's; a nil pointer is \<open>None\<close>.\<close>

datatype logger = Nop | Sink nat

datatype 'e runner_log = StartingTicker | RunnerFailed 'e | StoppedTicker

fun written :: "logger \<Rightarrow> 'l list \<Rightarrow> 'l list" where
  "written Nop ls = []"
| "written (Sink n) ls = ls"

record worker_cfg = worker_logger :: logger
record ticker_cfg = ticker_logger :: logger

definition WithWorkerLogger :: "logger option \<Rightarrow> worker_cfg \<Rightarrow> worker_cfg" where
  "WithWorkerLogger logger = (\<lambda>w. case logger of None \<Rightarrow> w | Some l \<Rightarrow> w\<lparr>worker_logger := l\<rparr>)"

definition WithTickerLogger :: "logger option \<Rightarrow> ticker_cfg \<Rightarrow> ticker_cfg" where
  "WithTickerLogger logger = (\<lambda>t. case logger of None \<Rightarrow> t | Some l \<Rightarrow> t\<lparr>ticker_logger := l\<rparr>)"

definition worker_config :: "(worker_cfg \<Rightarrow> worker_cfg) list \<Rightarrow> worker_cfg" where
  "worker_config opts = fold (\<lambda>opt w. opt w) opts \<lparr>worker_logger = Nop\<rparr>"

definition ticker_config :: "(ticker_cfg \<Rightarrow> ticker_cfg) list \<Rightarrow> ticker_cfg" where
  "ticker_config opts = fold (\<lambda>opt t. opt t) opts \<lparr>ticker_logger = Nop\<rparr>"

section \<open>Worker\<close>

text \<open>
  The loop over the channel: \<open>items\<close> are the items received so far, \<open>closed\<close> whether the
  channel was closed after them. The result comes with the items the runner was called on and
  the errors passed to the logger. The loop does not look at the context.
\<close>

fun range_loop :: "('e \<Rightarrow> 'e \<Rightarrow> bool) \<Rightarrow> 'e sentinels \<Rightarrow> ('v \<Rightarrow> 'e option) \<Rightarrow> bool \<Rightarrow> 'v list
    \<Rightarrow> 'e option option \<times> 'v list \<times> 'e list" where
  "range_loop isErr es runner closed [] = (if closed then Some None else None, [], [])"
| "range_loop isErr es runner closed (v # items) =
     (case runner v of
        None \<Rightarrow> (let (r, called, logged) = range_loop isErr es runner closed items in (r, v # called, logged))
      | Some err \<Rightarrow>
          if isErr err (ErrWorkerFailure es) then (Some (Some err), [v], [])
          else (let (r, called, logged) = range_loop isErr es runner closed items in (r, v # called, err # logged)))"

definition Worker :: "('e \<Rightarrow> 'e \<Rightarrow> bool) \<Rightarrow> 'e sentinels \<Rightarrow> (worker_cfg \<Rightarrow> worker_cfg) list \<Rightarrow> ('v \<Rightarrow> 'e option)
    \<Rightarrow> bool \<Rightarrow> 'v list \<Rightarrow> 'e option option \<times> 'v list \<times> 'e runner_log list" where
  "Worker isErr es opts runner closed items =
     (let (r, called, logged) = range_loop isErr es runner closed items
      in (r, called, written (worker_logger (worker_config opts)) (map RunnerFailed logged)))"

section \<open>Ticker\<close>

text \<open>A wake-up of the select: the context is done, or a tick with the result of the runner.\<close>

datatype 'e tick_wake = TickCtxDone | TickRun "'e option"

fun ticker_loop :: "('e \<Rightarrow> 'e \<Rightarrow> bool) \<Rightarrow> 'e sentinels \<Rightarrow> 'e tick_wake list \<Rightarrow> 'e option option \<times> 'e list" where
  "ticker_loop isErr es [] = (None, [])"
| "ticker_loop isErr es (TickCtxDone # _) = (Some (Some (ctxErr es)), [])"
| "ticker_loop isErr es (TickRun None # ws) = ticker_loop isErr es ws"
| "ticker_loop isErr es (TickRun (Some err) # ws) =
     (if isErr err (ErrTickerFailure es) then (Some (Some err), [])
      else let (r, logged) = ticker_loop isErr es ws in (r, err # logged))"

definition Ticker :: "('e \<Rightarrow> 'e \<Rightarrow> bool) \<Rightarrow> 'e sentinels \<Rightarrow> int \<Rightarrow> (ticker_cfg \<Rightarrow> ticker_cfg) list \<Rightarrow>
    ('f, 'e tick_wake list \<Rightarrow> 'e option option \<times> 'e runner_log list) outcome" where
  "Ticker isErr es interval opts =
     (if interval \<le> 0 then Panic (PanicValue ''interval must be greater than zero'')
      else Ok (\<lambda>wakes.
        let (r, logged) = ticker_loop isErr es wakes
        in (r, written (ticker_logger (ticker_config opts))
             (StartingTicker # map RunnerFailed logged @ (if r = None then [] else [StoppedTicker])))))"

section \<open>Properties\<close>

text \<open>An item whose error, if any, does not stop a worker; a wake-up that does not stop a ticker.\<close>

definition harmless :: "('e \<Rightarrow> 'e \<Rightarrow> bool) \<Rightarrow> 'e sentinels \<Rightarrow> ('v \<Rightarrow> 'e option) \<Rightarrow> 'v \<Rightarrow> bool" where
  "harmless isErr es runner v = (case runner v of None \<Rightarrow> True | Some e \<Rightarrow> \<not> isErr e (ErrWorkerFailure es))"

fun keeps_ticking :: "('e \<Rightarrow> 'e \<Rightarrow> bool) \<Rightarrow> 'e sentinels \<Rightarrow> 'e tick_wake \<Rightarrow> bool" where
  "keeps_ticking isErr es TickCtxDone = False"
| "keeps_ticking isErr es (TickRun r) = (case r of None \<Rightarrow> True | Some e \<Rightarrow> \<not> isErr e (ErrTickerFailure es))"

fun tick_error :: "'e tick_wake \<Rightarrow> 'e option" where
  "tick_error TickCtxDone = None"
| "tick_error (TickRun r) = r"

lemma range_loop_split:
  "range_loop isErr es runner closed items =
     (let ok = takeWhile (harmless isErr es runner) items in
      case dropWhile (harmless isErr es runner) items of
        [] \<Rightarrow> (if closed then Some None else None, items, List.map_filter runner ok)
      | v # _ \<Rightarrow> (Some (runner v), ok @ [v], List.map_filter runner ok))"
proof (induction items)
  case (Cons v items)
  have "harmless isErr es runner v = (case runner v of None \<Rightarrow> True
      | Some e \<Rightarrow> \<not> isErr e (ErrWorkerFailure es))"
    by (simp add: harmless_def)
  with Cons show ?case
    by (cases "runner v"; cases "dropWhile (harmless isErr es runner) items")
       (auto simp: List.map_filter_simps Let_def simp del: dropWhile_eq_Nil_conv)
qed (simp add: List.map_filter_simps)

lemma ticker_loop_split:
  "ticker_loop isErr es wakes =
     (let logged = List.map_filter tick_error (takeWhile (keeps_ticking isErr es) wakes) in
      case dropWhile (keeps_ticking isErr es) wakes of
        [] \<Rightarrow> (None, logged)
      | TickCtxDone # _ \<Rightarrow> (Some (Some (ctxErr es)), logged)
      | TickRun r # _ \<Rightarrow> (Some r, logged))"
proof (induction wakes)
  case (Cons w wakes)
  have *: "(let (r, logged) = (let l = f in case xs of [] \<Rightarrow> (None, l) | TickCtxDone # _ \<Rightarrow> (A, l) | TickRun r # _ \<Rightarrow> (Some r, l))
      in (r, err # logged))
     = (let l = err # f in case xs of [] \<Rightarrow> (None, l) | TickCtxDone # _ \<Rightarrow> (A, l) | TickRun r # _ \<Rightarrow> (Some r, l))"
    for f :: "'a list" and xs A err
    by (auto split: list.split tick_wake.split)
  show ?case
  proof (cases "keeps_ticking isErr es w")
    case True
    then show ?thesis
      using Cons by (cases w) (auto simp: List.map_filter_simps * split: option.splits)
  next
    case False
    then show ?thesis by (cases w) (auto simp: List.map_filter_simps split: option.splits)
  qed
qed (simp add: List.map_filter_simps)

text \<open>
  C36. Which errors stop a worker or a ticker: the runner is called on the received items in
  order, none left out, up to the first error that is a \<open>ErrWorkerFailure\<close> (a
  \<open>ErrTickerFailure\<close> for the ticker), which is returned; every other error is written to the
  configured logger, in order, and the loop goes on, so it never reaches the group. Without such
  a failure the worker returns nil when the channel is closed and not before, and the ticker
  returns the error of the context. A ticker needs a positive interval.
\<close>

theorem loops_stop_on_failure_only:
  "Worker isErr es wopts runner closed items =
     (let ok = takeWhile (harmless isErr es runner) items;
          log = written (worker_logger (worker_config wopts)) (map RunnerFailed (List.map_filter runner ok))
      in case dropWhile (harmless isErr es runner) items of
           [] \<Rightarrow> (if closed then Some None else None, items, log)
         | v # _ \<Rightarrow> (Some (runner v), ok @ [v], log))
   \<and> Ticker isErr es interval topts =
     (if interval \<le> 0 then Panic (PanicValue ''interval must be greater than zero'')
      else Ok (\<lambda>wakes.
        let errs = List.map_filter tick_error (takeWhile (keeps_ticking isErr es) wakes);
            log = (\<lambda>stop. written (ticker_logger (ticker_config topts)) (StartingTicker # map RunnerFailed errs @ stop))
        in case dropWhile (keeps_ticking isErr es) wakes of
             [] \<Rightarrow> (None, log [])
           | TickCtxDone # _ \<Rightarrow> (Some (Some (ctxErr es)), log [StoppedTicker])
           | TickRun r # _ \<Rightarrow> (Some r, log [StoppedTicker])))"
proof
  show "Worker isErr es wopts runner closed items =
     (let ok = takeWhile (harmless isErr es runner) items;
          log = written (worker_logger (worker_config wopts)) (map RunnerFailed (List.map_filter runner ok))
      in case dropWhile (harmless isErr es runner) items of
           [] \<Rightarrow> (if closed then Some None else None, items, log)
         | v # _ \<Rightarrow> (Some (runner v), ok @ [v], log))"
    by (cases "dropWhile (harmless isErr es runner) items")
       (simp_all add: Worker_def range_loop_split Let_def del: dropWhile_eq_Nil_conv)
qed (auto simp: Ticker_def ticker_loop_split Let_def fun_eq_iff simp del: dropWhile_eq_Nil_conv
      split: list.split tick_wake.split)

lemma nil_logger_ignored:
  "worker_config (WithWorkerLogger None # opts) = worker_config opts"
  "ticker_config (WithTickerLogger None # topts) = ticker_config topts"
  by (simp_all add: worker_config_def ticker_config_def WithWorkerLogger_def WithTickerLogger_def)

end
