(* ===== verification/Go_Errgroup.thy ===== *)
theory Go_Errgroup
  imports Go_Prelude
begin

text \<open>
  What the code relies on of \<open>golang.org/x/sync/errgroup\<close>, which several libraries use. The
  package is a parameter: \<open>wait\<close> is what \<open>Wait\<close> reports of the results of the goroutines, in the
  order they returned, and \<open>cancels\<close> whether the context of \<open>WithContext\<close> is cancelled by then.
  \<open>group_laws\<close> states its documented behaviour: \<open>Wait\<close> reports the first error, and the first
  error cancels the context.
\<close>

definition first_error :: "'e option list \<Rightarrow> 'e option" where
  "first_error rs = (case List.map_filter id rs of [] \<Rightarrow> None | e # _ \<Rightarrow> Some e)"

lemma first_error_simps [simp]:
  "first_error [] = None" "first_error (None # rs) = first_error rs" "first_error (Some e # rs) = Some e"
  by (simp_all add: first_error_def List.map_filter_simps)

lemma first_error_append:
  "first_error (rs @ ss) = (case first_error rs of None \<Rightarrow> first_error ss | Some e \<Rightarrow> Some e)"
proof (induction rs)
  case (Cons r rs)
  then show ?case by (cases r) simp_all
qed simp

lemma first_error_snoc [simp]:
  "first_error (rs @ [r]) = (case first_error rs of None \<Rightarrow> r | Some e \<Rightarrow> Some e)"
  by (cases r) (simp_all add: first_error_append split: option.split)

lemma first_error_None_iff: "first_error rs = None \<longleftrightarrow> (\<forall>r \<in> set rs. r = None)"
proof (induction rs)
  case (Cons r rs)
  then show ?case by (cases r) simp_all
qed simp

lemma first_error_Some_mem: "first_error rs = Some e \<Longrightarrow> Some e \<in> set rs"
proof (induction rs)
  case (Cons r rs)
  then show ?case by (cases r) simp_all
qed simp

definition group_laws :: "('e option list \<Rightarrow> 'e option) \<Rightarrow> ('e option list \<Rightarrow> bool) \<Rightarrow> bool" where
  "group_laws wait cancels \<longleftrightarrow> (\<forall>rs. wait rs = first_error rs) \<and> (\<forall>rs. cancels rs \<longleftrightarrow> first_error rs \<noteq> None)"

lemma group_lawsD: "group_laws wait cancels \<Longrightarrow> wait rs = first_error rs"
  "group_laws wait cancels \<Longrightarrow> cancels rs \<longleftrightarrow> first_error rs \<noteq> None"
  by (simp_all add: group_laws_def)

end
