(* ===== verification/Graceful_Group.thy ===== *)
theory Graceful_Group
  imports Graceful Go_Steps Go_Errgroup
begin

text \<open>
  \<open>WaitContext\<close> of \<open>src/graceful/graceful.go\<close> as an event system. A \<open>Runner\<close> is known to the
  group by its contract alone: the results it may return, before and after its context is over.
  \<open>runner_step\<close> is the system of one such runner, which the servers of \<open>Graceful_Servers\<close>
  refine; \<open>group_step\<close> is the group, where the context of the runners is over once the caller's
  context is or the error group cancels it (\<open>cancels\<close>, a parameter, as is \<open>wait\<close>).
\<close>

section \<open>One runner\<close>

type_synonym 'e contract = "bool \<Rightarrow> 'e option \<Rightarrow> bool"

record 'e runner_run =
  over :: bool
  ended :: "'e option option"

datatype 'e runner_event = CtxOver | Return "'e option"

fun runner_step :: "'e contract \<Rightarrow> ('e runner_event, 'e runner_run) step" where
  "runner_step c CtxOver s = Some (s\<lparr>over := True\<rparr>)"
| "runner_step c (Return r) s =
     (if ended s = None \<and> c (over s) r then Some (s\<lparr>ended := Some r\<rparr>) else None)"

definition runner_start :: "'e runner_run \<Rightarrow> bool" where
  "runner_start s \<longleftrightarrow> ended s = None"

text \<open>A runner that can return once its context is over.\<close>

definition responsive :: "'e contract \<Rightarrow> bool" where
  "responsive c \<longleftrightarrow> (\<exists>r. c True r)"

text \<open>
  The interface of a runner that is an event system of its own: \<open>ctx\<close> is whether its context is
  done, \<open>is_ctx\<close> the events that end it, \<open>ret\<close> what it has returned. Such a system refines
  \<open>runner_step\<close>: the end of the context and the return are what the group sees of it.
\<close>

definition returns_view :: "('e, 's) step \<Rightarrow> ('s \<Rightarrow> 'r option option) \<Rightarrow> ('e \<Rightarrow> bool) \<Rightarrow> 'e \<Rightarrow> 's \<Rightarrow> 'r runner_event option" where
  "returns_view step ret is_ctx e s =
     (if is_ctx e then Some CtxOver
      else case step e s of None \<Rightarrow> None
        | Some s' \<Rightarrow> (case ret s of Some r \<Rightarrow> None | None \<Rightarrow> map_option Return (ret s')))"

definition as_runner :: "('s \<Rightarrow> bool) \<Rightarrow> ('s \<Rightarrow> 'r option option) \<Rightarrow> 's \<Rightarrow> 'r runner_run" where
  "as_runner ctx ret s = \<lparr>over = ctx s, ended = ret s\<rparr>"

locale runner_system = invariant_of step start inv
  for step :: "('e, 's) step" and start and inv +
  fixes ctx :: "'s \<Rightarrow> bool" and ret :: "'s \<Rightarrow> 'r option option"
    and is_ctx :: "'e \<Rightarrow> bool" and promise :: "'r contract"
  assumes ret_start: "start s \<Longrightarrow> ret s = None"
    and ctx_step: "inv s \<Longrightarrow> step e s = Some s' \<Longrightarrow> ctx s' = (ctx s \<or> is_ctx e)"
    and ret_ctx: "inv s \<Longrightarrow> step e s = Some s' \<Longrightarrow> is_ctx e \<Longrightarrow> ret s' = ret s"
    and ret_once: "inv s \<Longrightarrow> step e s = Some s' \<Longrightarrow> ret s = Some r \<Longrightarrow> ret s' = Some r"
    and ret_promised: "inv s \<Longrightarrow> ret s = Some r \<Longrightarrow> promise (ctx s) r"
begin

lemma runner_sim:
  assumes "inv s" and "step e s = Some s'"
  shows "case returns_view step ret is_ctx e s of
      None \<Rightarrow> as_runner ctx ret s' = as_runner ctx ret s
    | Some a \<Rightarrow> runner_step promise a (as_runner ctx ret s) = Some (as_runner ctx ret s')"
proof (cases "is_ctx e")
  case True
  then show ?thesis using ctx_step [OF assms] ret_ctx [OF assms] by (simp add: returns_view_def as_runner_def)
next
  case False
  note same = ctx_step [OF assms]
  show ?thesis
  proof (cases "ret s")
    case None
    then show ?thesis
      using False same ret_promised [OF inv_step [OF assms]] assms(2)
      by (auto simp: returns_view_def as_runner_def split: option.split)
  next
    case (Some r)
    then show ?thesis
      using False same ret_once [OF assms] assms(2) by (simp add: returns_view_def as_runner_def)
  qed
qed

end

sublocale runner_system \<subseteq> simulates step start inv "runner_step promise" runner_start "as_runner ctx ret"
    "returns_view step ret is_ctx"
  using runner_sim ret_start by unfold_locales (simp_all add: runner_start_def as_runner_def)

context runner_system begin

lemma refines_runner:
  "start s \<Longrightarrow> exec step es s = Some t \<Longrightarrow>
     exec (runner_step promise) (visible step (returns_view step ret is_ctx) es s) (as_runner ctx ret s)
       = Some (as_runner ctx ret t)"
  by (rule sim_exec [OF inv_start])

end

definition signals_contract :: "'e sentinels \<Rightarrow> 'e contract" where
  "signals_contract es o' r \<longleftrightarrow> r = Some (ErrShutdownBySignal es) \<or> o' \<and> r = Some (ctxErr es)"

definition ticker_contract :: "('e \<Rightarrow> 'e \<Rightarrow> bool) \<Rightarrow> 'e sentinels \<Rightarrow> 'e contract" where
  "ticker_contract isErr es o' r \<longleftrightarrow>
     (\<exists>e. r = Some e \<and> isErr e (ErrTickerFailure es)) \<or> o' \<and> r = Some (ctxErr es)"

text \<open>A worker over a channel that is never closed; \<open>runner\<close> is the handler.\<close>

definition open_worker_contract ::
    "('e \<Rightarrow> 'e \<Rightarrow> bool) \<Rightarrow> 'e sentinels \<Rightarrow> (worker_cfg \<Rightarrow> worker_cfg) list \<Rightarrow> ('v \<Rightarrow> 'e option) \<Rightarrow> 'e contract" where
  "open_worker_contract isErr es opts runner o' r \<longleftrightarrow>
     (\<exists>items. fst (Worker isErr es opts runner False items) = Some r)"

lemma Signals_meets: "Signals es ws = Some r \<Longrightarrow> signals_contract es (SignalCtxDone \<in> set ws) r"
  by (induction es ws rule: Signals.induct) (auto simp: signals_contract_def)

lemma Ticker_meets:
  "fst (ticker_loop isErr es ws) = Some r \<Longrightarrow> ticker_contract isErr es (TickCtxDone \<in> set ws) r"
  by (induction isErr es ws rule: ticker_loop.induct)
     (auto simp: ticker_contract_def split: if_splits prod.splits)

lemma open_worker_never_returns:
  "(\<And>v. harmless isErr es runner v) \<Longrightarrow> \<not> open_worker_contract isErr es opts runner o' r"
proof -
  assume *: "\<And>v. harmless isErr es runner v"
  have "fst (range_loop isErr es runner False items) = None" for items
  proof (induction items)
    case (Cons v items)
    then show ?case using * [of v] by (auto simp: harmless_def split: option.splits prod.splits)
  qed simp
  then show ?thesis by (simp add: open_worker_contract_def Worker_def split_beta)
qed

section \<open>The group\<close>

record 'e group =
  parent_over :: bool
  members :: "'e option option list"
  results :: "'e option list"

datatype 'e group_event = CancelParent | Member nat "'e option"

definition group_over :: "('e option list \<Rightarrow> bool) \<Rightarrow> 'e group \<Rightarrow> bool" where
  "group_over cancels g \<longleftrightarrow> parent_over g \<or> cancels (results g)"

fun group_step :: "('e option list \<Rightarrow> bool) \<Rightarrow> 'e contract list \<Rightarrow> ('e group_event, 'e group) step" where
  "group_step cancels cs CancelParent g = Some (g\<lparr>parent_over := True\<rparr>)"
| "group_step cancels cs (Member i r) g =
     (if i < length (members g) \<and> members g ! i = None \<and> (cs ! i) (group_over cancels g) r
      then Some (g\<lparr>members := (members g)[i := Some r], results := results g @ [r]\<rparr>)
      else None)"

definition group_start :: "'e contract list \<Rightarrow> 'e group \<Rightarrow> bool" where
  "group_start cs g \<longleftrightarrow> members g = replicate (length cs) None \<and> results g = []"

definition WaitContext_returns :: "('e \<Rightarrow> 'e \<Rightarrow> bool) \<Rightarrow> ('e option \<Rightarrow> string \<Rightarrow> 'e option)
    \<Rightarrow> ('e option list \<Rightarrow> 'e option) \<Rightarrow> 'e sentinels \<Rightarrow> 'e group \<Rightarrow> 'e option option" where
  "WaitContext_returns isErr wrap wait es g =
     (if list_all (\<lambda>m. m \<noteq> None) (members g) then Some (WaitContext isErr wrap wait es (results g)) else None)"

fun returned_by :: "'e group_event \<Rightarrow> 'e option option" where
  "returned_by CancelParent = None"
| "returned_by (Member i r) = Some r"

lemma group_exec_results:
  "exec (group_step cancels cs) es g = Some g' \<Longrightarrow>
     results g' = results g @ List.map_filter returned_by es \<and> length (members g') = length (members g)"
proof (induction es arbitrary: g)
  case (Cons e es)
  then obtain g1 where "group_step cancels cs e g = Some g1" "exec (group_step cancels cs) es g1 = Some g'"
    by (auto split: option.splits)
  with Cons.IH [of g1] show ?case by (cases e) (auto simp: List.map_filter_simps split: if_splits)
qed (simp add: List.map_filter_simps)

text \<open>The results are those of the runners that have returned, and a runner keeps its contract.\<close>

definition members_fine :: "'e contract list \<Rightarrow> 'e group \<Rightarrow> bool" where
  "members_fine cs g \<longleftrightarrow> length (members g) = length cs
     \<and> mset (results g) = mset (List.map_filter id (members g))
     \<and> (\<forall>i < length cs. \<forall>r. members g ! i = Some r \<longrightarrow> (\<exists>o'. (cs ! i) o' r))"

lemma mset_filled:
  "i < length ms \<Longrightarrow> ms ! i = None \<Longrightarrow>
     mset (List.map_filter id (ms[i := Some r])) = add_mset r (mset (List.map_filter id ms))"
proof (induction ms arbitrary: i)
  case (Cons m ms)
  then show ?case by (cases i; cases m) (auto simp: List.map_filter_simps)
qed simp

interpretation group: invariant_of "group_step cancels cs" "group_start cs" "members_fine cs"
  for cancels :: "'e option list \<Rightarrow> bool" and cs :: "'e contract list"
proof
  have "List.map_filter id (replicate n None) = []" for n :: nat
    by (induction n) (simp_all add: List.map_filter_simps)
  then show "group_start cs s \<Longrightarrow> members_fine cs s" for s :: "'e group"
    by (auto simp: group_start_def members_fine_def)
  show "members_fine cs s \<Longrightarrow> group_step cancels cs e s = Some s' \<Longrightarrow> members_fine cs s'" for s s' :: "'e group" and e
    by (cases e) (auto simp: members_fine_def mset_filled nth_list_update split: if_splits)
qed

lemma members_all_returned:
  "list_all (\<lambda>m. m \<noteq> None) ms \<Longrightarrow> map Some (List.map_filter id ms) = ms"
  by (induction ms) (auto simp: List.map_filter_simps)

section \<open>Properties\<close>

text \<open>
  \<open>WaitContext\<close> returns when every runner has, each once, and its result depends on the
  first error any of them returned, in the order they returned: nil when there is none or when
  it is the shutdown by signal, whatever the others return while they stop; any other error is
  wrapped and keeps its cause, even if a signal follows.
\<close>

lemma wait_context_result:
  assumes wrap_nil: "\<And>s. wrap None s = None"
    and wrap_some: "\<And>e s. \<exists>f. wrap (Some e) s = Some f \<and> isErr f e"
    and wait_first: "\<And>rs. wait rs = first_error rs"
    and run: "group_start cs g0" "exec (group_step cancels cs) evs g0 = Some g"
    and returns: "WaitContext_returns isErr wrap wait es g = Some r"
  shows "mset (map Some (List.map_filter returned_by evs)) = mset (members g)
    \<and> length (members g) = length cs
    \<and> (case first_error (List.map_filter returned_by evs) of
         None \<Rightarrow> r = None
       | Some e \<Rightarrow> if isErr e (ErrShutdownBySignal es) then r = None else \<exists>f. r = Some f \<and> isErr f e)"
proof -
  have fine: "members_fine cs g" and res: "results g = List.map_filter returned_by evs"
    using group.inv_exec [OF group.inv_start [OF run(1)] run(2)] group_exec_results [OF run(2)] run(1)
    by (auto simp: group_start_def)
  have all: "list_all (\<lambda>m. m \<noteq> None) (members g)" and r: "r = WaitContext isErr wrap wait es (results g)"
    using returns by (auto simp: WaitContext_returns_def split: if_splits)
  have "mset (map Some (results g)) = mset (members g)"
    using fine members_all_returned [OF all] by (simp add: members_fine_def) (metis mset_map)
  then show ?thesis
    using fine wrap_nil wrap_some
    by (auto simp: members_fine_def res r WaitContext_def wait_first Let_def split: option.split)
qed

definition demo_sentinels :: "string sentinels" where
  "demo_sentinels = \<lparr>ErrShutdownBySignal = ''signal'', ErrTickerFailure = ''ticker'', ErrWorkerFailure = ''worker'',
     ErrServerClosed = ''closed'', ErrDeadlineExceeded = ''deadline'', ctxErr = ''ctx''\<rparr>"

definition demo_contracts :: "string contract list" where
  "demo_contracts = [signals_contract demo_sentinels, ticker_contract (=) demo_sentinels]"

definition demo_group :: "string group" where
  "demo_group = \<lparr>parent_over = False, members = [None, None], results = []\<rparr>"

end
