(* ===== verification/Graceful_Servers.thy ===== *)
theory Graceful_Servers
  imports Graceful_Group
begin

text \<open>
  The runners that keep a server alive: \<open>http.go\<close>, \<open>grpc.go\<close> and \<open>cron.go\<close> of \<open>src/graceful\<close>.
  Each is an event system of the goroutines the runner starts, the server they share and its
  clients. \<open>net/http\<close> is modelled as documented: \<open>ListenAndServe\<close> fails or returns
  \<open>ErrServerClosed\<close> after \<open>Shutdown\<close>, which waits for the open connections or for its deadline.
  The gRPC and cron libraries and the error group are parameters. Every system refines the
  contract by which \<open>WaitContext\<close> knows its runners.
\<close>

section \<open>HTTP server\<close>

definition defaultHTTPPort :: string where "defaultHTTPPort = ''8080''"
definition defaultReadTimeout :: int where "defaultReadTimeout = 60 * 1000000000"
definition defaultWriteTimeout :: int where "defaultWriteTimeout = 60 * 1000000000"
definition shutdownTimeout :: int where "shutdownTimeout = 5 * 1000000000"

record server =
  Port :: string
  ReadTimeout :: int
  WriteTimeout :: int

type_synonym server_opt = "server \<Rightarrow> server"

definition WithPort :: "string \<Rightarrow> server_opt" where "WithPort p = (\<lambda>s. s\<lparr>Port := p\<rparr>)"
definition WithReadTimeout :: "int \<Rightarrow> server_opt" where "WithReadTimeout t = (\<lambda>s. s\<lparr>ReadTimeout := t\<rparr>)"
definition WithWriteTimeout :: "int \<Rightarrow> server_opt" where "WithWriteTimeout t = (\<lambda>s. s\<lparr>WriteTimeout := t\<rparr>)"

definition server_config :: "server_opt list \<Rightarrow> server" where
  "server_config opts = fold (\<lambda>opt s. opt s) opts
     \<lparr>Port = defaultHTTPPort, ReadTimeout = defaultReadTimeout, WriteTimeout = defaultWriteTimeout\<rparr>"

record 'h http_server =
  Addr :: string
  Handler :: 'h
  httpReadTimeout :: int
  httpWriteTimeout :: int
  MaxHeaderBytes :: int

definition Server_http :: "'h \<Rightarrow> server_opt list \<Rightarrow> 'h http_server" where
  "Server_http router opts =
     (let cfg = server_config opts in
      \<lparr>Addr = JoinHostPort ''0.0.0.0'' (Port cfg), Handler = router,
       httpReadTimeout = ReadTimeout cfg, httpWriteTimeout = WriteTimeout cfg, MaxHeaderBytes = 2 ^ 20\<rparr>)"

text \<open>
  The run of a server: whether the runner's context is done, the two goroutines, the server
  (\<open>Shutdown\<close> was called, open connections), the clock, and what the goroutines returned.
\<close>

datatype serve_pc = Serving | Served
datatype stop_pc = AwaitCtx | Draining int | Stopped

record 'e http_run =
  http_ctx :: bool
  serve :: serve_pc
  stop :: stop_pc
  inShutdown :: bool
  conns :: nat
  hijacked :: nat
  clock :: int
  http_results :: "'e option list"

datatype 'e http_event =
    HttpCtx              \<comment> \<open>the runner's context is done\<close>
  | ServeReturns 'e      \<comment> \<open>\<open>ListenAndServe\<close> returns\<close>
  | Connect              \<comment> \<open>a client's request arrives\<close>
  | Disconnect           \<comment> \<open>a request is finished\<close>
  | Hijack               \<comment> \<open>a handler takes its connection over from the server\<close>
  | BeginShutdown        \<comment> \<open>the group's context is done, \<open>Shutdown\<close> is called\<close>
  | Drained "'e option"  \<comment> \<open>\<open>Shutdown\<close> finds no connection open and returns\<close>
  | Expired              \<comment> \<open>the deadline of \<open>Shutdown\<close> has passed\<close>
  | Elapse int           \<comment> \<open>time passes\<close>

text \<open>The error \<open>ListenAndServe\<close> returns, as the first goroutine passes it on.\<close>

definition serve_result :: "('e \<Rightarrow> 'e \<Rightarrow> bool) \<Rightarrow> 'e sentinels \<Rightarrow> 'e \<Rightarrow> 'e option" where
  "serve_result isErr es err = (if isErr err (ErrServerClosed es) then None else Some err)"

text \<open>
  \<open>lerr\<close> tells the errors \<open>ListenAndServe\<close> may fail with (the port cannot be bound, or accepting
  fails), \<open>cerr\<close> those of closing the listener, which \<open>Shutdown\<close> returns once it has drained the
  server. It does not wait for hijacked connections.
\<close>

fun Server_step :: "('e \<Rightarrow> 'e \<Rightarrow> bool) \<Rightarrow> ('e option list \<Rightarrow> bool) \<Rightarrow> ('e \<Rightarrow> bool) \<Rightarrow> ('e \<Rightarrow> bool) \<Rightarrow> 'e sentinels
    \<Rightarrow> ('e http_event, 'e http_run) step" where
  "Server_step isErr cancels lerr cerr es HttpCtx s = Some (s\<lparr>http_ctx := True\<rparr>)"
| "Server_step isErr cancels lerr cerr es (ServeReturns err) s =
     (if serve s = Serving \<and> (lerr err \<or> inShutdown s \<and> err = ErrServerClosed es)
      then Some (s\<lparr>serve := Served, http_results := http_results s @ [serve_result isErr es err]\<rparr>) else None)"
| "Server_step isErr cancels lerr cerr es Connect s =
     (if serve s = Serving \<and> \<not> inShutdown s then Some (s\<lparr>conns := Suc (conns s)\<rparr>) else None)"
| "Server_step isErr cancels lerr cerr es Disconnect s =
     (if 0 < conns s then Some (s\<lparr>conns := conns s - 1\<rparr>) else None)"
| "Server_step isErr cancels lerr cerr es Hijack s =
     (if 0 < conns s then Some (s\<lparr>conns := conns s - 1, hijacked := Suc (hijacked s)\<rparr>) else None)"
| "Server_step isErr cancels lerr cerr es BeginShutdown s =
     (if stop s = AwaitCtx \<and> (http_ctx s \<or> cancels (http_results s))
      then Some (s\<lparr>stop := Draining (clock s + shutdownTimeout), inShutdown := True\<rparr>) else None)"
| "Server_step isErr cancels lerr cerr es (Drained err) s =
     (case stop s of Draining d \<Rightarrow>
        if conns s = 0 \<and> (case err of None \<Rightarrow> True | Some e \<Rightarrow> cerr e)
        then Some (s\<lparr>stop := Stopped, http_results := http_results s @ [err]\<rparr>) else None
      | _ \<Rightarrow> None)"
| "Server_step isErr cancels lerr cerr es Expired s =
     (case stop s of Draining d \<Rightarrow>
        if d \<le> clock s
        then Some (s\<lparr>stop := Stopped, http_results := http_results s @ [Some (ErrDeadlineExceeded es)]\<rparr>) else None
      | _ \<Rightarrow> None)"
| "Server_step isErr cancels lerr cerr es (Elapse t) s = (if 0 \<le> t then Some (s\<lparr>clock := clock s + t\<rparr>) else None)"

definition http_start :: "'e http_run \<Rightarrow> bool" where
  "http_start s \<longleftrightarrow> serve s = Serving \<and> stop s = AwaitCtx \<and> \<not> inShutdown s \<and> conns s = 0 \<and> http_results s = []"

text \<open>\<open>group.Wait()\<close> returns when both goroutines have.\<close>

definition Server_returns :: "('e option list \<Rightarrow> 'e option) \<Rightarrow> 'e http_run \<Rightarrow> 'e option option" where
  "Server_returns wait s = (if serve s = Served \<and> stop s = Stopped then Some (wait (http_results s)) else None)"

section \<open>Cron\<close>

text \<open>\<open>add\<close> is \<open>cr.AddFunc\<close> for the specification of a task.\<close>

fun add_tasks :: "('t \<Rightarrow> string option) \<Rightarrow> 't list \<Rightarrow> ('f, 't list) outcome" where
  "add_tasks add [] = Ok []"
| "add_tasks add (t # ts) =
     (case add t of Some err \<Rightarrow> Panic (PanicValue err) | None \<Rightarrow> map_ok ((#) t) (add_tasks add ts))"

record ('t, 'e) cron_run =
  entries :: "'t list"
  cron_ctx :: bool
  scheduling :: bool
  jobs :: "'t list"
  cron_ended :: "'e option option"

definition ScheduleRunner :: "('t \<Rightarrow> string option) \<Rightarrow> 't list \<Rightarrow> ('f, ('t, 'e) cron_run) outcome" where
  "ScheduleRunner add tasks =
     bind_out (add_tasks add tasks) (\<lambda>scheduled.
       Ok \<lparr>entries = scheduled, cron_ctx = False, scheduling = False, jobs = [], cron_ended = None\<rparr>)"

datatype cron_event =
    CronStart            \<comment> \<open>\<open>cr.Start()\<close>\<close>
  | Fire nat             \<comment> \<open>the scheduler starts the job of an entry\<close>
  | JobEnds nat          \<comment> \<open>a job returns\<close>
  | CronCtx              \<comment> \<open>the context is done\<close>
  | CronReturn           \<comment> \<open>\<open>ctx.Err()\<close> is returned and the deferred \<open>cr.Stop()\<close> runs\<close>

text \<open>
  The scheduler starts every job in a goroutine of its own; \<open>Stop\<close> stops the scheduler and
  returns a context to wait for the running jobs on, which the code does not use.
\<close>

fun Schedule_step :: "'e sentinels \<Rightarrow> (cron_event, ('t, 'e) cron_run) step" where
  "Schedule_step es CronStart s =
     (if cron_ended s = None \<and> \<not> scheduling s then Some (s\<lparr>scheduling := True\<rparr>) else None)"
| "Schedule_step es (Fire i) s =
     (if scheduling s \<and> i < length (entries s) then Some (s\<lparr>jobs := jobs s @ [entries s ! i]\<rparr>) else None)"
| "Schedule_step es (JobEnds j) s =
     (if j < length (jobs s) then Some (s\<lparr>jobs := take j (jobs s) @ drop (Suc j) (jobs s)\<rparr>) else None)"
| "Schedule_step es CronCtx s = Some (s\<lparr>cron_ctx := True\<rparr>)"
| "Schedule_step es CronReturn s =
     (if scheduling s \<and> cron_ctx s then Some (s\<lparr>scheduling := False, cron_ended := Some (Some (ctxErr es))\<rparr>) else None)"

definition cron_start :: "('t, 'e) cron_run \<Rightarrow> bool" where
  "cron_start s \<longleftrightarrow> \<not> scheduling s \<and> jobs s = [] \<and> cron_ended s = None"

section \<open>gRPC server\<close>

text \<open>
  A unary handler maps a request to a response or status error, or panics, and leaves log lines;
  an interceptor wraps a handler, given the name of the method.
\<close>

datatype log_line = ErrorLog go_panic | InfoLog string

datatype grpc_error = StatusInternal | StatusOther string

type_synonym ('q, 'a) unary = "'q \<Rightarrow> (grpc_error, 'a) outcome \<times> log_line list"
type_synonym ('q, 'a) interceptor = "string \<Rightarrow> ('q, 'a) unary \<Rightarrow> ('q, 'a) unary"

definition defaultGRPCPort :: string where "defaultGRPCPort = ''50051''"
definition defaultConnectionTimeout :: int where "defaultConnectionTimeout = 120 * 1000000000"

record ('q, 'a) grpcSrv =
  grpc_port :: string
  connectionTimeout :: int
  unaryInterceptors :: "('q, 'a) interceptor list"

type_synonym ('q, 'a) grpc_opt = "('q, 'a) grpcSrv \<Rightarrow> ('q, 'a) grpcSrv"

definition WithGRPCPort :: "string \<Rightarrow> ('q, 'a) grpc_opt" where
  "WithGRPCPort p = (\<lambda>g. g\<lparr>grpc_port := p\<rparr>)"

definition WithUnaryInterceptor :: "('q, 'a) interceptor \<Rightarrow> ('q, 'a) grpc_opt" where
  "WithUnaryInterceptor i = (\<lambda>g. g\<lparr>unaryInterceptors := unaryInterceptors g @ [i]\<rparr>)"

definition recovering :: "('q, 'a) interceptor" where
  "recovering m handler req = (case handler req of
       (Panic r, l) \<Rightarrow> (Err StatusInternal, l @ [ErrorLog r])
     | res \<Rightarrow> res)"

definition WithPanicReocvery :: "('q, 'a) grpc_opt" where
  "WithPanicReocvery = (\<lambda>g. g\<lparr>unaryInterceptors := unaryInterceptors g @ [recovering]\<rparr>)"

definition WithConnectionTimeout :: "int \<Rightarrow> ('q, 'a) grpc_opt" where
  "WithConnectionTimeout t = (\<lambda>g. g\<lparr>connectionTimeout := t\<rparr>)"

definition request_logging :: "('q, 'a) interceptor" where
  "request_logging m handler req = (case handler req of (r, l) \<Rightarrow> (r, l @ [InfoLog m]))"

definition WithRequestLogger :: "('q, 'a) grpc_opt" where
  "WithRequestLogger = (\<lambda>g. g\<lparr>unaryInterceptors := unaryInterceptors g @ [request_logging]\<rparr>)"

definition grpc_config :: "('q, 'a) grpc_opt list \<Rightarrow> ('q, 'a) grpcSrv" where
  "grpc_config opts = fold (\<lambda>opt g. opt g) opts
     \<lparr>grpc_port = defaultGRPCPort, connectionTimeout = defaultConnectionTimeout, unaryInterceptors = []\<rparr>"

text \<open>
  How the server answers a call: \<open>chain\<close> is \<open>grpc.ChainUnaryInterceptor\<close> applied to a method name
  and the registered handler.
\<close>

definition grpc_serve :: "(('q, 'a) interceptor list \<Rightarrow> string \<Rightarrow> ('q, 'a) unary \<Rightarrow> ('q, 'a) unary)
    \<Rightarrow> ('q, 'a) grpc_opt list \<Rightarrow> string \<Rightarrow> ('q, 'a) unary \<Rightarrow> ('q, 'a) unary" where
  "grpc_serve chain opts m handler = chain (unaryInterceptors (grpc_config opts)) m handler"

text \<open>
  The server is made once, before the runner is called: \<open>newServer\<close> is \<open>grpc.NewServer\<close> over the
  two options, and the attacher registers its services on it.
\<close>

definition GRPC_server :: "(int \<Rightarrow> ('q, 'a) interceptor list \<Rightarrow> 'reg) \<Rightarrow> ('reg \<Rightarrow> 'reg)
    \<Rightarrow> ('q, 'a) grpc_opt list \<Rightarrow> 'reg" where
  "GRPC_server newServer AttachToGRPC opts =
     (let cfg = grpc_config opts in AttachToGRPC (newServer (connectionTimeout cfg) (unaryInterceptors cfg)))"

definition GRPC_address :: "('q, 'a) grpc_opt list \<Rightarrow> string" where
  "GRPC_address opts = JoinHostPort [] (grpc_port (grpc_config opts))"

text \<open>
  The run: \<open>Listening\<close> until the listener is there, then the two goroutines. \<open>GracefulStop\<close>
  refuses new calls and blocks until the pending ones are finished; \<open>Serve\<close> fails, or returns nil
  once the server is stopped, or is refused (\<open>refused\<close>) when it is called on a stopped server.
\<close>

datatype 'e gserve_pc = Listening | NotListening 'e | CallServe | Accepting | ServeDone
datatype gstop_pc = GAwait | GStopping | GStopped

record 'e grpc_run =
  grpc_ctx :: bool
  gserve :: "'e gserve_pc"
  gstop :: gstop_pc
  quit :: bool
  calls :: nat
  grpc_results :: "'e option list"

datatype 'e grpc_event =
    GrpcCtx                    \<comment> \<open>the runner's context is done\<close>
  | Listen "'e option"         \<comment> \<open>\<open>lc.Listen\<close> returns\<close>
  | EnterServe                 \<comment> \<open>the first goroutine calls \<open>Serve\<close>\<close>
  | AcceptFails 'e             \<comment> \<open>\<open>Serve\<close> returns an error\<close>
  | ServeStops                 \<comment> \<open>\<open>Serve\<close> returns as the server is stopped\<close>
  | CallBegins | CallEnds      \<comment> \<open>of a client\<close>
  | BeginStop                  \<comment> \<open>the group's context is done, \<open>GracefulStop\<close> is called\<close>
  | StopReturns                \<comment> \<open>\<open>GracefulStop\<close> returns\<close>

text \<open>\<open>aerr\<close> tells the errors \<open>Serve\<close> may fail with.\<close>

fun GRPCRunner_step :: "('e option list \<Rightarrow> bool) \<Rightarrow> ('e \<Rightarrow> bool) \<Rightarrow> 'e option \<Rightarrow> ('e grpc_event, 'e grpc_run) step" where
  "GRPCRunner_step cancels aerr refused GrpcCtx s = Some (s\<lparr>grpc_ctx := True\<rparr>)"
| "GRPCRunner_step cancels aerr refused (Listen r) s =
     (if gserve s = Listening
      then Some (s\<lparr>gserve := (case r of None \<Rightarrow> CallServe | Some err \<Rightarrow> NotListening err)\<rparr>) else None)"
| "GRPCRunner_step cancels aerr refused EnterServe s =
     (if gserve s = CallServe
      then Some (if quit s then s\<lparr>gserve := ServeDone, grpc_results := grpc_results s @ [refused]\<rparr>
                 else s\<lparr>gserve := Accepting\<rparr>) else None)"
| "GRPCRunner_step cancels aerr refused (AcceptFails err) s =
     (if gserve s = Accepting \<and> aerr err
      then Some (s\<lparr>gserve := ServeDone, grpc_results := grpc_results s @ [Some err]\<rparr>) else None)"
| "GRPCRunner_step cancels aerr refused ServeStops s =
     (if gserve s = Accepting \<and> quit s
      then Some (s\<lparr>gserve := ServeDone, grpc_results := grpc_results s @ [None]\<rparr>) else None)"
| "GRPCRunner_step cancels aerr refused CallBegins s =
     (if gserve s = Accepting \<and> \<not> quit s then Some (s\<lparr>calls := Suc (calls s)\<rparr>) else None)"
| "GRPCRunner_step cancels aerr refused CallEnds s =
     (if 0 < calls s then Some (s\<lparr>calls := calls s - 1\<rparr>) else None)"
| "GRPCRunner_step cancels aerr refused BeginStop s =
     (case gserve s of Listening \<Rightarrow> None | NotListening err \<Rightarrow> None | _ \<Rightarrow>
        if gstop s = GAwait \<and> (grpc_ctx s \<or> cancels (grpc_results s))
        then Some (s\<lparr>gstop := GStopping, quit := True\<rparr>) else None)"
| "GRPCRunner_step cancels aerr refused StopReturns s =
     (if gstop s = GStopping \<and> calls s = 0
      then Some (s\<lparr>gstop := GStopped, grpc_results := grpc_results s @ [None]\<rparr>) else None)"

definition grpc_start :: "'e grpc_run \<Rightarrow> bool" where
  "grpc_start s \<longleftrightarrow> gserve s = Listening \<and> gstop s = GAwait \<and> \<not> quit s \<and> calls s = 0 \<and> grpc_results s = []"

definition GRPCRunner_returns :: "('e option \<Rightarrow> string \<Rightarrow> 'e option) \<Rightarrow> ('e option list \<Rightarrow> 'e option)
    \<Rightarrow> 'e grpc_run \<Rightarrow> 'e option option" where
  "GRPCRunner_returns wrap wait s =
     (case gserve s of
        NotListening err \<Rightarrow> Some (wrap (Some err) ''failed to listen'')
      | ServeDone \<Rightarrow> if gstop s = GStopped then Some (wait (grpc_results s)) else None
      | _ \<Rightarrow> None)"

section \<open>The servers keep the contract of a runner\<close>

definition http_contract :: "('e \<Rightarrow> bool) \<Rightarrow> ('e \<Rightarrow> bool) \<Rightarrow> 'e sentinels \<Rightarrow> 'e contract" where
  "http_contract lerr cerr es o' r \<longleftrightarrow>
     (case r of None \<Rightarrow> o' | Some e \<Rightarrow> lerr e \<or> o' \<and> (e = ErrDeadlineExceeded es \<or> cerr e))"

definition grpc_contract :: "('e option \<Rightarrow> string \<Rightarrow> 'e option) \<Rightarrow> ('e \<Rightarrow> bool) \<Rightarrow> 'e option \<Rightarrow> 'e contract" where
  "grpc_contract wrap aerr refused o' r \<longleftrightarrow>
     (\<exists>e. r = wrap (Some e) ''failed to listen'') \<or> (\<exists>e. aerr e \<and> r = Some e) \<or> o' \<and> (r = None \<or> r = refused)"

definition cron_contract :: "'e sentinels \<Rightarrow> 'e contract" where
  "cron_contract es o' r \<longleftrightarrow> o' \<and> r = Some (ctxErr es)"

definition http_fine :: "('e \<Rightarrow> bool) \<Rightarrow> ('e \<Rightarrow> bool) \<Rightarrow> 'e sentinels \<Rightarrow> 'e http_run \<Rightarrow> bool" where
  "http_fine lerr cerr es s \<longleftrightarrow> (inShutdown s \<longleftrightarrow> stop s \<noteq> AwaitCtx)
     \<and> (\<forall>d. stop s = Draining d \<longrightarrow> d \<le> clock s + shutdownTimeout)
     \<and> (stop s = Stopped \<longrightarrow> conns s = 0 \<or> first_error (http_results s) \<noteq> None)
     \<and> (case first_error (http_results s) of
          None \<Rightarrow> stop s \<noteq> AwaitCtx \<longrightarrow> http_ctx s
        | Some e \<Rightarrow> lerr e \<or> http_ctx s \<and> (e = ErrDeadlineExceeded es \<or> cerr e))"

fun no_listener :: "'e gserve_pc \<Rightarrow> bool" where
  "no_listener Listening = True"
| "no_listener (NotListening e) = True"
| "no_listener _ = False"

definition grpc_fine :: "('e \<Rightarrow> bool) \<Rightarrow> 'e option \<Rightarrow> 'e grpc_run \<Rightarrow> bool" where
  "grpc_fine aerr refused s \<longleftrightarrow> (quit s \<longleftrightarrow> gstop s \<noteq> GAwait)
     \<and> (no_listener (gserve s) \<or> gserve s = CallServe \<longrightarrow> calls s = 0)
     \<and> (no_listener (gserve s) \<longrightarrow> gstop s = GAwait)
     \<and> (gstop s = GStopped \<longrightarrow> calls s = 0)
     \<and> (case first_error (grpc_results s) of
          None \<Rightarrow> gstop s \<noteq> GAwait \<longrightarrow> grpc_ctx s
        | Some e \<Rightarrow> aerr e \<or> grpc_ctx s \<and> refused = Some e)"

text \<open>What the code relies on: documented behaviour of \<open>eris.Is\<close> and \<open>net/http\<close>.\<close>

definition serve_laws :: "('e \<Rightarrow> 'e \<Rightarrow> bool) \<Rightarrow> ('e \<Rightarrow> bool) \<Rightarrow> 'e sentinels \<Rightarrow> bool" where
  "serve_laws isErr lerr es \<longleftrightarrow> isErr (ErrServerClosed es) (ErrServerClosed es)
     \<and> (\<forall>e. lerr e \<longrightarrow> \<not> isErr e (ErrServerClosed es))"

lemma http_invariant:
  assumes laws: "group_laws wait cancels" "serve_laws isErr lerr es"
  shows "invariant_of (Server_step isErr cancels lerr cerr es) http_start (http_fine lerr cerr es)"
proof
  show "http_start s \<Longrightarrow> http_fine lerr cerr es s" for s
    by (simp add: http_start_def http_fine_def)
  fix s e s' assume s: "http_fine lerr cerr es s" "Server_step isErr cancels lerr cerr es e s = Some s'"
  have res: "serve_result isErr es (ErrServerClosed es) = None" "lerr err \<Longrightarrow> serve_result isErr es err = Some err" for err
    using laws(2) by (simp_all add: serve_laws_def serve_result_def)
  show "http_fine lerr cerr es s'"
  proof (cases "\<exists>r. e = Drained r")
    case True
    then obtain r where "e = Drained r" by blast
    then show ?thesis using s by (cases r; cases "first_error (http_results s)"; cases "stop s") (auto simp: http_fine_def split: if_splits)
  next
    case False
    then show ?thesis using s by (cases "first_error (http_results s)"; cases e; cases "stop s")
        (auto simp: http_fine_def res shutdownTimeout_def group_lawsD(2) [OF laws(1)] split: if_splits)
  qed
qed

lemma grpc_invariant:
  assumes laws: "group_laws wait cancels"
  shows "invariant_of (GRPCRunner_step cancels aerr refused) grpc_start (grpc_fine aerr refused)"
proof
  show "grpc_start s \<Longrightarrow> grpc_fine aerr refused s" for s
    by (simp add: grpc_start_def grpc_fine_def)
  fix s e s' assume s: "grpc_fine aerr refused s" "GRPCRunner_step cancels aerr refused e s = Some s'"
  show "grpc_fine aerr refused s'"
  proof (cases e)
    case (Listen r)
    then show ?thesis using s by (cases r) (auto simp: grpc_fine_def split: if_splits option.splits)
  next
    case EnterServe
    then show ?thesis using s
      by (cases "quit s"; cases "first_error (grpc_results s)") (auto simp: grpc_fine_def split: if_splits option.splits)
  next
    case BeginStop
    then show ?thesis using s by (cases "gserve s")
        (auto simp: grpc_fine_def group_lawsD(2) [OF laws] split: if_splits option.splits)
  qed ((use s in \<open>cases "gstop s"; cases "first_error (grpc_results s)";
      auto simp: grpc_fine_def split: if_splits\<close>) [1])+
qed

lemma http_runner:
  assumes laws: "group_laws wait cancels" "serve_laws isErr lerr es"
  shows "runner_system (Server_step isErr cancels lerr cerr es) http_start (http_fine lerr cerr es)
    http_ctx (Server_returns wait) (\<lambda>e. e = HttpCtx) (http_contract lerr cerr es)"
proof (rule runner_system.intro [OF http_invariant [OF laws]], unfold_locales, goal_cases)
  case (2 s e s')
  then show ?case by (cases e) (auto split: if_splits stop_pc.splits)
next
  case (4 s e s' r)
  then show ?case by (cases e) (auto simp: Server_returns_def split: if_splits stop_pc.splits)
next
  case (5 s r)
  then show ?case
    by (auto simp: Server_returns_def http_fine_def http_contract_def group_lawsD(1) [OF laws(1)]
        split: if_splits option.splits)
qed (auto simp: http_start_def Server_returns_def)

lemma grpc_runner:
  assumes laws: "group_laws wait cancels"
  shows "runner_system (GRPCRunner_step cancels aerr refused) grpc_start (grpc_fine aerr refused)
    grpc_ctx (GRPCRunner_returns wrap wait) (\<lambda>e. e = GrpcCtx) (grpc_contract wrap aerr refused)"
proof (rule runner_system.intro [OF grpc_invariant [OF laws]], unfold_locales, goal_cases)
  case (2 s e s')
  then show ?case by (cases e) (auto split: if_splits gserve_pc.splits)
next
  case (3 s e s')
  then show ?case by (auto simp: GRPCRunner_returns_def split: gserve_pc.splits)
next
  case (4 s e s' r)
  then show ?case by (cases e)
      (auto simp: GRPCRunner_returns_def grpc_fine_def split: if_splits gserve_pc.splits)
next
  case (5 s r)
  then show ?case
    by (auto simp: GRPCRunner_returns_def grpc_fine_def grpc_contract_def group_lawsD(1) [OF laws]
        split: if_splits option.splits gserve_pc.splits)
qed (auto simp: grpc_start_def GRPCRunner_returns_def)

definition cron_fine :: "'e sentinels \<Rightarrow> ('t, 'e) cron_run \<Rightarrow> bool" where
  "cron_fine es s \<longleftrightarrow> (case cron_ended s of None \<Rightarrow> True
     | Some r \<Rightarrow> \<not> scheduling s \<and> cron_ctx s \<and> r = Some (ctxErr es))"

interpretation cron: runner_system "Schedule_step es" cron_start "cron_fine es" cron_ctx cron_ended
    "\<lambda>e. e = CronCtx" "cron_contract es"
  for es :: "'e sentinels"
proof (unfold_locales, goal_cases)
  case (2 s e s')
  then show ?case by (cases e) (auto simp: cron_fine_def split: if_splits option.splits)
next
  case (4 s e s')
  then show ?case by (cases e) (auto split: if_splits)
next
  case (6 s e s' r)
  then show ?case by (cases e) (auto simp: cron_fine_def split: if_splits option.splits)
qed (auto simp: cron_start_def cron_fine_def cron_contract_def)

end
