(* ===== verification/Graceful_Claims.thy ===== *)
theory Graceful_Claims
  imports Graceful_Servers
begin

text \<open>
  What the servers of \<open>src/graceful\<close> promise to the group that runs them, what is left running
  when they return, how long they take to stop, when \<open>WaitContext\<close> ends, and what the gRPC
  interceptors make of a panic.
\<close>

section \<open>Refinement of the runner contract\<close>

text \<open>
  C16. The runs of the three servers, seen from the group that runs them, are runs of a runner
  that keeps its contract: an HTTP server returns nil, \<open>DeadlineExceeded\<close> or an error of closing the
  listener only after its context is done, and else only an error of \<open>ListenAndServe\<close>; a gRPC
  server returns nil only after its context is done and else an error of listening or serving; the
  cron runner returns only after its context is done, with its error. Each returns once.
\<close>

theorem servers_refine_runners:
  assumes "group_laws wait cancels" and "serve_laws isErr lerr es"
  shows "(http_start s \<longrightarrow> exec (Server_step isErr cancels lerr cerr es) evs s = Some s' \<longrightarrow>
      exec (runner_step (http_contract lerr cerr es))
        (visible (Server_step isErr cancels lerr cerr es)
          (returns_view (Server_step isErr cancels lerr cerr es) (Server_returns wait) (\<lambda>e. e = HttpCtx)) evs s)
        (as_runner http_ctx (Server_returns wait) s) = Some (as_runner http_ctx (Server_returns wait) s'))
    \<and> (grpc_start g \<longrightarrow> exec (GRPCRunner_step cancels aerr refused) gevs g = Some g' \<longrightarrow>
      exec (runner_step (grpc_contract wrap aerr refused))
        (visible (GRPCRunner_step cancels aerr refused)
          (returns_view (GRPCRunner_step cancels aerr refused) (GRPCRunner_returns wrap wait) (\<lambda>e. e = GrpcCtx)) gevs g)
        (as_runner grpc_ctx (GRPCRunner_returns wrap wait) g) = Some (as_runner grpc_ctx (GRPCRunner_returns wrap wait) g'))
    \<and> (cron_start c \<longrightarrow> exec (Schedule_step es) cevs c = Some c' \<longrightarrow>
      exec (runner_step (cron_contract es))
        (visible (Schedule_step es) (returns_view (Schedule_step es) cron_ended (\<lambda>e. e = CronCtx)) cevs c)
        (as_runner cron_ctx cron_ended c) = Some (as_runner cron_ctx cron_ended c'))"
  using runner_system.refines_runner [OF http_runner [OF assms, of cerr], of s evs s']
    runner_system.refines_runner [OF grpc_runner [OF assms(1)], of g aerr refused gevs g' wrap]
    cron.refines_runner [of c es cevs c']
  by blast

definition demo_http :: "string http_run" where
  "demo_http = \<lparr>http_ctx = False, serve = Serving, stop = AwaitCtx, inShutdown = False, conns = 0, hijacked = 0, clock = 0, http_results = []\<rparr>"

definition demo_grpc :: "string grpc_run" where
  "demo_grpc = \<lparr>grpc_ctx = False, gserve = Listening, gstop = GAwait, quit = False, calls = 0, grpc_results = []\<rparr>"

definition demo_cron :: "(nat, string) cron_run" where
  "demo_cron = \<lparr>entries = [0], cron_ctx = False, scheduling = False, jobs = [], cron_ended = None\<rparr>"

lemma demo_laws:
  "group_laws first_error (\<lambda>rs. first_error rs \<noteq> None)" "serve_laws (=) (\<lambda>e. e = ''bind'') demo_sentinels"
  by (simp_all add: group_laws_def serve_laws_def demo_sentinels_def)

theorem servers_refine_runners_witness:
  "exec (runner_step (http_contract (\<lambda>e. e = ''bind'') (\<lambda>e. e = ''close'') demo_sentinels)) [CtxOver, Return (Some ''deadline'')]
     \<lparr>over = False, ended = None\<rparr> = Some \<lparr>over = True, ended = Some (Some ''deadline'')\<rparr>
   \<and> exec (runner_step (grpc_contract (\<lambda>e s. e) (\<lambda>e. False) None)) [CtxOver, Return None]
     \<lparr>over = False, ended = None :: string option option\<rparr> = Some \<lparr>over = True, ended = Some None\<rparr>
   \<and> exec (runner_step (cron_contract demo_sentinels)) [CtxOver, Return (Some ''ctx'')]
     \<lparr>over = False, ended = None\<rparr> = Some \<lparr>over = True, ended = Some (Some ''ctx'')\<rparr>"
proof -
  let ?h = "[Connect, HttpCtx, BeginShutdown, ServeReturns ''closed'', Elapse 5000000000, Expired] :: string http_event list"
  let ?g = "[Listen None, EnterServe, GrpcCtx, BeginStop, ServeStops, StopReturns] :: string grpc_event list"
  let ?c = "[CronStart, Fire 0, CronCtx, CronReturn]"
  have h: "\<exists>s'. exec (Server_step (=) (\<lambda>rs. first_error rs \<noteq> None) (\<lambda>e. e = ''bind'') (\<lambda>e. e = ''close'') demo_sentinels) ?h demo_http = Some s'
      \<and> Server_returns first_error s' = Some (Some ''deadline'') \<and> http_ctx s'"
    by (simp add: demo_http_def demo_sentinels_def serve_result_def shutdownTimeout_def Server_returns_def)
  then obtain s' where s': "exec (Server_step (=) (\<lambda>rs. first_error rs \<noteq> None) (\<lambda>e. e = ''bind'') (\<lambda>e. e = ''close'') demo_sentinels) ?h demo_http = Some s'"
    "Server_returns first_error s' = Some (Some ''deadline'')" "http_ctx s'" by blast
  have g: "\<exists>g'. exec (GRPCRunner_step (\<lambda>rs. first_error rs \<noteq> None) (\<lambda>e. False) None) ?g demo_grpc = Some g'
      \<and> GRPCRunner_returns (\<lambda>e s. e) first_error g' = Some None \<and> grpc_ctx g'"
    by (simp add: demo_grpc_def GRPCRunner_returns_def)
  then obtain g' where g': "exec (GRPCRunner_step (\<lambda>rs. first_error rs \<noteq> None) (\<lambda>e. False) None) ?g demo_grpc = Some g'"
    "GRPCRunner_returns (\<lambda>e s. e) first_error g' = Some None" "grpc_ctx g'" by blast
  have c: "\<exists>c'. exec (Schedule_step demo_sentinels) ?c demo_cron = Some c' \<and> cron_ended c' = Some (Some ''ctx'') \<and> cron_ctx c'"
    by (simp add: demo_cron_def demo_sentinels_def)
  then obtain c' where c': "exec (Schedule_step demo_sentinels) ?c demo_cron = Some c'"
    "cron_ended c' = Some (Some ''ctx'')" "cron_ctx c'" by blast
  have "http_start demo_http" "grpc_start demo_grpc" "cron_start demo_cron"
    by (simp_all add: http_start_def demo_http_def grpc_start_def demo_grpc_def cron_start_def demo_cron_def)
  then show ?thesis
    using servers_refine_runners [OF demo_laws, of demo_http "\<lambda>e. e = ''close''" ?h s' demo_grpc "\<lambda>e. False" None ?g g' "\<lambda>e s. e" demo_cron ?c c']
      s' g' c'
    by (simp add: as_runner_def demo_http_def demo_grpc_def demo_cron_def demo_sentinels_def serve_result_def
        shutdownTimeout_def returns_view_def Server_returns_def GRPCRunner_returns_def)
qed

text \<open>
  C30. What is still running when a server's runner returns: an HTTP server that reports no error
  has no open request (a connection a handler has hijacked is no longer the server's); a gRPC server has no pending call, whatever it reports; the cron scheduler
  starts no further job, but a job it started may still run after the runner has returned, since
  what \<open>Stop\<close> hands out to wait for them is dropped.
\<close>

theorem servers_drain:
  assumes "group_laws wait cancels" and "serve_laws isErr lerr es"
  shows "(reachable (Server_step isErr cancels lerr cerr es) http_start s \<longrightarrow> Server_returns wait s = Some None \<longrightarrow> conns s = 0)
    \<and> (reachable (GRPCRunner_step cancels aerr refused) grpc_start g \<longrightarrow> GRPCRunner_returns wrap wait g = Some r \<longrightarrow> calls g = 0)
    \<and> (reachable (Schedule_step es) cron_start c \<longrightarrow> cron_ended c \<noteq> None \<longrightarrow> Schedule_step es (Fire i) c = None)
    \<and> (\<exists>c. reachable (Schedule_step es) cron_start c \<and> cron_ended c \<noteq> None \<and> jobs c = [t])"
proof (intro conjI impI)
  show "conns s = 0" if "reachable (Server_step isErr cancels lerr cerr es) http_start s" "Server_returns wait s = Some None"
    using invariant_of.inv_reachable [OF http_invariant [OF assms] that(1)] that(2)
    by (auto simp: http_fine_def Server_returns_def group_lawsD(1) [OF assms(1)] split: if_splits)
  show "calls g = 0" if "reachable (GRPCRunner_step cancels aerr refused) grpc_start g" "GRPCRunner_returns wrap wait g = Some r"
    using invariant_of.inv_reachable [OF grpc_invariant [OF assms(1)] that(1)] that(2)
    by (auto simp: grpc_fine_def GRPCRunner_returns_def split: if_splits gserve_pc.splits)
  show "Schedule_step es (Fire i) c = None" if "reachable (Schedule_step es) cron_start c" "cron_ended c \<noteq> None"
    using cron.inv_reachable [OF that(1)] that(2) by (auto simp: cron_fine_def)
  let ?c0 = "\<lparr>entries = [t], cron_ctx = False, scheduling = False, jobs = [], cron_ended = None\<rparr>"
  let ?c1 = "\<lparr>entries = [t], cron_ctx = True, scheduling = False, jobs = [t], cron_ended = Some (Some (ctxErr es))\<rparr>"
  have "reachable (Schedule_step es) cron_start ?c1"
  proof (rule exec_reachable [of _ _ ?c0 "[CronStart, Fire 0, CronCtx, CronReturn]"])
    show "reachable (Schedule_step es) cron_start ?c0" by (rule reach_start) (simp add: cron_start_def)
  qed simp
  then show "\<exists>c. reachable (Schedule_step es) cron_start c \<and> cron_ended c \<noteq> None \<and> jobs c = [t]" by fastforce
qed

theorem servers_drain_witness:
  "\<exists>s. reachable (Server_step (=) (\<lambda>rs. first_error rs \<noteq> None) (\<lambda>e. e = ''bind'') (\<lambda>e. e = ''close'') demo_sentinels) http_start s
     \<and> Server_returns first_error s = Some None \<and> conns s = 0"
proof -
  let ?step = "Server_step (=) (\<lambda>rs. first_error rs \<noteq> None) (\<lambda>e. e = ''bind'') (\<lambda>e. e = ''close'') demo_sentinels"
  have "\<exists>s. exec ?step [Connect, HttpCtx, BeginShutdown, Disconnect, ServeReturns ''closed'', Drained None] demo_http = Some s
      \<and> Server_returns first_error s = Some None"
    by (simp add: demo_http_def demo_sentinels_def serve_result_def Server_returns_def)
  then obtain s where s: "exec ?step [Connect, HttpCtx, BeginShutdown, Disconnect, ServeReturns ''closed'', Drained None] demo_http = Some s"
    "Server_returns first_error s = Some None" by blast
  have "reachable ?step http_start s"
    by (rule exec_reachable [OF reach_start s(1)]) (simp add: http_start_def demo_http_def)
  then show ?thesis using servers_drain [OF demo_laws, of "\<lambda>e. e = ''close''" s, THEN conjunct1] s(2) by blast
qed

text \<open>The events by which an HTTP server stops on its own, whatever its clients do.\<close>

definition stop_http :: "'e sentinels \<Rightarrow> 'e http_run \<Rightarrow> 'e http_event list" where
  "stop_http es s =
     (if stop s = AwaitCtx then [BeginShutdown] else [])
     @ (if serve s = Serving then [ServeReturns (ErrServerClosed es)] else [])
     @ (case stop s of
          AwaitCtx \<Rightarrow> [Elapse shutdownTimeout, Expired]
        | Draining d \<Rightarrow> (if clock s < d then [Elapse (d - clock s)] else []) @ [Expired]
        | Stopped \<Rightarrow> [])"

fun http_own :: "'e sentinels \<Rightarrow> 'e http_event \<Rightarrow> bool" where
  "http_own es Connect = False"
| "http_own es Disconnect = False"
| "http_own es Hijack = False"
| "http_own es (ServeReturns err) = (err = ErrServerClosed es)"
| "http_own es _ = True"

lemma stop_http_own: "list_all (http_own es) (stop_http es s)"
  by (simp add: stop_http_def split: stop_pc.split)

text \<open>
  Time as it passes for a server: a goroutine that can go on does, so no time passes between the end of
  the context and the call of \<open>Shutdown\<close>, nor until \<open>ListenAndServe\<close> returns after that call, and
  the deadline of \<open>Shutdown\<close> is not missed. Clients may do what they like.
\<close>

definition may_elapse :: "('e option list \<Rightarrow> bool) \<Rightarrow> int \<Rightarrow> 'e http_run \<Rightarrow> bool" where
  "may_elapse cancels t s \<longleftrightarrow> \<not> (stop s = AwaitCtx \<and> (http_ctx s \<or> cancels (http_results s)))
     \<and> \<not> (serve s = Serving \<and> inShutdown s)
     \<and> (case stop s of Draining d \<Rightarrow> clock s + t \<le> d | _ \<Rightarrow> True)"

definition timely_step :: "('e \<Rightarrow> 'e \<Rightarrow> bool) \<Rightarrow> ('e option list \<Rightarrow> bool) \<Rightarrow> ('e \<Rightarrow> bool) \<Rightarrow> ('e \<Rightarrow> bool) \<Rightarrow> 'e sentinels
    \<Rightarrow> ('e http_event, 'e http_run) step" where
  "timely_step isErr cancels lerr cerr es e s =
     (if (case e of Elapse t \<Rightarrow> may_elapse cancels t s | _ \<Rightarrow> True) then Server_step isErr cancels lerr cerr es e s else None)"

lemma timely_is_step: "timely_step isErr cancels lerr cerr es e s = Some s' \<Longrightarrow> Server_step isErr cancels lerr cerr es e s = Some s'"
  by (simp add: timely_step_def split: if_splits)

text \<open>What holds from the moment \<open>c\<close> at which the context of the group was over.\<close>

definition in_time :: "('e option list \<Rightarrow> bool) \<Rightarrow> int \<Rightarrow> 'e http_run \<Rightarrow> bool" where
  "in_time cancels c s \<longleftrightarrow> (http_ctx s \<or> cancels (http_results s))
     \<and> (stop s = AwaitCtx \<longrightarrow> clock s \<le> c) \<and> (\<forall>d. stop s = Draining d \<longrightarrow> d \<le> c + shutdownTimeout)
     \<and> (serve s = Serving \<or> stop s \<noteq> Stopped \<longrightarrow> clock s \<le> c + shutdownTimeout)"

lemma in_time_step:
  assumes "group_laws wait cancels" and "http_fine lerr cerr es s" and "in_time cancels c s"
    and "timely_step isErr cancels lerr cerr es e s = Some s'"
  shows "in_time cancels c s'"
proof -
  have grow: "cancels rs \<Longrightarrow> cancels (rs @ [r])" for rs r
    using group_lawsD(2) [OF assms(1)] by (auto simp: first_error_append split: option.splits)
  show ?thesis
    using assms(2-4) grow by (cases e; cases "stop s")
      (auto simp: timely_step_def in_time_def http_fine_def may_elapse_def shutdownTimeout_def split: if_splits)
qed

lemma in_time_exec:
  assumes laws: "group_laws wait cancels" "serve_laws isErr lerr es"
    and "http_fine lerr cerr es s" and "in_time cancels c s" and "exec (timely_step isErr cancels lerr cerr es) evs s = Some t"
  shows "http_fine lerr cerr es t \<and> in_time cancels c t"
  using assms(3-5)
proof (induction evs arbitrary: s)
  case (Cons e evs)
  then obtain u where u: "timely_step isErr cancels lerr cerr es e s = Some u" "exec (timely_step isErr cancels lerr cerr es) evs u = Some t"
    by (auto split: option.splits)
  have "http_fine lerr cerr es u"
    by (rule invariant_of.inv_step [OF http_invariant [OF laws] Cons.prems(1) timely_is_step [OF u(1)]])
  then show ?case using Cons.IH [OF _ in_time_step [OF laws(1) Cons.prems(1,2) u(1)] u(2)] by blast
qed simp

lemma http_stops:
  assumes "http_fine lerr cerr es s" and "http_ctx s \<or> cancels (http_results s)"
  shows "\<exists>t. exec (timely_step isErr cancels lerr cerr es) (stop_http es s) s = Some t \<and> Server_returns wait t \<noteq> None"
  using assms by (cases "stop s"; cases "serve s")
    (auto simp: stop_http_def http_fine_def shutdownTimeout_def Server_returns_def timely_step_def may_elapse_def)

lemma timely_exec: "exec (timely_step isErr cancels lerr cerr es) evs s = Some t \<Longrightarrow> exec (Server_step isErr cancels lerr cerr es) evs s = Some t"
  by (induction evs arbitrary: s) (auto split: option.splits dest: timely_is_step)

text \<open>The clock when a run that passes its deadline reports so.\<close>

definition deadline_kept :: "'e sentinels \<Rightarrow> int \<Rightarrow> 'e http_run \<Rightarrow> bool" where
  "deadline_kept es c s \<longleftrightarrow> c \<le> clock s \<and> (\<forall>d. stop s = Draining d \<longrightarrow> c + shutdownTimeout \<le> d)
     \<and> (Some (ErrDeadlineExceeded es) \<in> set (http_results s) \<longrightarrow> stop s = Stopped \<and> c + shutdownTimeout \<le> clock s)"

lemma deadline_kept_exec:
  assumes "\<not> lerr (ErrDeadlineExceeded es)" and "\<not> cerr (ErrDeadlineExceeded es)" and "serve_laws isErr lerr es"
    and "deadline_kept es c s" and "exec (Server_step isErr cancels lerr cerr es) evs s = Some t"
  shows "deadline_kept es c t"
  using assms(4,5)
proof (induction evs arbitrary: s)
  case (Cons e evs)
  then obtain u where u: "Server_step isErr cancels lerr cerr es e s = Some u" "exec (Server_step isErr cancels lerr cerr es) evs u = Some t"
    by (auto split: option.splits)
  have "serve_result isErr es err = Some (ErrDeadlineExceeded es) \<Longrightarrow> err = ErrDeadlineExceeded es" for err
    by (simp add: serve_result_def split: if_splits)
  moreover have "serve_result isErr es (ErrServerClosed es) = None"
    using assms(3) by (simp add: serve_laws_def serve_result_def)
  ultimately have "deadline_kept es c u"
    using Cons.prems(1) u(1) assms(1,2)
    by (cases e; cases "stop s") (auto simp: deadline_kept_def split: if_splits option.splits)
  then show ?case using Cons.IH u(2) by blast
qed simp

lemma not_yet_stopped:
  assumes "\<not> lerr (ErrDeadlineExceeded es)" and "\<not> cerr (ErrDeadlineExceeded es)" and "serve_laws isErr lerr es"
    and "reachable (Server_step isErr cancels lerr cerr es) http_start s" and "stop s = AwaitCtx"
  shows "deadline_kept es (clock s) s"
proof -
  obtain s0 evs where "http_start s0" "exec (Server_step isErr cancels lerr cerr es) evs s0 = Some s"
    using assms(4) by (auto simp: reachable_iff_exec)
  then have "deadline_kept es (clock s0) s"
    using deadline_kept_exec [where lerr = lerr and cerr = cerr and es = es, OF assms(1-3), of "clock s0" s0] by (simp add: deadline_kept_def http_start_def)
  then show ?thesis using assms(5) by (auto simp: deadline_kept_def)
qed

lemma stop_http_clock:
  assumes "in_time cancels c t" and "Server_returns wait t = None" and "clock t \<le> c + shutdownTimeout"
    and "exec (timely_step isErr cancels lerr cerr es) (stop_http es t) t = Some u"
  shows "clock u \<le> c + shutdownTimeout"
  using assms by (cases "stop t"; cases "serve t")
    (auto simp: stop_http_def in_time_def timely_step_def may_elapse_def Server_returns_def split: if_splits)

lemma grpc_pending_call:
  assumes "group_laws wait cancels" and "grpc_fine aerr refused g" and "0 < calls g" and "CallEnds \<notin> set evs"
    and "exec (GRPCRunner_step cancels aerr refused) evs g = Some t"
  shows "grpc_fine aerr refused t \<and> 0 < calls t"
  using assms(2-5)
proof (induction evs arbitrary: g)
  case (Cons e evs)
  then obtain g1 where g1: "GRPCRunner_step cancels aerr refused e g = Some g1"
    "exec (GRPCRunner_step cancels aerr refused) evs g1 = Some t" by (auto split: option.splits)
  have "0 < calls g1"
    using g1(1) Cons.prems by (cases e) (auto split: if_splits gserve_pc.splits)
  then show ?case
    using Cons.IH [of g1] invariant_of.inv_step [OF grpc_invariant [OF assms(1)] Cons.prems(1) g1(1)] g1(2) Cons.prems
    by simp
qed simp

text \<open>
  C23. How long shutting down takes. When the context of a running HTTP server is done, or its other
  goroutine failed, then in every run in which runnable goroutines and timers are not held up the runner
  has returned before more than \<open>shutdownTimeout\<close> has passed, and it never gets stuck: at any point
  before it can be run to its return within that time without a single open request finishing.
  It does not give up early either: in any run whatever, \<open>DeadlineExceeded\<close> is not returned
  before \<open>shutdownTimeout\<close> has passed since \<open>Shutdown\<close> was called. The gRPC server
  has no such bound: while a call is pending its runner does not return, however long it runs.
\<close>

theorem shutdown_bounded:
  assumes "group_laws wait cancels" and "serve_laws isErr lerr es"
    and reach: "reachable (Server_step isErr cancels lerr cerr es) http_start s"
  shows "(http_ctx s \<or> cancels (http_results s) \<longrightarrow>
      (\<forall>evs t. exec (timely_step isErr cancels lerr cerr es) evs s = Some t \<longrightarrow> Server_returns wait t = None \<longrightarrow>
        clock t \<le> clock s + shutdownTimeout
        \<and> (\<exists>evs' u. exec (timely_step isErr cancels lerr cerr es) evs' t = Some u \<and> list_all (http_own es) evs'
             \<and> Server_returns wait u \<noteq> None \<and> clock u \<le> clock s + shutdownTimeout)))
    \<and> (\<forall>evs t. stop s = AwaitCtx \<longrightarrow> \<not> lerr (ErrDeadlineExceeded es) \<longrightarrow> \<not> cerr (ErrDeadlineExceeded es) \<longrightarrow>
        exec (Server_step isErr cancels lerr cerr es) evs s = Some t \<longrightarrow>
        Server_returns wait t = Some (Some (ErrDeadlineExceeded es)) \<longrightarrow> clock s + shutdownTimeout \<le> clock t)
    \<and> (\<forall>g evs t. reachable (GRPCRunner_step cancels aerr refused) grpc_start g \<longrightarrow> 0 < calls g \<longrightarrow>
        exec (GRPCRunner_step cancels aerr refused) evs g = Some t \<longrightarrow> CallEnds \<notin> set evs \<longrightarrow>
        GRPCRunner_returns wrap wait t = None)"
proof (intro conjI allI impI)
  have fine: "http_fine lerr cerr es s" by (rule invariant_of.inv_reachable [OF http_invariant [OF assms(1,2)] reach])
  fix evs t
  assume over: "http_ctx s \<or> cancels (http_results s)" and t: "exec (timely_step isErr cancels lerr cerr es) evs s = Some t"
    and run: "Server_returns wait t = None"
  have "in_time cancels (clock s) s" using fine over by (auto simp: in_time_def http_fine_def shutdownTimeout_def)
  note now = in_time_exec [OF assms(1,2) fine this t]
  then show bound: "clock t \<le> clock s + shutdownTimeout"
    using run by (cases "serve t") (auto simp: in_time_def Server_returns_def split: if_splits)
  obtain u where u: "exec (timely_step isErr cancels lerr cerr es) (stop_http es t) t = Some u" "Server_returns wait u \<noteq> None"
    using http_stops [of lerr cerr es t cancels isErr wait] now by (auto simp: in_time_def)
  have "clock u \<le> clock s + shutdownTimeout" by (rule stop_http_clock [OF _ _ bound u(1)]) (use now run in simp_all)
  then show "\<exists>evs' u. exec (timely_step isErr cancels lerr cerr es) evs' t = Some u \<and> list_all (http_own es) evs'
      \<and> Server_returns wait u \<noteq> None \<and> clock u \<le> clock s + shutdownTimeout"
    using u stop_http_own by blast
next
  fix evs t
  assume s: "stop s = AwaitCtx" and fine: "\<not> lerr (ErrDeadlineExceeded es)" "\<not> cerr (ErrDeadlineExceeded es)"
    and t: "exec (Server_step isErr cancels lerr cerr es) evs s = Some t"
    and ret: "Server_returns wait t = Some (Some (ErrDeadlineExceeded es))"
  have "deadline_kept es (clock s) t"
    by (rule deadline_kept_exec [where lerr = lerr and cerr = cerr and es = es,
          OF fine assms(2) not_yet_stopped [where lerr = lerr and cerr = cerr and es = es, OF fine assms(2) reach s] t])
  moreover have "Some (ErrDeadlineExceeded es) \<in> set (http_results t)"
    using ret group_lawsD(1) [OF assms(1)] by (auto simp: Server_returns_def split: if_splits dest: first_error_Some_mem)
  ultimately show "clock s + shutdownTimeout \<le> clock t" by (simp add: deadline_kept_def)
next
  fix g evs t
  assume "reachable (GRPCRunner_step cancels aerr refused) grpc_start g" "0 < calls g"
    "exec (GRPCRunner_step cancels aerr refused) evs g = Some t" "CallEnds \<notin> set evs"
  then have "grpc_fine aerr refused t \<and> 0 < calls t"
    using grpc_pending_call [OF assms(1) invariant_of.inv_reachable [OF grpc_invariant [OF assms(1)]]] by blast
  then show "GRPCRunner_returns wrap wait t = None"
    by (auto simp: grpc_fine_def GRPCRunner_returns_def split: gserve_pc.splits)
qed

text \<open>
  A server with an open request whose context ends at time 0: after three seconds it is still
  running, and it can return by second five; it cannot have returned \<open>DeadlineExceeded\<close> before.
\<close>

theorem shutdown_bounded_witness:
  "(\<exists>s t evs u. exec (Server_step (=) (\<lambda>rs. first_error rs \<noteq> None) (\<lambda>e. e = ''bind'') (\<lambda>e. e = ''close'') demo_sentinels)
       [Connect, HttpCtx] demo_http = Some s
     \<and> exec (timely_step (=) (\<lambda>rs. first_error rs \<noteq> None) (\<lambda>e. e = ''bind'') (\<lambda>e. e = ''close'') demo_sentinels)
       [BeginShutdown, ServeReturns ''closed'', Elapse 3000000000] s = Some t \<and> Server_returns first_error t = None
     \<and> exec (timely_step (=) (\<lambda>rs. first_error rs \<noteq> None) (\<lambda>e. e = ''bind'') (\<lambda>e. e = ''close'') demo_sentinels) evs t = Some u
     \<and> Server_returns first_error u \<noteq> None \<and> clock u \<le> 5000000000)
   \<and> (\<exists>g. exec (GRPCRunner_step (\<lambda>rs. first_error rs \<noteq> None) (\<lambda>e. False) None) [Listen None, EnterServe, CallBegins] demo_grpc = Some g
     \<and> (\<exists>t. exec (GRPCRunner_step (\<lambda>rs. first_error rs \<noteq> None) (\<lambda>e. False) None) [GrpcCtx, BeginStop, ServeStops] g = Some t
        \<and> GRPCRunner_returns (\<lambda>e s. e) first_error t = None))"
proof -
  let ?h = "Server_step (=) (\<lambda>rs. first_error rs \<noteq> None) (\<lambda>e. e = ''bind'') (\<lambda>e. e = ''close'') demo_sentinels"
  let ?t = "timely_step (=) (\<lambda>rs. first_error rs \<noteq> None) (\<lambda>e. e = ''bind'') (\<lambda>e. e = ''close'') demo_sentinels"
  let ?g = "GRPCRunner_step (\<lambda>rs. first_error rs \<noteq> None) (\<lambda>e. False) (None :: string option)"
  have h: "\<exists>s t. exec ?h [Connect, HttpCtx] demo_http = Some s \<and> http_ctx s \<and> clock s = 0
      \<and> exec ?t [BeginShutdown, ServeReturns ''closed'', Elapse 3000000000] s = Some t \<and> Server_returns first_error t = None"
    by (simp add: demo_http_def timely_step_def may_elapse_def demo_sentinels_def shutdownTimeout_def Server_returns_def serve_result_def)
  then obtain s t where s: "exec ?h [Connect, HttpCtx] demo_http = Some s" "http_ctx s" "clock s = 0"
    "exec ?t [BeginShutdown, ServeReturns ''closed'', Elapse 3000000000] s = Some t" "Server_returns first_error t = None" by blast
  have g: "\<exists>g t. exec ?g [Listen None, EnterServe, CallBegins] demo_grpc = Some g \<and> 0 < calls g
      \<and> exec ?g [GrpcCtx, BeginStop, ServeStops] g = Some t"
    by (simp add: demo_grpc_def)
  then obtain g t' where g: "exec ?g [Listen None, EnterServe, CallBegins] demo_grpc = Some g" "0 < calls g"
    "exec ?g [GrpcCtx, BeginStop, ServeStops] g = Some t'" by blast
  have rs: "reachable ?h http_start s"
    by (rule exec_reachable [OF reach_start s(1)]) (simp add: http_start_def demo_http_def)
  have rg: "reachable ?g grpc_start g"
    by (rule exec_reachable [OF reach_start g(1)]) (simp add: grpc_start_def demo_grpc_def)
  note bounded = shutdown_bounded [OF demo_laws rs, where aerr = "\<lambda>e. False" and refused = None and wrap = "\<lambda>e s. e"]
  have "\<exists>evs u. exec ?t evs t = Some u \<and> Server_returns first_error u \<noteq> None \<and> clock u \<le> clock s + shutdownTimeout"
    using bounded [THEN conjunct1] s(2,4,5) by blast
  moreover have "clock s + shutdownTimeout = 5000000000" using s(3) by (simp add: shutdownTimeout_def)
  moreover have "GRPCRunner_returns (\<lambda>e s. e) first_error t' = None"
    using bounded [THEN conjunct2, THEN conjunct2] rg g(2,3) by (metis grpc_event.distinct list.set_cases set_ConsD empty_iff empty_set)
  ultimately show ?thesis using s(1,4,5) g(1,3) by metis
qed

lemma length_running_update:
  "i < length ms \<Longrightarrow> ms ! i = None \<Longrightarrow>
     length (filter (\<lambda>m. m = None) ms) = Suc (length (filter (\<lambda>m. m = None) (ms[i := Some r])))"
proof (induction ms arbitrary: i)
  case (Cons m ms)
  then show ?case by (cases i) auto
qed simp

lemma group_finishes:
  assumes "group_laws wait cancels" and "members_fine cs g" and "group_over cancels g" and "\<forall>c \<in> set cs. responsive c"
  shows "\<exists>evs t. exec (group_step cancels cs) evs g = Some t \<and> list_all (\<lambda>m. m \<noteq> None) (members t)
     \<and> length evs \<le> length (filter (\<lambda>m. m = None) (members g))"
  using assms(2,3)
proof (induction "length (filter (\<lambda>m. m = None) (members g))" arbitrary: g)
  case 0
  then have "list_all (\<lambda>m. m \<noteq> None) (members g)" by (simp add: filter_empty_conv list_all_iff)
  then show ?case by (intro exI [of _ "[]"] exI [of _ g]) simp
next
  case (Suc n)
  have "filter (\<lambda>m. m = None) (members g) \<noteq> []" using Suc.hyps(2) by auto
  then have "None \<in> set (members g)" by (auto simp: filter_empty_conv)
  then obtain i where i: "i < length (members g)" "members g ! i = None"
    by (auto simp: in_set_conv_nth)
  have "i < length cs" using i(1) Suc.prems(1) by (simp add: members_fine_def)
  then have "responsive (cs ! i)" using assms(4) nth_mem by blast
  then obtain r where r: "(cs ! i) True r" unfolding responsive_def by blast
  let ?g = "g\<lparr>members := (members g)[i := Some r], results := results g @ [r]\<rparr>"
  have step: "group_step cancels cs (Member i r) g = Some ?g"
    using i r Suc.prems(2) by simp
  have "length (filter (\<lambda>m. m = None) ((members g)[i := Some r])) = n"
    using Suc.hyps(2) length_running_update [OF i, of r] by simp
  moreover have "group_over cancels ?g"
    using Suc.prems(2) group_lawsD(2) [OF assms(1)] by (auto simp: group_over_def split: option.splits)
  moreover have "members_fine cs ?g" by (rule group.inv_step [OF Suc.prems(1) step])
  ultimately obtain evs t where "exec (group_step cancels cs) evs ?g = Some t"
    "list_all (\<lambda>m. m \<noteq> None) (members t)" "length evs \<le> n"
    using Suc.hyps(1) [of ?g] by auto
  then show ?case
    using step Suc.hyps(2) by (intro exI [of _ "Member i r # evs"] exI [of _ t]) simp
qed

lemma group_blocked:
  assumes "members_fine cs g" and "i < length cs" and "\<And>o' r. \<not> (cs ! i) o' r"
  shows "WaitContext_returns isErr wrap wait es g = None"
proof -
  have "members g ! i = None" using assms by (cases "members g ! i") (auto simp: members_fine_def)
  then show ?thesis using assms(1,2) by (auto simp: members_fine_def WaitContext_returns_def list_all_length)
qed

text \<open>
  C22. When \<open>WaitContext\<close> ends. Once the context of the group is over (the caller cancelled it, a
  signal arrived or a runner failed) the group can be finished by its runners alone if each is
  responsive, with at most one step per runner; the runners \<open>Signals\<close>, \<open>Ticker\<close>, \<open>Server\<close>,
  \<open>GRPCRunner\<close> and \<open>ScheduleRunner\<close> all are. \<open>Worker\<close> is not: it does not look at its context,
  so with a channel that stays open and a handler that reports no worker failure \<open>WaitContext\<close>
  does not return in any continuation, signal or not.
\<close>

theorem wait_context_finishes:
  assumes "group_laws wait cancels" and "reachable (group_step cancels cs) (group_start cs) g"
    and "group_over cancels g"
  shows "((\<forall>c \<in> set cs. responsive c) \<longrightarrow>
      (\<exists>evs t. exec (group_step cancels cs) evs g = Some t \<and> length evs \<le> length cs
        \<and> WaitContext_returns isErr wrap wait es t \<noteq> None))
    \<and> list_all responsive [signals_contract es, ticker_contract isErr es, http_contract lerr cerr es,
        grpc_contract wrap aerr refused, cron_contract es]
    \<and> (open_worker_contract isErr es opts handler \<in> set cs \<longrightarrow> (\<forall>v. harmless isErr es handler v) \<longrightarrow>
        (\<forall>evs t. exec (group_step cancels cs) evs g = Some t \<longrightarrow> WaitContext_returns isErr wrap wait es t = None))"
proof (intro conjI impI allI)
  have fine: "members_fine cs g" by (rule group.inv_reachable [OF assms(2)])
  assume "\<forall>c \<in> set cs. responsive c"
  from group_finishes [OF assms(1) fine assms(3) this]
  obtain evs t where "exec (group_step cancels cs) evs g = Some t" "list_all (\<lambda>m. m \<noteq> None) (members t)"
    "length evs \<le> length (filter (\<lambda>m. m = None) (members g))" by blast
  moreover have "length (filter (\<lambda>m. m = None) (members g)) \<le> length cs"
    using fine length_filter_le [of "\<lambda>m. m = None" "members g"] by (simp add: members_fine_def)
  ultimately show "\<exists>evs t. exec (group_step cancels cs) evs g = Some t \<and> length evs \<le> length cs
      \<and> WaitContext_returns isErr wrap wait es t \<noteq> None"
    by (intro exI [of _ evs] exI [of _ t]) (simp add: WaitContext_returns_def)
next
  show "list_all responsive [signals_contract es, ticker_contract isErr es, http_contract lerr cerr es,
        grpc_contract wrap aerr refused, cron_contract es]"
    by (auto simp: responsive_def signals_contract_def ticker_contract_def http_contract_def grpc_contract_def
        cron_contract_def split: option.splits)
next
  fix evs t
  assume "open_worker_contract isErr es opts handler \<in> set cs" "\<forall>v. harmless isErr es handler v"
    "exec (group_step cancels cs) evs g = Some t"
  then show "WaitContext_returns isErr wrap wait es t = None"
    using group.inv_exec [OF group.inv_reachable [OF assms(2)]] open_worker_never_returns [of isErr es handler]
    by (metis group_blocked in_set_conv_nth)
qed

theorem wait_context_finishes_witness:
  "(\<exists>evs t. exec (group_step (\<lambda>rs. first_error rs \<noteq> None) demo_contracts) evs (demo_group\<lparr>parent_over := True\<rparr>) = Some t
     \<and> WaitContext_returns (=) (\<lambda>e s. e) first_error demo_sentinels t \<noteq> None)
   \<and> (\<forall>evs. case exec (group_step (\<lambda>rs. first_error rs \<noteq> None)
         [signals_contract demo_sentinels, open_worker_contract (=) demo_sentinels [] (\<lambda>v :: nat. None)])
         evs (demo_group\<lparr>parent_over := True\<rparr>) of
       None \<Rightarrow> True | Some t \<Rightarrow> WaitContext_returns (=) (\<lambda>e s. e) first_error demo_sentinels t = None)"
proof -
  let ?g = "demo_group\<lparr>parent_over := True\<rparr>"
  let ?w = "[signals_contract demo_sentinels, open_worker_contract (=) demo_sentinels [] (\<lambda>v :: nat. None)]"
  have reach: "reachable (group_step (\<lambda>rs. first_error rs \<noteq> None) cs) (group_start cs) ?g" if "length cs = 2" for cs
    using that by (intro reach_start) (simp add: group_start_def demo_group_def numeral_2_eq_2)
  have "group_over (\<lambda>rs. first_error rs \<noteq> None) ?g" by (simp add: group_over_def)
  then show ?thesis
    using wait_context_finishes [OF demo_laws(1) reach, of demo_contracts "(=)" "\<lambda>e s. e" demo_sentinels
        "\<lambda>e. False" "\<lambda>e. False" "\<lambda>e. False" None "[]" "\<lambda>v :: nat. None"]
      wait_context_finishes [OF demo_laws(1) reach, of ?w "(=)" "\<lambda>e s. e" demo_sentinels
        "\<lambda>e. False" "\<lambda>e. False" "\<lambda>e. False" None "[]" "\<lambda>v :: nat. None"]
    by (simp add: demo_contracts_def harmless_def split: option.split) blast
qed

text \<open>
  C40. With the request logger and then the panic recovery as the first options, no call of a
  unary method panics, whatever the handler and the interceptors after them do: a panic becomes
  the status \<open>Internal\<close> (its value reaches the log, not the client), other results pass
  unchanged, and every request is logged, last.
\<close>

theorem grpc_panics_recovered:
  assumes "\<And>m h. chain [] m h = h" and "\<And>i is m h. chain (i # is) m h = i m (chain is m h)"
  shows "grpc_serve chain ([WithRequestLogger, WithPanicReocvery] @ map WithUnaryInterceptor is) m handler req
    = (case chain is m handler req of
         (Panic p, l) \<Rightarrow> (Err StatusInternal, l @ [ErrorLog p, InfoLog m])
       | (r, l) \<Rightarrow> (r, l @ [InfoLog m]))"
proof -
  have "unaryInterceptors (fold (\<lambda>opt g. opt g) (map WithUnaryInterceptor is) g) = unaryInterceptors g @ is" for g
    by (induction "is" arbitrary: g) (simp_all add: WithUnaryInterceptor_def)
  then have "unaryInterceptors (grpc_config ([WithRequestLogger, WithPanicReocvery] @ map WithUnaryInterceptor is))
      = request_logging # recovering # is"
    by (simp add: grpc_config_def WithRequestLogger_def WithPanicReocvery_def)
  then show ?thesis
    by (simp add: grpc_serve_def assms request_logging_def recovering_def split: prod.split outcome.split)
qed

theorem grpc_panics_recovered_witness:
  "grpc_serve (\<lambda>is m h. foldr (\<lambda>i k. i m k) is h) [WithRequestLogger, WithPanicReocvery] ''Ping''
     (\<lambda>_. (Panic NilDereference, [])) (0 :: nat)
   = (Err StatusInternal :: (grpc_error, nat) outcome, [ErrorLog NilDereference, InfoLog ''Ping''])"
  using grpc_panics_recovered [of "\<lambda>is m h. foldr (\<lambda>i k. i m k) is h" "[]" "''Ping''"
      "\<lambda>_. (Panic NilDereference, [])" "0 :: nat"]
  by simp

end
