(* ===== verification/Graceful_App.thy ===== *)
theory Graceful_App
  imports Graceful_Claims
begin

text \<open>
  A whole application: \<open>WaitContext\<close> with the runners it starts, each an event system of its own,
  interleaved step by step. The locale \<open>runner_family\<close> is the interface of such runners of several
  kinds; an application of them refines the group of \<open>Graceful_Group\<close>, which knows a runner by its
  contract only, and \<open>stoppable_family\<close> adds that every runner can be stopped. Families are closed
  under sums, so that runners of different kinds run in one group.
\<close>

section \<open>The application\<close>

record ('s, 'r) app =
  app_parent :: bool
  procs :: "'s list"
  app_results :: "'r option list"

datatype 'e app_event = StopApp | Proc nat 'e

fun newly :: "'r option option \<Rightarrow> 'r option option \<Rightarrow> 'r option list" where
  "newly None (Some r) = [r]"
| "newly _ _ = []"

definition app_over :: "('r option list \<Rightarrow> bool) \<Rightarrow> ('s, 'r) app \<Rightarrow> bool" where
  "app_over cancels a \<longleftrightarrow> app_parent a \<or> cancels (app_results a)"

text \<open>
  \<open>step\<close>, \<open>ret\<close> and \<open>is_ctx\<close> are those of the runners: their steps, what they have returned, and the
  events by which the context they were given ends, which happen once the group's context is over.
\<close>

fun app_step :: "('r option list \<Rightarrow> bool) \<Rightarrow> ('e, 's) step \<Rightarrow> ('s \<Rightarrow> 'r option option) \<Rightarrow> ('e \<Rightarrow> bool)
    \<Rightarrow> ('e app_event, ('s, 'r) app) step" where
  "app_step cancels step ret is_ctx StopApp a = Some (a\<lparr>app_parent := True\<rparr>)"
| "app_step cancels step ret is_ctx (Proc i e) a =
     (if i < length (procs a) \<and> (is_ctx e \<longrightarrow> app_over cancels a)
      then map_option (\<lambda>s. a\<lparr>procs := (procs a)[i := s],
          app_results := app_results a @ newly (ret (procs a ! i)) (ret s)\<rparr>) (step e (procs a ! i))
      else None)"

definition as_group :: "('s \<Rightarrow> 'r option option) \<Rightarrow> ('s, 'r) app \<Rightarrow> 'r group" where
  "as_group ret a = \<lparr>parent_over = app_parent a, members = map ret (procs a), results = app_results a\<rparr>"

fun app_view :: "('e, 's) step \<Rightarrow> ('s \<Rightarrow> 'r option option) \<Rightarrow> 'e app_event \<Rightarrow> ('s, 'r) app \<Rightarrow> 'r group_event option" where
  "app_view step ret StopApp a = Some CancelParent"
| "app_view step ret (Proc i e) a = (case step e (procs a ! i) of
       None \<Rightarrow> None
     | Some s \<Rightarrow> (case newly (ret (procs a ! i)) (ret s) of [] \<Rightarrow> None | r # _ \<Rightarrow> Some (Member i r)))"

definition app_start :: "('s \<Rightarrow> bool) \<Rightarrow> ('s \<Rightarrow> bool) \<Rightarrow> ('s \<Rightarrow> 'r contract) \<Rightarrow> 'r contract list \<Rightarrow> ('s, 'r) app \<Rightarrow> bool" where
  "app_start start ctx promise cs a \<longleftrightarrow> map promise (procs a) = cs \<and> app_results a = []
     \<and> (\<forall>s \<in> set (procs a). start s \<and> (ctx s \<longrightarrow> app_parent a))"

text \<open>What \<open>WaitContext\<close> returns to the application.\<close>

definition app_returns :: "('e \<Rightarrow> 'e \<Rightarrow> bool) \<Rightarrow> ('e option \<Rightarrow> string \<Rightarrow> 'e option) \<Rightarrow> ('e option list \<Rightarrow> 'e option)
    \<Rightarrow> 'e sentinels \<Rightarrow> ('s \<Rightarrow> 'e option option) \<Rightarrow> ('s, 'e) app \<Rightarrow> 'e option option" where
  "app_returns isErr wrap wait es ret a = WaitContext_returns isErr wrap wait es (as_group ret a)"

section \<open>Families of runners\<close>

locale runner_family = invariant_of step start inv
  for step :: "('e, 's) step" and start and inv +
  fixes ctx :: "'s \<Rightarrow> bool" and ret :: "'s \<Rightarrow> 'r option option"
    and is_ctx :: "'e \<Rightarrow> bool" and promise :: "'s \<Rightarrow> 'r contract"
  assumes none_returned: "start s \<Longrightarrow> ret s = None"
    and ctx_only: "inv s \<Longrightarrow> step e s = Some s' \<Longrightarrow> ctx s' \<Longrightarrow> ctx s \<or> is_ctx e"
    and returns_once: "inv s \<Longrightarrow> step e s = Some s' \<Longrightarrow> ret s = Some r \<Longrightarrow> ret s' = Some r"
    and keeps_promise: "inv s \<Longrightarrow> ret s = Some r \<Longrightarrow> promise s (ctx s) r"
    and same_promise: "inv s \<Longrightarrow> step e s = Some s' \<Longrightarrow> promise s' = promise s"
    and promise_mono: "inv s \<Longrightarrow> promise s False r \<Longrightarrow> promise s True r"

definition app_fine :: "('s \<Rightarrow> bool) \<Rightarrow> ('s \<Rightarrow> bool) \<Rightarrow> ('s \<Rightarrow> 'r contract) \<Rightarrow> ('r option list \<Rightarrow> bool)
    \<Rightarrow> 'r contract list \<Rightarrow> ('s, 'r) app \<Rightarrow> bool" where
  "app_fine ok ctx promise cancels cs a \<longleftrightarrow> map promise (procs a) = cs
     \<and> (\<forall>s \<in> set (procs a). ok s \<and> (ctx s \<longrightarrow> app_over cancels a))"

lemma over_grows:
  assumes "group_laws wait cancels" and "app_over cancels a"
  shows "app_over cancels (a\<lparr>procs := ps, app_results := app_results a @ rs\<rparr>)"
  using assms(2) group_lawsD(2) [OF assms(1)] by (auto simp: app_over_def first_error_append split: option.splits)

context runner_family begin

lemma proc_step_fine:
  assumes laws: "group_laws wait cancels" and fine: "app_fine inv ctx promise cancels cs a"
    and i: "i < length (procs a)" and e: "is_ctx e \<Longrightarrow> app_over cancels a" and step: "step e (procs a ! i) = Some s"
  shows "app_fine inv ctx promise cancels cs (a\<lparr>procs := (procs a)[i := s], app_results := app_results a @ rs\<rparr>)"
proof -
  let ?b = "a\<lparr>procs := (procs a)[i := s], app_results := app_results a @ rs\<rparr>"
  have at_i: "inv (procs a ! i)" "ctx (procs a ! i) \<Longrightarrow> app_over cancels a"
    using fine nth_mem [OF i] by (auto simp: app_fine_def)
  have grow: "app_over cancels a \<Longrightarrow> app_over cancels ?b" by (rule over_grows [OF laws])
  have "map promise ((procs a)[i := s]) = map promise (procs a)"
    using i same_promise [OF at_i(1) step] by (simp add: map_update list_update_same_conv)
  moreover have "inv s \<and> (ctx s \<longrightarrow> app_over cancels ?b)"
    using inv_step [OF at_i(1) step] ctx_only [OF at_i(1) step] at_i(2) e grow by blast
  moreover have "\<forall>s \<in> set (procs a). inv s \<and> (ctx s \<longrightarrow> app_over cancels ?b)"
    using fine grow by (auto simp: app_fine_def)
  ultimately show ?thesis
    using fine update_insert [of "procs a" "\<lambda>s. inv s \<and> (ctx s \<longrightarrow> app_over cancels ?b)" s i] by (simp add: app_fine_def)
qed

lemma proc_step_sim:
  assumes laws: "group_laws wait cancels" and fine: "app_fine inv ctx promise cancels cs a"
    and i: "i < length (procs a)" and e: "is_ctx e \<Longrightarrow> app_over cancels a" and step: "step e (procs a ! i) = Some s"
  shows "case newly (ret (procs a ! i)) (ret s) of
      [] \<Rightarrow> map ret ((procs a)[i := s]) = map ret (procs a)
    | r # rs \<Rightarrow> ret (procs a ! i) = None \<and> ret s = Some r \<and> rs = [] \<and> (cs ! i) (app_over cancels a) r"
proof -
  have at_i: "inv (procs a ! i)" "ctx (procs a ! i) \<Longrightarrow> app_over cancels a" "promise (procs a ! i) = cs ! i"
    using fine nth_mem [OF i] i by (auto simp: app_fine_def)
  show ?thesis
  proof (cases "ret (procs a ! i) = None \<and> ret s \<noteq> None")
    case True
    then obtain r where r: "ret (procs a ! i) = None" "ret s = Some r" by auto
    have "(cs ! i) (ctx s) r"
      using keeps_promise [OF inv_step [OF at_i(1) step] r(2)] same_promise [OF at_i(1) step] at_i(3) by simp
    moreover have "ctx s \<Longrightarrow> app_over cancels a" using ctx_only [OF at_i(1) step] at_i(2) e by blast
    ultimately have "(cs ! i) (app_over cancels a) r"
      using promise_mono [OF at_i(1), of r] at_i(3) by (cases "ctx s"; cases "app_over cancels a") auto
    then show ?thesis using r by simp
  next
    case False
    have "ret s = ret (procs a ! i)" "newly (ret (procs a ! i)) (ret s) = []"
      using False returns_once [OF at_i(1) step] by (cases "ret (procs a ! i)"; auto)+
    then show ?thesis using i by (simp add: map_update list_update_same_conv)
  qed
qed

lemma app_simulates:
  assumes laws: "group_laws wait cancels"
  shows "simulates (app_step cancels step ret is_ctx) (app_start start ctx promise cs) (app_fine inv ctx promise cancels cs)
    (group_step cancels cs) (group_start cs) (as_group ret) (app_view step ret)"
proof
  show "app_fine inv ctx promise cancels cs a" if "app_start start ctx promise cs a" for a
    using that inv_start by (auto simp: app_start_def app_fine_def app_over_def)
  show "group_start cs (as_group ret a)" if "app_start start ctx promise cs a" for a
    using that none_returned
    by (auto simp: app_start_def group_start_def as_group_def map_replicate_const [symmetric] intro!: map_cong)
  fix a b ev
  assume fine: "app_fine inv ctx promise cancels cs a" and b: "app_step cancels step ret is_ctx ev a = Some b"
  have "app_fine inv ctx promise cancels cs b \<and> (case app_view step ret ev a of None \<Rightarrow> as_group ret b = as_group ret a
      | Some g \<Rightarrow> group_step cancels cs g (as_group ret a) = Some (as_group ret b))"
  proof (cases ev)
    case StopApp
    then show ?thesis using fine b by (auto simp: app_fine_def app_over_def as_group_def)
  next
    case (Proc i e)
    then obtain s where s: "i < length (procs a)" "is_ctx e \<Longrightarrow> app_over cancels a" "step e (procs a ! i) = Some s"
      "b = a\<lparr>procs := (procs a)[i := s], app_results := app_results a @ newly (ret (procs a ! i)) (ret s)\<rparr>"
      using b by (auto split: if_splits)
    have "length (procs a) = length cs" using fine by (auto simp: app_fine_def)
    then show ?thesis
      using proc_step_fine [OF laws fine s(1-3)] proc_step_sim [OF laws fine s(1-3)] s Proc
      by (auto simp: as_group_def group_over_def app_over_def map_update split: list.splits)
  qed
  then show "app_fine inv ctx promise cancels cs b" and "case app_view step ret ev a of None \<Rightarrow> as_group ret b = as_group ret a
      | Some g \<Rightarrow> group_step cancels cs g (as_group ret a) = Some (as_group ret b)" by simp_all
qed

end

section \<open>Families that can be stopped\<close>

text \<open>\<open>own\<close> tells the steps of the runners themselves from those of their clients.\<close>

locale stoppable_family = runner_family step start inv ctx ret is_ctx promise
  for step :: "('e, 's) step" and start inv ctx and ret :: "'s \<Rightarrow> 'r option option" and is_ctx promise +
  fixes alive :: "'s \<Rightarrow> bool" and own :: "'e \<Rightarrow> bool"
  assumes can_return: "inv s \<Longrightarrow> alive s \<Longrightarrow> ret s = None \<Longrightarrow>
    \<exists>es t. exec step es s = Some t \<and> list_all own es \<and> ret t \<noteq> None"

text \<open>The events of an application that are steps of its runners.\<close>

fun proc_event :: "('e \<Rightarrow> bool) \<Rightarrow> 'e app_event \<Rightarrow> bool" where
  "proc_event own StopApp = False"
| "proc_event own (Proc i e) = own e"

lemma proc_runs:
  assumes laws: "group_laws wait cancels" and "app_over cancels a" and "i < length (procs a)"
    and "exec step es (procs a ! i) = Some t"
  shows "\<exists>b. exec (app_step cancels step ret is_ctx) (map (Proc i) es) a = Some b
    \<and> procs b = (procs a)[i := t] \<and> app_over cancels b"
  using assms(2-4)
proof (induction es arbitrary: a)
  case Nil
  then show ?case by auto
next
  case (Cons e es)
  then obtain s where s: "step e (procs a ! i) = Some s" "exec step es s = Some t" by (auto split: option.splits)
  let ?a = "a\<lparr>procs := (procs a)[i := s], app_results := app_results a @ newly (ret (procs a ! i)) (ret s)\<rparr>"
  have "app_over cancels ?a" by (rule over_grows [OF laws Cons.prems(1)])
  then obtain b where "exec (app_step cancels step ret is_ctx) (map (Proc i) es) ?a = Some b"
    "procs b = (procs ?a)[i := t]" "app_over cancels b"
    using Cons.IH [of ?a] Cons.prems(2) s(2) by auto
  then show ?case using s(1) Cons.prems(1,2) by (intro exI [of _ b]) simp
qed

context stoppable_family begin

lemma procs_return:
  assumes laws: "group_laws wait cancels" and "app_over cancels a" and "\<forall>s \<in> set (procs a). inv s \<and> alive s"
    and "n \<le> length (procs a)"
  shows "\<exists>es b. exec (app_step cancels step ret is_ctx) es a = Some b \<and> app_over cancels b
    \<and> length (procs b) = length (procs a) \<and> (\<forall>i < n. ret (procs b ! i) \<noteq> None) \<and> drop n (procs b) = drop n (procs a)
    \<and> list_all (proc_event own) es"
  using assms(4)
proof (induction n)
  case 0
  then show ?case using assms(2) by (intro exI [of _ "[]"] exI [of _ a]) simp
next
  case (Suc n)
  then obtain es b where b: "exec (app_step cancels step ret is_ctx) es a = Some b" "app_over cancels b"
    "length (procs b) = length (procs a)" "\<forall>i < n. ret (procs b ! i) \<noteq> None" "drop n (procs b) = drop n (procs a)"
    "list_all (proc_event own) es" by auto
  have n: "n < length (procs b)" using Suc.prems b(3) by simp
  then have "procs b ! n = procs a ! n" using b(3,5) by (metis Cons_nth_drop_Suc list.sel(1))
  then have "inv (procs b ! n) \<and> alive (procs b ! n)" using assms(3) n b(3) by simp
  then have "\<exists>fs t. exec step fs (procs b ! n) = Some t \<and> list_all own fs \<and> ret t \<noteq> None"
    using can_return [of "procs b ! n"] by (cases "ret (procs b ! n)") (auto intro!: exI [of _ "[]"])
  then obtain fs t where t: "exec step fs (procs b ! n) = Some t" "list_all own fs" "ret t \<noteq> None" by blast
  obtain c where c: "exec (app_step cancels step ret is_ctx) (map (Proc n) fs) b = Some c"
    "procs c = (procs b)[n := t]" "app_over cancels c" using proc_runs [OF laws b(2) n t(1)] by blast
  have "drop (Suc n) (procs b) = drop (Suc n) (procs a)" using b(5) by (metis drop_Suc tl_drop)
  then show ?case
    using b c n t(2,3) by (intro exI [of _ "es @ map (Proc n) fs"] exI [of _ c])
      (auto simp: exec_append less_Suc_eq nth_list_update list_all_iff)
qed

lemma app_can_return:
  assumes "group_laws wait cancels" and "app_over cancels a" and "\<forall>s \<in> set (procs a). inv s \<and> alive s"
  shows "\<exists>es b. exec (app_step cancels step ret is_ctx) es a = Some b \<and> list_all (proc_event own) es
    \<and> app_returns isErr wrap wait' sent ret b \<noteq> None"
proof -
  obtain es b where "exec (app_step cancels step ret is_ctx) es a = Some b" "list_all (proc_event own) es"
    "length (procs b) = length (procs a)" "\<forall>i < length (procs a). ret (procs b ! i) \<noteq> None"
    using procs_return [OF assms order.refl] by blast
  then show ?thesis
    by (intro exI [of _ es] exI [of _ b]) (simp add: app_returns_def WaitContext_returns_def as_group_def list_all_length)
qed

end

section \<open>Runners of one kind\<close>

definition mono_contract :: "'r contract \<Rightarrow> bool" where
  "mono_contract c \<longleftrightarrow> (\<forall>r. c False r \<longrightarrow> c True r)"

lemma family_of_runner:
  assumes "runner_system step start ok ctx ret is_ctx c" and "mono_contract c"
    and "\<And>s. ok s \<Longrightarrow> alive s \<Longrightarrow> ret s = None \<Longrightarrow> \<exists>es t. exec step es s = Some t \<and> list_all own es \<and> ret t \<noteq> None"
  shows "stoppable_family step start ok ctx ret is_ctx (\<lambda>_. c) alive own"
proof -
  note sys = runner_system.ret_start [OF assms(1)] runner_system.ctx_step [OF assms(1)]
    runner_system.ret_once [OF assms(1)] runner_system.ret_promised [OF assms(1)]
  have "runner_family step start ok ctx ret is_ctx (\<lambda>_. c)"
    using sys assms(2) by (intro runner_family.intro runner_system.axioms(1) [OF assms(1)] runner_family_axioms.intro)
      (auto simp: mono_contract_def)
  then show ?thesis using assms(3) by (intro stoppable_family.intro stoppable_family_axioms.intro)
qed

section \<open>Runners of several kinds\<close>

fun sum_step :: "('e, 's) step \<Rightarrow> ('f, 't) step \<Rightarrow> ('e + 'f, 's + 't) step" where
  "sum_step f g (Inl e) (Inl s) = map_option Inl (f e s)"
| "sum_step f g (Inr e) (Inr s) = map_option Inr (g e s)"
| "sum_step f g _ _ = None"

lemma sum_step_SomeE:
  assumes "sum_step f g e s = Some s'"
  obtains (left) e1 s1 s1' where "e = Inl e1" "s = Inl s1" "s' = Inl s1'" "f e1 s1 = Some s1'"
    | (right) e2 s2 s2' where "e = Inr e2" "s = Inr s2" "s' = Inr s2'" "g e2 s2 = Some s2'"
  using assms by (cases e; cases s) auto

lemma sum_exec_left: "exec (sum_step f g) (map Inl es) (Inl s) = map_option Inl (exec f es s)"
  by (induction es arbitrary: s) (auto split: option.splits)

lemma sum_exec_right: "exec (sum_step f g) (map Inr es) (Inr t) = map_option Inr (exec g es t)"
  by (induction es arbitrary: t) (auto split: option.splits)

lemma family_sum:
  assumes "stoppable_family f sf jf cf rf xf pf af ownf" and "stoppable_family g sg jg cg rg xg pg ag owng"
  shows "stoppable_family (sum_step f g) (case_sum sf sg) (case_sum jf jg) (case_sum cf cg) (case_sum rf rg)
    (case_sum xf xg) (case_sum pf pg) (case_sum af ag) (case_sum ownf owng)"
proof -
  note F = stoppable_family.axioms(1) [OF assms(1)] and G = stoppable_family.axioms(1) [OF assms(2)]
  note Fi = runner_family.axioms(1) [OF F] and Gi = runner_family.axioms(1) [OF G]
  have "invariant_of (sum_step f g) (case_sum sf sg) (case_sum jf jg)"
    using invariant_of.inv_start [OF Fi] invariant_of.inv_start [OF Gi] invariant_of.inv_step [OF Fi] invariant_of.inv_step [OF Gi]
    by (intro invariant_of.intro) (auto split: sum.splits elim!: sum_step_SomeE)
  moreover have "runner_family_axioms (sum_step f g) (case_sum sf sg) (case_sum jf jg) (case_sum cf cg) (case_sum rf rg)
      (case_sum xf xg) (case_sum pf pg)"
    using runner_family.none_returned [OF F] runner_family.none_returned [OF G]
      runner_family.returns_once [OF F] runner_family.returns_once [OF G]
      runner_family.keeps_promise [OF F] runner_family.keeps_promise [OF G] runner_family.same_promise [OF F]
      runner_family.same_promise [OF G] runner_family.promise_mono [OF F] runner_family.promise_mono [OF G]
    by (intro runner_family_axioms.intro) (auto split: sum.splits elim!: sum_step_SomeE
        dest: runner_family.ctx_only [OF F] runner_family.ctx_only [OF G])
  moreover have "\<exists>es t. exec (sum_step f g) es s = Some t \<and> list_all (case_sum ownf owng) es \<and> case_sum rf rg t \<noteq> None"
    if run: "case_sum jf jg s" "case_sum af ag s" "case_sum rf rg s = None" for s
  proof (cases s)
    case (Inl a)
    then obtain es t where "exec f es a = Some t" "list_all ownf es" "rf t \<noteq> None" using stoppable_family.can_return [OF assms(1), of a] run by auto
    then show ?thesis using Inl by (intro exI [of _ "map Inl es"] exI [of _ "Inl t"]) (simp add: sum_exec_left list_all_iff)
  next
    case (Inr b)
    then obtain es t where "exec g es b = Some t" "list_all owng es" "rg t \<noteq> None" using stoppable_family.can_return [OF assms(2), of b] run by auto
    then show ?thesis using Inr by (intro exI [of _ "map Inr es"] exI [of _ "Inr t"]) (simp add: sum_exec_right list_all_iff)
  qed
  ultimately show ?thesis by (intro stoppable_family.intro runner_family.intro stoppable_family_axioms.intro)
qed

text \<open>Errors of a library of its own, as values of Go's \<open>error\<close>.\<close>

definition embed_ret :: "('q \<Rightarrow> 'r) \<Rightarrow> ('s \<Rightarrow> 'q option option) \<Rightarrow> 's \<Rightarrow> 'r option option" where
  "embed_ret h ret s = map_option (map_option h) (ret s)"

definition embed_contract :: "('q \<Rightarrow> 'r) \<Rightarrow> 'q contract \<Rightarrow> 'r contract" where
  "embed_contract h c o' r \<longleftrightarrow> (\<exists>q. r = map_option h q \<and> c o' q)"

lemma family_embed:
  assumes "stoppable_family step start ok ctx ret is_ctx promise alive own"
  shows "stoppable_family step start ok ctx (embed_ret h ret) is_ctx (\<lambda>s. embed_contract h (promise s)) alive own"
proof -
  note F = stoppable_family.axioms(1) [OF assms]
  have "runner_family step start ok ctx (embed_ret h ret) is_ctx (\<lambda>s. embed_contract h (promise s))"
    using runner_family.none_returned [OF F] runner_family.ctx_only [OF F] runner_family.returns_once [OF F]
      runner_family.keeps_promise [OF F] runner_family.same_promise [OF F] runner_family.promise_mono [OF F]
    by (intro runner_family.intro runner_family.axioms(1) [OF F] runner_family_axioms.intro)
       (fastforce simp: embed_ret_def embed_contract_def)+
  then show ?thesis
    using stoppable_family.can_return [OF assms]
    by (intro stoppable_family.intro stoppable_family_axioms.intro) (auto simp: embed_ret_def)
qed

section \<open>Runners known by their contract\<close>

text \<open>
  \<open>Signals\<close>, \<open>Ticker\<close> and \<open>Worker\<close> are functions of what they receive, which keep a contract
  (\<open>Graceful_Group\<close>); in an application they take part as runners of that contract.
\<close>

fun contracted_step :: "('r runner_event, 'r contract \<times> 'r runner_run) step" where
  "contracted_step e (c, s) = map_option (Pair c) (runner_step c e s)"

definition contracted_start :: "'r contract \<times> 'r runner_run \<Rightarrow> bool" where
  "contracted_start x \<longleftrightarrow> runner_start (snd x) \<and> mono_contract (fst x)"

definition contracted_fine :: "'r contract \<times> 'r runner_run \<Rightarrow> bool" where
  "contracted_fine x \<longleftrightarrow> mono_contract (fst x) \<and> (\<forall>r. ended (snd x) = Some r \<longrightarrow> fst x (over (snd x)) r)"

interpretation contracted: stoppable_family contracted_step contracted_start contracted_fine "\<lambda>x. over (snd x)"
    "\<lambda>x. ended (snd x)" "\<lambda>e. e = CtxOver" fst "\<lambda>x. responsive (fst x)" "\<lambda>e. True"
proof (unfold_locales, goal_cases)
  case (2 x e x')
  then show ?case by (cases x; cases e) (auto simp: contracted_fine_def mono_contract_def split: if_splits; metis (full_types))+
next
  case (4 x e x')
  then show ?case by (cases x; cases e) (auto split: if_splits)
next
  case (5 x e x' r)
  then show ?case by (cases x; cases e) (auto split: if_splits)
next
  case (7 x e x')
  then show ?case by (cases x; cases e) (auto split: if_splits)
next
  case (9 x)
  then obtain c s r where "x = (c, s)" "c True r" "ended s = None" by (cases x) (auto simp: responsive_def)
  then show ?case by (intro exI [of _ "[CtxOver, Return r]"]) simp
qed (auto simp: contracted_start_def contracted_fine_def runner_start_def mono_contract_def)

end
