(* ===== verification/Pool_Runner.thy ===== *)
theory Pool_Runner
  imports Graceful_Claims Worker_Claims
begin

text \<open>
  The worker pool as a runner of a \<open>WaitContext\<close> group: \<open>pool.Start\<close> has the type of a
  \<open>graceful.Runner\<close>. \<open>Worker_Pool\<close> lets the context of the pool's error group end at any time; here
  it ends when the context given to \<open>Start\<close> is done or a worker has returned an error
  (\<open>cancels\<close>), as \<open>errgroup.WithContext\<close> has it. This event system meets the interface of a runner.
\<close>

section \<open>Start with its context\<close>

record 'v start_run =
  parent_done :: bool
  refused_start :: bool    \<comment> \<open>\<open>Start\<close> found the pool closed\<close>
  on_pool :: "'v pool_run"

datatype 'v start_event = ParentDone | OnPool "'v pool_event"

definition may_happen :: "(pool_error option list \<Rightarrow> bool) \<Rightarrow> 'v pool_event \<Rightarrow> 'v start_run \<Rightarrow> bool" where
  "may_happen cancels e s \<longleftrightarrow> (case e of
       Cancel \<Rightarrow> parent_done s \<or> cancels (returned (on_pool s))
     | CallStart \<Rightarrow> \<not> refused_start s
     | _ \<Rightarrow> True)"

fun start_step :: "(pool_error option list \<Rightarrow> bool) \<Rightarrow> ('v start_event, 'v start_run) step" where
  "start_step cancels ParentDone s = Some (s\<lparr>parent_done := True\<rparr>)"
| "start_step cancels (OnPool e) s =
     (if may_happen cancels e s
      then map_option (\<lambda>p. s\<lparr>on_pool := p, refused_start := refused_start s \<or> e = CallStart \<and> closed (on_pool s)\<rparr>)
        (pool_step e (on_pool s))
      else None)"

definition start_ready :: "'v start_run \<Rightarrow> bool" where
  "start_ready s \<longleftrightarrow> \<not> refused_start s \<and> pool_start (on_pool s)"

definition Start_result ::
    "(pool_error option list \<Rightarrow> pool_error option) \<Rightarrow> 'v start_run \<Rightarrow> pool_error option option" where
  "Start_result wait s = (if refused_start s then Some (Some ErrPoolClosed) else Start_returns wait (on_pool s))"

text \<open>\<open>Start\<close> returns the error of its context, that of a handler, or refuses a closed pool; never nil.\<close>

definition start_contract :: "pool_error contract" where
  "start_contract o' r \<longleftrightarrow> o' \<and> r = Some ContextErr \<or> r = Some ErrPoolClosed \<or> (\<exists>h. r = Some (HandlerErr h))"

section \<open>Why it returned\<close>

definition result_ok :: "bool \<Rightarrow> pool_error option \<Rightarrow> bool" where
  "result_ok c r \<longleftrightarrow> r = None \<or> c \<and> r = Some ContextErr \<or> (\<exists>h. r = Some (HandlerErr h))"

fun exit_ok :: "bool \<Rightarrow> 'v worker_pc \<Rightarrow> bool" where
  "exit_ok c (WExit r) = result_ok c r"
| "exit_ok c _ = True"

definition exits_ok :: "bool \<Rightarrow> 'v pool_run \<Rightarrow> bool" where
  "exits_ok b p \<longleftrightarrow> (\<forall>w \<in> set (spawned p). exit_ok (cancelled p) w)
     \<and> (cancelled p \<longrightarrow> b \<or> first_error (returned p) \<noteq> None)
     \<and> result_ok b (first_error (returned p))
     \<and> (scaler p = SDone \<longrightarrow> cancelled p \<and> first_error (returned p) \<noteq> None)"

lemma worker_exits:
  assumes "exits_ok b p" and "i < length (spawned p)" and "worker_loop e i p = Some p'"
  shows "exits_ok b p'"
proof (cases "e = Leave")
  case True
  then obtain r where pc: "spawned p ! i = WExit r" using assms(3) by (cases "spawned p ! i") simp_all
  have "result_ok (cancelled p) r" using assms(1) nth_mem [OF assms(2)] pc by (force simp: exits_ok_def)
  moreover have "\<forall>w \<in> set ((spawned p)[i := WDone]). exit_ok (cancelled p) w"
    using assms(1) by (intro update_insert) (simp_all add: exits_ok_def)
  ultimately show ?thesis
    using assms(1,3) True pc by (cases r) (auto simp: exits_ok_def result_ok_def split: option.splits)
next
  case False
  obtain w where p': "spawned p' = (spawned p)[i := w]" and w: "exit_ok (cancelled p) w"
  proof (cases e)
    case EndBusy
    then show thesis using assms(3) that by (auto simp: result_ok_def split: worker_pc.splits option.splits)
  next
    case HandlerPanics
    then show thesis using assms(3) that [of "spawned p ! i"] by (auto split: worker_pc.splits)
  qed (use assms(3) False that in \<open>auto simp: result_ok_def split: worker_pc.splits if_splits list.splits\<close>)
  have "\<forall>w \<in> set (spawned p'). exit_ok (cancelled p) w"
    unfolding p' using assms(1) w by (intro update_insert) (simp_all add: exits_ok_def)
  moreover have "returned p' = returned p \<or> returned p' = returned p @ [None]"
    using assms(3) False by (cases e) (auto split: worker_pc.splits if_splits list.splits)
  ultimately show ?thesis
    using assms(1) worker_frame [OF assms(3)] by (auto simp: exits_ok_def split: option.splits)
qed

lemma spawn_exits: "exits_ok b p \<Longrightarrow> exits_ok b ((spawn p)\<lparr>to_spawn := n\<rparr>)"
  by (auto simp: exits_ok_def spawn_def)

lemma scaler_exits: "exits_ok b p \<Longrightarrow> autoscaler e p = Some p' \<Longrightarrow> exits_ok b p'"
  by (cases e) (auto simp: exits_ok_def result_ok_def spawn_def split: scaler_pc.splits nat.splits decision.splits
      if_splits option.splits)

lemma pool_exits:
  assumes "exits_ok b p" and "pool_step e p = Some p'" and "e = Cancel \<Longrightarrow> b \<or> first_error (returned p) \<noteq> None"
  shows "exits_ok b p'"
proof (cases e)
  case (AtWorker ev i)
  then show ?thesis using assms worker_exits [of b p i ev p'] by (auto simp: not_le split: if_splits)
next
  case (AtScaler ev)
  then show ?thesis using assms scaler_exits [of b p ev p'] by (auto split: if_splits)
next
  case (AtSubmit ev i)
  then show ?thesis using assms by (cases ev) (auto simp: exits_ok_def split: submit_pc.splits if_splits)
next
  case (AtClose ev i)
  then show ?thesis using assms by (cases ev) (auto simp: exits_ok_def split: closer_pc.splits if_splits)
next
  case CallStart
  then show ?thesis using assms by (auto simp: Start_def exits_ok_def split: if_splits)
next
  case StartSpawn
  then show ?thesis using assms spawn_exits by (auto simp: start_spawn_def split: if_splits nat.splits)
next
  case Cancel
  have "exit_ok True w" if "exit_ok (cancelled p) w" for w :: "'a worker_pc"
    using that by (cases w) (auto simp: result_ok_def)
  then show ?thesis using assms Cancel by (auto simp: exits_ok_def split: if_splits)
qed (use assms in \<open>auto simp: exits_ok_def split: if_splits\<close>)

definition start_fine :: "'v start_run \<Rightarrow> bool" where
  "start_fine s \<longleftrightarrow> exits_ok (parent_done s) (on_pool s)"

lemma exits_ok_mono: "exits_ok b p \<Longrightarrow> exits_ok True p"
  by (auto simp: exits_ok_def result_ok_def)

lemma start_invariant:
  assumes laws: "group_laws wait cancels"
  shows "invariant_of (start_step cancels) start_ready start_fine"
proof
  show "start_ready s \<Longrightarrow> start_fine s" for s :: "'a start_run"
    by (auto simp: start_ready_def start_fine_def exits_ok_def result_ok_def pool_start_fields)
       (auto simp: pool_start_def launch_def pool.defs pool_run.defs)
  fix s s' :: "'a start_run" and e
  assume fine: "start_fine s" and step: "start_step cancels e s = Some s'"
  show "start_fine s'"
  proof (cases e)
    case ParentDone
    then show ?thesis using fine step exits_ok_mono by (auto simp: start_fine_def)
  next
    case (OnPool pe)
    have "parent_done s \<or> first_error (returned (on_pool s)) \<noteq> None" if "pe = Cancel"
      using step OnPool that group_lawsD(2) [OF laws] by (auto simp: may_happen_def split: if_splits)
    then show ?thesis
      using fine step OnPool pool_exits [of "parent_done s" "on_pool s" pe] by (auto simp: start_fine_def split: if_splits)
  qed
qed

section \<open>Start is a runner\<close>

lemma done_workers_stuck:
  "list_all (\<lambda>w. case w of WDone \<Rightarrow> True | _ \<Rightarrow> False) ws \<Longrightarrow> i < length ws \<Longrightarrow> ws ! i = WDone"
  by (cases "ws ! i") (auto simp: list_all_length)

lemma start_returns_once:
  assumes "pool_step e p = Some p'" and "Start_returns wait p = Some r"
  shows "Start_returns wait p' = Some r"
proof -
  have all: "list_all (\<lambda>w. case w of WDone \<Rightarrow> True | _ \<Rightarrow> False) (spawned p)" and s: "scaler p = SDone" "to_spawn p = 0"
    using assms(2) by (auto simp: Start_returns_def split: if_splits)
  have stuck: "worker_loop ev i p = None" if "i < length (spawned p)" for ev i
    using done_workers_stuck [OF all that] by (cases ev) simp_all
  have idle: "autoscaler ev p = None" for ev using s by (cases ev) simp_all
  show ?thesis
  proof (cases e)
    case (AtSubmit ev i)
    then show ?thesis
      using assms by (cases ev) (auto simp: Start_returns_def split: submit_pc.splits if_splits)
  next
    case (AtClose ev i)
    then show ?thesis
      using assms by (cases ev) (auto simp: Start_returns_def split: closer_pc.splits if_splits)
  next
    case (AtWorker ev i)
    then show ?thesis using assms(1) stuck by (auto split: if_splits)
  next
    case (AtScaler ev)
    then show ?thesis using assms(1) idle by (auto split: if_splits)
  qed (use assms s in \<open>auto simp: Start_returns_def start_spawn_def split: if_splits\<close>)
qed

lemma pool_step_cancelled:
  assumes "pool_step e p = Some p'"
  shows "cancelled p' \<longleftrightarrow> cancelled p \<or> e = Cancel"
proof (cases e)
  case (AtWorker ev i)
  then show ?thesis using assms worker_frame(3) [of ev i p p'] by (auto split: if_splits)
next
  case (AtScaler ev)
  then show ?thesis using assms by (cases ev)
      (auto simp: spawn_def split: if_splits scaler_pc.splits nat.splits decision.splits)
next
  case (AtSubmit ev i)
  then show ?thesis using assms by (cases ev) (auto split: if_splits submit_pc.splits)
next
  case (AtClose ev i)
  then show ?thesis using assms by (cases ev) (auto split: if_splits closer_pc.splits)
next
  case CallStart
  then show ?thesis using assms by (auto simp: Start_def split: if_splits)
next
  case StartSpawn
  then show ?thesis using assms by (auto simp: start_spawn_def spawn_fields split: if_splits nat.splits)
qed (use assms in \<open>auto split: if_splits\<close>)

lemma start_runner:
  assumes laws: "group_laws wait cancels"
  shows "runner_system (start_step cancels) start_ready start_fine parent_done (Start_result wait)
    (\<lambda>e. e = ParentDone) start_contract"
proof (rule runner_system.intro [OF start_invariant [OF laws]], unfold_locales, goal_cases)
  case (1 s)
  then show ?case by (simp add: start_ready_def Start_result_def Start_returns_def pool_start_fields)
next
  case (2 s e s')
  then show ?case by (cases e) (auto split: if_splits)
next
  case (3 s e s')
  then show ?case by (auto simp: Start_result_def)
next
  case (4 s e s' r)
  show ?case
  proof (cases e)
    case (OnPool pe)
    have "scaler (on_pool s) = SDone" if "\<not> refused_start s"
      using 4(3) that by (auto simp: Start_result_def Start_returns_def split: if_splits)
    then show ?thesis
      using 4 OnPool start_returns_once [of pe "on_pool s" _ wait r] by (auto simp: Start_result_def split: if_splits)
  qed (use 4 in \<open>auto simp: Start_result_def\<close>)
next
  case (5 s r)
  show ?case
  proof (cases "refused_start s")
    case True
    then show ?thesis using 5 by (auto simp: Start_result_def start_contract_def)
  next
    case False
    then have "r = first_error (returned (on_pool s))" "scaler (on_pool s) = SDone"
      using 5 group_lawsD(1) [OF laws] by (auto simp: Start_result_def Start_returns_def split: if_splits)
    then show ?thesis using 5(1) by (auto simp: start_fine_def exits_ok_def result_ok_def start_contract_def)
  qed
qed

section \<open>Start can always be stopped\<close>

text \<open>A pool that can be stopped: nothing has panicked, and the ticker of the autoscaler has a positive period.\<close>

definition start_alive :: "'v start_run \<Rightarrow> bool" where
  "start_alive s \<longleftrightarrow> crashed (on_pool s) = None \<and> 0 < pollingFreq (cfg (on_pool s))"

text \<open>The steps of the pool itself: the call of \<open>Start\<close>, its contexts, workers and autoscaler; no \<open>Submit\<close> or \<open>Close\<close>.\<close>

fun start_own :: "'v start_event \<Rightarrow> bool" where
  "start_own ParentDone = True"
| "start_own (OnPool e) = (own_step e \<or> e = CallStart \<or> e = Cancel)"

lemma own_steps_of_start:
  assumes "exec pool_step es (on_pool s) = Some q" and "list_all own_step es"
  shows "exec (start_step cancels) (map OnPool es) s = Some (s\<lparr>on_pool := q\<rparr>)"
  using assms
proof (induction es arbitrary: s)
  case (Cons e es)
  then obtain p where p: "pool_step e (on_pool s) = Some p" "exec pool_step es p = Some q" by (auto split: option.splits)
  have "start_step cancels (OnPool e) s = Some (s\<lparr>on_pool := p\<rparr>)"
    using p(1) Cons.prems(2) by (cases e) (auto simp: may_happen_def)
  then show ?case using Cons.IH [of "s\<lparr>on_pool := p\<rparr>"] p(2) Cons.prems(2) by simp
qed simp

lemma started_can_return:
  assumes "start_alive s" and "scaler (on_pool s) \<noteq> SNone"
  shows "\<exists>es t. exec (start_step cancels) es s = Some t \<and> list_all start_own es \<and> Start_result wait t \<noteq> None"
proof -
  let ?s = "s\<lparr>parent_done := True, on_pool := (on_pool s)\<lparr>cancelled := True\<rparr>\<rparr>"
  have start: "exec (start_step cancels) [ParentDone, OnPool Cancel] s = Some ?s"
    using assms(1) by (simp add: may_happen_def start_alive_def)
  obtain es q where q: "exec pool_step es (on_pool ?s) = Some q" "list_all own_step es" "Start_returns wait q \<noteq> None"
    using start_finishes [of "on_pool ?s" wait] assms by (auto simp: start_alive_def)
  have "exec (start_step cancels) ([ParentDone, OnPool Cancel] @ map OnPool es) s = Some (?s\<lparr>on_pool := q\<rparr>)"
    unfolding exec_append start using own_steps_of_start [OF q(1,2)] by simp
  moreover have "Start_result wait (?s\<lparr>on_pool := q\<rparr>) \<noteq> None" using q(3) by (simp add: Start_result_def)
  moreover have "list_all start_own ([ParentDone, OnPool Cancel] @ map OnPool es)" using q(2) by (simp add: list_all_iff)
  ultimately show ?thesis by blast
qed

lemma start_can_return:
  assumes "start_alive s"
  shows "\<exists>es t. exec (start_step cancels) es s = Some t \<and> list_all start_own es \<and> Start_result wait t \<noteq> None"
proof (cases "refused_start s \<or> scaler (on_pool s) \<noteq> SNone")
  case True
  then show ?thesis
    using started_can_return [OF assms] by (cases "refused_start s") (auto simp: Start_result_def intro!: exI [of _ "[]"])
next
  case False
  obtain t where t: "start_step cancels (OnPool CallStart) s = Some t"
    "refused_start t \<or> start_alive t \<and> scaler (on_pool t) \<noteq> SNone"
    using False assms by (cases "closed (on_pool s)") (auto simp: may_happen_def start_alive_def Start_def)
  show ?thesis
  proof (cases "refused_start t")
    case True
    then show ?thesis using t(1) by (intro exI [of _ "[OnPool CallStart]"] exI [of _ t]) (simp add: Start_result_def)
  next
    case False
    then obtain es u where "exec (start_step cancels) es t = Some u" "list_all start_own es" "Start_result wait u \<noteq> None"
      using started_can_return t(2) by blast
    then show ?thesis using t(1) by (intro exI [of _ "OnPool CallStart # es"] exI [of _ u]) simp
  qed
qed

end
