(* ===== verification/Observer.thy ===== *)
theory Observer
  imports Go_Steps Go_Errgroup
begin

text \<open>
  The event subject \<open>src/observer/observer.go\<close>. The record \<open>subject\<close> is the struct
  \<open>Subject\<close> (the mutex makes registration and lookup atomic steps; the unbuffered channel makes
  delivery a rendezvous of a \<open>Notify\<close> and an idle worker), \<open>subject_run\<close> adds the calls of
  \<open>Notify\<close> and \<open>Run\<close> in progress, the workers and four history lists. Events are
  pointers: \<open>None\<close> is a nil one. Observers are parameters: the events choose their results and panics
  and the order in which they return. So are the
  error groups, the one of \<open>Run\<close> and the one of each event: \<open>wait\<close> is what \<open>Wait\<close> reports,
  \<open>cancels\<close> when the context derived for the workers is cancelled.
\<close>

record 'd event =
  Name :: string
  Data :: 'd

datatype observer_error = ContextDone | UpdateErr string

record 'o subject =
  eventChClosed :: bool
  workersCount :: int
  workers :: "string \<Rightarrow> 'o list option"

definition NewSubject :: "int \<Rightarrow> 'o subject" where
  "NewSubject n = \<lparr>eventChClosed = False, workersCount = n, workers = (\<lambda>_. None)\<rparr>"

text \<open>The program points of a worker; \<open>OGroup\<close> has the handlers that have not returned yet.\<close>

datatype ('d, 'o) observer_pc =
    OSelect
  | OGot "'d event option"
  | OGroup "'d event" "'o list" "observer_error option list"
  | ODone "observer_error option"

datatype 'd notify_pc = NSend "'d event option" | NDone

text \<open>
  A call of \<open>Run\<close>: whether the context it was given is done, what its workers returned to the
  error group, in that order, and what it returned itself.
\<close>

record run_state =
  ctx_done :: bool
  run_results :: "observer_error option list"
  returned :: "observer_error option option"

record ('d, 'o) subject_run = "'o subject" +
  notifiers :: "'d notify_pc list"
  runs :: "run_state list"
  crew :: "(nat \<times> ('d, 'o) observer_pc) list"
  crashed :: "go_panic option"
  taken :: "'d event option list"
  lookups :: "('d event \<times> 'o list) list"
  updates :: "('d event \<times> 'o) list"
  failures :: "(nat \<times> observer_error) list"

definition fresh :: "int \<Rightarrow> ('d, 'o) subject_run" where
  "fresh n = subject.extend (NewSubject n) (subject_run.fields [] [] [] None [] [] [] [])"

section \<open>Operations\<close>

definition Register :: "string \<Rightarrow> 'o \<Rightarrow> ('o, 'm) subject_scheme \<Rightarrow> ('o, 'm) subject_scheme" where
  "Register ev observer s =
     (let s = (if workers s ev = None then s\<lparr>workers := (workers s)(ev \<mapsto> [])\<rparr> else s)
      in s\<lparr>workers := (workers s)(ev \<mapsto> the (workers s ev) @ [observer])\<rparr>)"

abbreviation at :: "nat \<Rightarrow> ('d, 'o) observer_pc \<Rightarrow> ('d, 'o) subject_run \<Rightarrow> ('d, 'o) subject_run" where
  "at i w s \<equiv> s\<lparr>crew := (crew s)[i := (fst (crew s ! i), w)]\<rparr>"

text \<open>A worker returns to the error group of its \<open>Run\<close>.\<close>

definition leave :: "nat \<Rightarrow> observer_error option \<Rightarrow> ('d, 'o) subject_run \<Rightarrow> ('d, 'o) subject_run" where
  "leave i r s =
     (let k = fst (crew s ! i) in
      (at i (ODone r) s)\<lparr>runs := (runs s)[k := (runs s ! k)\<lparr>run_results := run_results (runs s ! k) @ [r]\<rparr>]\<rparr>)"

text \<open>The context the workers of a \<open>Run\<close> see.\<close>

definition run_over :: "(observer_error option list \<Rightarrow> bool) \<Rightarrow> run_state \<Rightarrow> bool" where
  "run_over cancels r \<longleftrightarrow> ctx_done r \<or> cancels (run_results r)"

datatype observer_event = OCtx | OClosed | OLookup | OReturn nat "observer_error option" | OPanic nat | OWait

primrec worker :: "(observer_error option list \<Rightarrow> observer_error option) \<Rightarrow> (observer_error option list \<Rightarrow> bool)
    \<Rightarrow> observer_event \<Rightarrow> nat \<Rightarrow> ('d, 'o) subject_run \<Rightarrow> ('d, 'o) subject_run option" where
  "worker wait cancels OCtx i s = (case snd (crew s ! i) of
       OSelect \<Rightarrow> if run_over cancels (runs s ! fst (crew s ! i)) then Some (leave i (Some ContextDone) s) else None
     | _ \<Rightarrow> None)"
| "worker wait cancels OClosed i s = (case snd (crew s ! i) of
       OSelect \<Rightarrow> if eventChClosed s then Some (leave i None s) else None
     | _ \<Rightarrow> None)"
| "worker wait cancels OLookup i s = (case snd (crew s ! i) of
       OGot None \<Rightarrow> Some (s\<lparr>crashed := Some NilDereference\<rparr>)
     | OGot (Some ev) \<Rightarrow> (case workers s (Name ev) of
           Some (h # hs) \<Rightarrow> Some ((at i (OGroup ev (h # hs) []) s)\<lparr>lookups := lookups s @ [(ev, h # hs)]\<rparr>)
         | _ \<Rightarrow> Some ((at i OSelect s)\<lparr>lookups := lookups s @ [(ev, [])]\<rparr>))
     | _ \<Rightarrow> None)"
| "worker wait cancels (OReturn j r) i s = (case snd (crew s ! i) of
       OGroup ev hs rs \<Rightarrow> if j < length hs
         then Some ((at i (OGroup ev (take j hs @ drop (Suc j) hs) (rs @ [r])) s)
                \<lparr>updates := updates s @ [(ev, hs ! j)],
                 failures := failures s @ (case r of None \<Rightarrow> [] | Some e \<Rightarrow> [(fst (crew s ! i), e)])\<rparr>)
         else None
     | _ \<Rightarrow> None)"
| "worker wait cancels (OPanic j) i s = (case snd (crew s ! i) of
       OGroup ev hs rs \<Rightarrow> if j < length hs then Some (s\<lparr>crashed := Some CallbackPanic\<rparr>) else None
     | _ \<Rightarrow> None)"
| "worker wait cancels OWait i s = (case snd (crew s ! i) of
       OGroup ev [] rs \<Rightarrow> Some (case wait rs of None \<Rightarrow> at i OSelect s | Some e \<Rightarrow> leave i (Some e) s)
     | _ \<Rightarrow> None)"

definition Run :: "('d, 'o) subject_run \<Rightarrow> ('d, 'o) subject_run" where
  "Run s = s\<lparr>runs := runs s @ [\<lparr>ctx_done = False, run_results = [], returned = None\<rparr>],
     crew := crew s @ replicate (nat (workersCount s)) (length (runs s), OSelect)\<rparr>"

text \<open>\<open>Run\<close> waits for its workers, closes the channel and returns what the error group reports.\<close>

definition is_done :: "('d, 'o) observer_pc \<Rightarrow> bool" where
  "is_done w = (case w of ODone _ \<Rightarrow> True | _ \<Rightarrow> False)"

definition Run_return :: "(observer_error option list \<Rightarrow> observer_error option) \<Rightarrow> nat
    \<Rightarrow> ('d, 'o) subject_run \<Rightarrow> ('d, 'o) subject_run option" where
  "Run_return wait r s =
     (if returned (runs s ! r) \<noteq> None \<or> \<not> list_all (\<lambda>(k, w). k = r \<longrightarrow> is_done w) (crew s) then None
      else if eventChClosed s then Some (s\<lparr>crashed := Some CloseOfClosedChannel\<rparr>)
      else Some (s\<lparr>eventChClosed := True,
             runs := (runs s)[r := (runs s ! r)\<lparr>returned := Some (wait (run_results (runs s ! r)))\<rparr>]\<rparr>))"

definition Notify :: "'d event option \<Rightarrow> ('d, 'o) subject_run \<Rightarrow> ('d, 'o) subject_run" where
  "Notify ev s = s\<lparr>notifiers := notifiers s @ [NSend ev]\<rparr>"

text \<open>The send of \<open>Notify\<close>: it panics on a closed channel, else meets an idle worker.\<close>

definition send_closed :: "nat \<Rightarrow> ('d, 'o) subject_run \<Rightarrow> ('d, 'o) subject_run option" where
  "send_closed n s = (case notifiers s ! n of
       NSend ev \<Rightarrow> if eventChClosed s then Some (s\<lparr>crashed := Some SendOnClosedChannel\<rparr>) else None
     | NDone \<Rightarrow> None)"

definition rendezvous :: "nat \<Rightarrow> nat \<Rightarrow> ('d, 'o) subject_run \<Rightarrow> ('d, 'o) subject_run option" where
  "rendezvous n i s = (case (notifiers s ! n, snd (crew s ! i)) of
       (NSend ev, OSelect) \<Rightarrow> if eventChClosed s then None
         else Some ((at i (OGot ev) s)\<lparr>notifiers := (notifiers s)[n := NDone], taken := taken s @ [ev]\<rparr>)
     | _ \<Rightarrow> None)"

datatype ('d, 'o) subject_event =
    CallRegister string 'o
  | CallNotify "'d event option"
  | CallRun
  | CancelRun nat
  | Meet nat nat
  | SendClosed nat
  | AtObserver observer_event nat
  | ReturnRun nat

fun subject_step :: "(observer_error option list \<Rightarrow> observer_error option) \<Rightarrow> (observer_error option list \<Rightarrow> bool)
    \<Rightarrow> (('d, 'o) subject_event, ('d, 'o) subject_run) step" where
  "subject_step wait cancels (CallRegister ev o') s = (if crashed s \<noteq> None then None else Some (Register ev o' s))"
| "subject_step wait cancels (CallNotify ev) s = (if crashed s \<noteq> None then None else Some (Notify ev s))"
| "subject_step wait cancels CallRun s = (if crashed s \<noteq> None then None else Some (Run s))"
| "subject_step wait cancels (CancelRun r) s = (if crashed s \<noteq> None \<or> r \<ge> length (runs s) then None
     else Some (s\<lparr>runs := (runs s)[r := (runs s ! r)\<lparr>ctx_done := True\<rparr>]\<rparr>))"
| "subject_step wait cancels (Meet n i) s =
     (if crashed s \<noteq> None \<or> n \<ge> length (notifiers s) \<or> i \<ge> length (crew s) then None else rendezvous n i s)"
| "subject_step wait cancels (SendClosed n) s =
     (if crashed s \<noteq> None \<or> n \<ge> length (notifiers s) then None else send_closed n s)"
| "subject_step wait cancels (AtObserver e i) s =
     (if crashed s \<noteq> None \<or> i \<ge> length (crew s) then None else worker wait cancels e i s)"
| "subject_step wait cancels (ReturnRun r) s =
     (if crashed s \<noteq> None \<or> r \<ge> length (runs s) then None else Run_return wait r s)"

definition subject_start :: "('d, 'o) subject_run \<Rightarrow> bool" where
  "subject_start s \<longleftrightarrow> (\<exists>n. s = fresh n)"

end
