(* ===== verification/Observer_Props.thy ===== *)
theory Observer_Props
  imports Observer
begin

text \<open>
  What holds in every reachable state of a subject: every event a worker took is looked up once,
  every observer registered at that moment is updated with it exactly once, lookups see the
  registrations made before them, and the channel is closed by the return of \<open>Run\<close> only.
\<close>

definition handlers :: "('o, 'm) subject_scheme \<Rightarrow> string \<Rightarrow> 'o list" where
  "handlers s ev = (case workers s ev of None \<Rightarrow> [] | Some hs \<Rightarrow> hs)"

lemma handlers_Register [simp]:
  "handlers (Register ev o' s) ev' = handlers s ev' @ (if ev = ev' then [o'] else [])"
  by (auto simp: Register_def handlers_def Let_def split: option.split)

fun waiting :: "nat \<times> ('d, 'o) observer_pc \<Rightarrow> 'd event option multiset" where
  "waiting (k, OGot ev) = {#ev#}"
| "waiting (k, w) = {#}"

fun pending :: "nat \<times> ('d, 'o) observer_pc \<Rightarrow> ('d event \<times> 'o) multiset" where
  "pending (k, OGroup ev hs rs) = image_mset (Pair ev) (mset hs)"
| "pending (k, w) = {#}"

definition due :: "('d event \<times> 'o list) list \<Rightarrow> ('d event \<times> 'o) multiset" where
  "due ls = mset (concat (map (\<lambda>(ev, hs). map (Pair ev) hs) ls))"

lemma due_snoc [simp]: "due (ls @ [(ev, hs)]) = due ls + image_mset (Pair ev) (mset hs)"
  by (simp add: due_def)

definition run_ended :: "run_state list \<Rightarrow> bool" where
  "run_ended rs \<longleftrightarrow> (\<exists>r \<in> set rs. returned r \<noteq> None)"

definition channel_fine :: "('d, 'o) subject_run \<Rightarrow> bool" where
  "channel_fine s \<longleftrightarrow> (eventChClosed s \<longleftrightarrow> run_ended (runs s))
     \<and> (\<forall>q. crashed s = Some q \<longrightarrow> q \<in> {SendOnClosedChannel, CloseOfClosedChannel} \<and> eventChClosed s
          \<or> q = NilDereference \<and> (\<exists>c \<in> set (crew s). snd c = OGot None) \<or> q = CallbackPanic)"

definition events_fine :: "('d, 'o) subject_run \<Rightarrow> bool" where
  "events_fine s \<longleftrightarrow> mset (taken s) = mset (map (Some \<circ> fst) (lookups s)) + holding waiting (crew s)"

definition updates_fine :: "('d, 'o) subject_run \<Rightarrow> bool" where
  "updates_fine s \<longleftrightarrow> due (lookups s) = mset (updates s) + holding pending (crew s)"

section \<open>The channel\<close>

lemma leave_fields [simp]:
  "crew (leave i r s) = (crew s)[i := (fst (crew s ! i), ODone r)]" "workers (leave i r s) = workers s"
  "eventChClosed (leave i r s) = eventChClosed s" "workersCount (leave i r s) = workersCount s"
  "notifiers (leave i r s) = notifiers s" "crashed (leave i r s) = crashed s" "taken (leave i r s) = taken s"
  "lookups (leave i r s) = lookups s" "updates (leave i r s) = updates s" "failures (leave i r s) = failures s"
  by (simp_all add: leave_def Let_def)

lemma runs_leave: "runs (leave i r s) = (runs s)[fst (crew s ! i) := (runs s ! fst (crew s ! i))
    \<lparr>run_results := run_results (runs s ! fst (crew s ! i)) @ [r]\<rparr>]"
  by (simp add: leave_def Let_def)

text \<open>An update of one call of \<open>Run\<close> that keeps \<open>P\<close> of it keeps \<open>P\<close> of some call.\<close>

lemma some_run_update:
  assumes "P x \<longleftrightarrow> P (xs ! k)"
  shows "(\<exists>r \<in> set (xs[k := x]). P r) \<longleftrightarrow> (\<exists>r \<in> set xs. P r)"
proof (cases "k < length xs")
  case True
  then show ?thesis using assms unfolding Bex_def in_set_conv_nth
    by (metis length_list_update nth_list_update)
qed (simp add: list_update_beyond)

lemma run_ended_leave [simp]: "run_ended (runs (leave i r s)) = run_ended (runs s)"
  unfolding runs_leave run_ended_def by (rule some_run_update) simp

lemma run_ended_cancel [simp]: "run_ended (rs[k := (rs ! k)\<lparr>ctx_done := b\<rparr>]) = run_ended rs"
  unfolding run_ended_def by (rule some_run_update) simp

lemma run_ended_return: "k < length rs \<Longrightarrow> run_ended (rs[k := (rs ! k)\<lparr>returned := Some x\<rparr>])"
  unfolding run_ended_def by (rule bexI [OF _ set_update_memI]) simp_all

lemma run_ended_snoc [simp]: "run_ended (rs @ [r]) \<longleftrightarrow> run_ended rs \<or> returned r \<noteq> None" "\<not> run_ended []"
  by (auto simp: run_ended_def)

lemma channel_step:
  assumes "channel_fine s" and "subject_step wait cancels e s = Some s'"
  shows "channel_fine s'"
proof (cases e)
  case (AtObserver oe i)
  then show ?thesis
    using assms by (cases oe) (auto simp: channel_fine_def split: if_splits observer_pc.splits option.splits list.splits)
next
  case (ReturnRun r)
  then show ?thesis
    using assms by (auto simp: channel_fine_def Run_return_def not_le run_ended_return split: if_splits)
qed (use assms in \<open>auto simp: channel_fine_def Register_def Notify_def Run_def send_closed_def rendezvous_def Let_def
      split: if_splits notify_pc.splits observer_pc.splits\<close>)

interpretation subject_channel: invariant_of "subject_step wait cancels" subject_start channel_fine for wait cancels
proof
  show "subject_start s \<Longrightarrow> channel_fine s" for s :: "('a, 'b) subject_run"
    by (auto simp: subject_start_def fresh_def NewSubject_def subject.defs subject_run.defs channel_fine_def)
qed (rule channel_step)

section \<open>Events and updates\<close>

lemma events_step:
  assumes "events_fine s" and "subject_step wait cancels e s = Some s'"
  shows "events_fine s'"
proof (cases e)
  case (AtObserver oe i)
  obtain k w where c: "crew s ! i = (k, w)" by fastforce
  show ?thesis
  proof (cases oe)
    case OLookup
    then consider (nil) "w = OGot None" | ev where "w = OGot (Some ev)" and "i < length (crew s)"
      using assms AtObserver c by (auto split: if_splits observer_pc.splits option.splits)
    then show ?thesis
    proof cases
      case nil
      then show ?thesis using assms AtObserver OLookup c by (auto simp: events_fine_def split: if_splits)
    next
      case (2 ev)
      then obtain x hs where s': "s' = s\<lparr>crew := (crew s)[i := x], lookups := lookups s @ [(ev, hs)]\<rparr>"
        and x: "waiting x = {#}"
        using assms(2) AtObserver OLookup c by (auto split: if_splits option.splits list.splits)
      have "holding waiting (crew s) = holding waiting ((crew s)[i := x]) + {#Some ev#}"
        using holding_update_drop [of i "crew s" waiting x] 2 x c by simp
      then show ?thesis using assms(1) by (simp add: events_fine_def s')
    qed
  qed (use assms AtObserver c in \<open>auto simp: events_fine_def holding_update_same split: if_splits
      observer_pc.splits list.splits option.splits\<close>)
next
  case (Meet n i)
  obtain k w where "crew s ! i = (k, w)" by fastforce
  then show ?thesis
    using assms Meet by (auto simp: events_fine_def rendezvous_def holding_update_take
      split: if_splits notify_pc.splits observer_pc.splits)
qed (use assms in \<open>auto simp: events_fine_def Register_def Notify_def Run_def send_closed_def Run_return_def Let_def
      holding_replicate_empty split: if_splits notify_pc.splits\<close>)

lemma pending_return:
  "j < length hs \<Longrightarrow> pending (k, OGroup ev hs rs)
     = pending (k, OGroup ev (take j hs @ drop (Suc j) hs) rs') + {#(ev, hs ! j)#}"
  by (subst id_take_nth_drop [of j hs]) simp_all

lemma updates_step:
  assumes "updates_fine s" and "subject_step wait cancels e s = Some s'"
  shows "updates_fine s'"
proof (cases e)
  case (AtObserver oe i)
  obtain k w where c: "crew s ! i = (k, w)" by fastforce
  show ?thesis
  proof (cases oe)
    case (OReturn j r)
    then obtain ev hs rs where w: "w = OGroup ev hs rs" and i: "i < length (crew s)" and j: "j < length hs"
      and s': "crew s' = (crew s)[i := (k, OGroup ev (take j hs @ drop (Suc j) hs) (rs @ [r]))]"
        "updates s' = updates s @ [(ev, hs ! j)]" "lookups s' = lookups s"
      using assms AtObserver c by (auto split: if_splits observer_pc.splits)
    let ?x = "(k, OGroup ev (take j hs @ drop (Suc j) hs) (rs @ [r]))"
    have "holding pending ((crew s)[i := ?x]) + pending (crew s ! i) = holding pending (crew s) + pending ?x"
      using i by (rule holding_update)
    then have "holding pending ((crew s)[i := ?x]) + {#(ev, hs ! j)#} = holding pending (crew s)"
      unfolding c w pending_return [OF j, of k ev rs "rs @ [r]"] by (simp del: pending.simps)
    then show ?thesis using assms(1) c by (simp add: updates_fine_def s')
  qed (use assms AtObserver c in \<open>auto simp: updates_fine_def holding_update_same holding_update_take
      split: if_splits observer_pc.splits list.splits option.splits\<close>)
next
  case (Meet n i)
  obtain k w where "crew s ! i = (k, w)" by fastforce
  then show ?thesis
    using assms Meet by (auto simp: updates_fine_def rendezvous_def holding_update_same
      split: if_splits notify_pc.splits observer_pc.splits)
qed (use assms in \<open>auto simp: updates_fine_def Register_def Notify_def Run_def send_closed_def Run_return_def Let_def
      holding_replicate_empty split: if_splits notify_pc.splits\<close>)

lemma lookups_effect:
  assumes "subject_step wait cancels e s = Some s'" and "\<And>ev o'. e \<noteq> CallRegister ev o'"
  shows "workers s' = workers s"
    and "lookups s' = lookups s \<or> (\<exists>ev. lookups s' = lookups s @ [(ev, handlers s (Name ev))])"
proof -
  have "workers s' = workers s \<and>
      (lookups s' = lookups s \<or> (\<exists>ev. lookups s' = lookups s @ [(ev, handlers s (Name ev))]))"
  proof (cases e)
    case (AtObserver oe i)
    then show ?thesis
      using assms(1) by (cases oe) (force simp: handlers_def split: if_splits observer_pc.splits option.splits list.splits)+
  qed (use assms in \<open>auto simp: Notify_def Run_def send_closed_def Run_return_def rendezvous_def
      split: if_splits notify_pc.splits observer_pc.splits\<close>)
  then show "workers s' = workers s"
    and "lookups s' = lookups s \<or> (\<exists>ev. lookups s' = lookups s @ [(ev, handlers s (Name ev))])"
    by simp_all
qed

definition delivery_fine :: "('d, 'o) subject_run \<Rightarrow> bool" where
  "delivery_fine s \<longleftrightarrow> events_fine s \<and> updates_fine s"

interpretation delivery: invariant_of "subject_step wait cancels" subject_start delivery_fine for wait cancels
proof
  show "subject_start s \<Longrightarrow> delivery_fine s" for s :: "('a, 'b) subject_run"
    by (auto simp: subject_start_def fresh_def NewSubject_def subject.defs subject_run.defs delivery_fine_def
        events_fine_def updates_fine_def due_def)
  show "delivery_fine s \<Longrightarrow> subject_step wait cancels e s = Some s' \<Longrightarrow> delivery_fine s'" for e and s s' :: "('a, 'b) subject_run"
    by (auto simp: delivery_fine_def intro: events_step updates_step)
qed

lemma fresh_reachable: "exec (subject_step wait cancels) es (fresh n) = Some s \<Longrightarrow> reachable (subject_step wait cancels) subject_start s"
  by (rule exec_reachable [where start = subject_start, OF reachable.reach_start]) (auto simp: subject_start_def)

section \<open>Registrations\<close>

text \<open>The observers registered for an event in a run, in the order of the calls of \<open>Register\<close>.\<close>

fun registrations :: "('d, 'o) subject_event list \<Rightarrow> string \<Rightarrow> 'o list" where
  "registrations [] ev = []"
| "registrations (CallRegister ev' o' # es) ev = (if ev' = ev then o' # registrations es ev else registrations es ev)"
| "registrations (_ # es) ev = registrations es ev"

text \<open>The lookup a step makes after the events \<open>es\<close>: the event a worker holds, with all observers registered so far.\<close>

fun lookup_after :: "('d, 'o) subject_event list \<Rightarrow> ('d, 'o) subject_event \<Rightarrow> ('d, 'o) subject_run \<Rightarrow> ('d event \<times> 'o list) list" where
  "lookup_after es (AtObserver OLookup i) s = (case snd (crew s ! i) of
       OGot (Some ev) \<Rightarrow> [(ev, registrations es (Name ev))]
     | _ \<Rightarrow> [])"
| "lookup_after es _ s = []"

lemma handlers_step:
  assumes "subject_step wait cancels e s = Some s'"
  shows "handlers s' ev = handlers s ev @ registrations [e] ev"
proof (cases "\<exists>ev' o'. e = CallRegister ev' o'")
  case True
  then show ?thesis using assms by (auto split: if_splits)
next
  case False
  then have "workers s' = workers s" using lookups_effect(1) [OF assms] by blast
  moreover have "registrations [e] ev = []" using False by (cases e) auto
  ultimately show ?thesis by (simp add: handlers_def)
qed

lemma registrations_append: "registrations (es @ fs) ev = registrations es ev @ registrations fs ev"
  by (induction es ev rule: registrations.induct) auto

lemma handlers_registered:
  assumes "exec (subject_step wait cancels) es s = Some t"
  shows "handlers t ev = handlers s ev @ registrations es ev"
  using assms
proof (induction es arbitrary: s)
  case (Cons e es)
  then obtain u where u: "subject_step wait cancels e s = Some u" "exec (subject_step wait cancels) es u = Some t"
    by (auto split: option.splits)
  then show ?case using Cons.IH [OF u(2)] handlers_step [OF u(1), of ev] registrations_append [of "[e]" es ev] by simp
qed simp

lemma handlers_fresh: "exec (subject_step wait cancels) es (fresh n) = Some s \<Longrightarrow> handlers s ev = registrations es ev"
  using handlers_registered [of wait cancels es "fresh n" s ev]
  by (simp add: handlers_def fresh_def NewSubject_def subject.defs subject_run.defs)

lemma lookups_of_step:
  assumes "exec (subject_step wait cancels) es (fresh n) = Some s" and "subject_step wait cancels e s = Some s'"
  shows "lookups s' = lookups s @ lookup_after es e s"
proof (cases e)
  case (AtObserver oe i)
  show ?thesis
  proof (cases oe)
    case OLookup
    have "registrations es ev = (case workers s ev of None \<Rightarrow> [] | Some hs \<Rightarrow> hs)" for ev
      using handlers_fresh [OF assms(1), of ev] by (simp add: handlers_def)
    then show ?thesis using assms(2) AtObserver OLookup
      by (auto split: if_splits observer_pc.splits option.splits list.splits)
  qed (use assms(2) AtObserver in \<open>auto split: if_splits observer_pc.splits option.splits list.splits\<close>)
qed (use assms(2) in \<open>auto simp: Register_def Notify_def Run_def send_closed_def Run_return_def rendezvous_def Let_def
      split: if_splits notify_pc.splits observer_pc.splits\<close>)

text \<open>A lookup hands the event to all the observers it found.\<close>

lemma lookup_starts:
  assumes "exec (subject_step wait cancels) es (fresh n) = Some s" and "subject_step wait cancels (AtObserver OLookup i) s = Some s'"
    and "snd (crew s ! i) = OGot (Some ev)"
  shows "snd (crew s' ! i) = (if registrations es (Name ev) = [] then OSelect else OGroup ev (registrations es (Name ev)) [])"
proof -
  have "registrations es (Name ev) = (case workers s (Name ev) of None \<Rightarrow> [] | Some hs \<Rightarrow> hs)"
    using handlers_fresh [OF assms(1), of "Name ev"] by (simp add: handlers_def)
  then show ?thesis using assms(2,3) by (auto split: if_splits option.splits list.splits)
qed

section \<open>Properties\<close>

text \<open>
  C9. Fan-out is exact in every interleaving. After any run of a subject, an event a worker took is
  either waiting for its lookup or was looked up once, and every observer found by a lookup was
  updated with that event exactly once, or its update is still running. And every lookup, by the
  next step of the run, finds exactly the observers registered for the name of the event so far, all
  of them and in the order of their registration, and starts the updates of all of them.
\<close>

theorem observer_fanout_exact:
  assumes "exec (subject_step wait cancels) es (fresh n) = Some s"
  shows "mset (taken s) = mset (map (Some \<circ> fst) (lookups s)) + holding waiting (crew s)
    \<and> mset (updates s) + holding pending (crew s)
        = mset (concat (map (\<lambda>(ev, hs). map (Pair ev) hs) (lookups s)))
    \<and> (\<forall>e s'. subject_step wait cancels e s = Some s' \<longrightarrow> lookups s' = lookups s @ lookup_after es e s)
    \<and> (\<forall>i ev s'. subject_step wait cancels (AtObserver OLookup i) s = Some s' \<longrightarrow> snd (crew s ! i) = OGot (Some ev) \<longrightarrow>
        snd (crew s' ! i) = (if registrations es (Name ev) = [] then OSelect else OGroup ev (registrations es (Name ev)) []))"
  using delivery.inv_reachable [OF fresh_reachable [OF assms]] lookups_of_step [OF assms] lookup_starts [OF assms]
  by (auto simp: delivery_fine_def events_fine_def updates_fine_def due_def)

definition news :: "nat event" where "news = \<lparr>Name = ''block.new'', Data = 1\<rparr>"

definition fanout_events :: "(nat, string) subject_event list" where
  "fanout_events = [CallRegister ''block.new'' ''indexer'', CallRun, CallRegister ''block.old'' ''log'',
     CallNotify (Some news), Meet 0 0, CallRegister ''block.new'' ''cache'']"

text \<open>An observer registered after the event was taken, but before its lookup, gets it too.\<close>

theorem observer_fanout_exact_witness:
  "\<exists>s s' :: (nat, string) subject_run.
     exec (subject_step first_error (\<lambda>rs. first_error rs \<noteq> None)) fanout_events (fresh 1) = Some s
   \<and> subject_step first_error (\<lambda>rs. first_error rs \<noteq> None) (AtObserver OLookup 0) s = Some s'
   \<and> lookups s' = [(news, [''indexer'', ''cache''])] \<and> snd (crew s' ! 0) = OGroup news [''indexer'', ''cache''] []"
proof -
  let ?step = "subject_step first_error (\<lambda>rs. first_error rs \<noteq> None) :: ((nat, string) subject_event, _) step"
  have "\<exists>s s'. exec ?step fanout_events (fresh 1) = Some s \<and> ?step (AtObserver OLookup 0) s = Some s'
      \<and> snd (crew s ! 0) = OGot (Some news) \<and> lookups s = []"
    by (simp add: fanout_events_def fresh_def NewSubject_def subject.defs subject_run.defs Register_def Run_def
        Notify_def rendezvous_def news_def)
  then obtain s s' where s: "exec ?step fanout_events (fresh 1) = Some s" "?step (AtObserver OLookup 0) s = Some s'"
    "snd (crew s ! 0) = OGot (Some news)" "lookups s = []" by blast
  have reg: "registrations fanout_events (Name news) = [''indexer'', ''cache'']"
    by (simp add: fanout_events_def news_def)
  have "lookups s' = lookups s @ lookup_after fanout_events (AtObserver OLookup 0) s"
    "snd (crew s' ! 0) = (if registrations fanout_events (Name news) = [] then OSelect
       else OGroup news (registrations fanout_events (Name news)) [])"
    using observer_fanout_exact [OF s(1)] s(2,3) by blast+
  then have "lookups s' = [(news, [''indexer'', ''cache''])]" "snd (crew s' ! 0) = OGroup news [''indexer'', ''cache''] []"
    using s(3,4) reg by simp_all
  then show ?thesis using s(1,2) by blast
qed

lemma nil_was_taken:
  fixes s :: "('d, 'o) subject_run"
  assumes "events_fine s" and "\<exists>c \<in> set (crew s). snd c = OGot None"
  shows "None \<in> set (taken s)"
proof -
  obtain k where mem: "(k, OGot None) \<in> set (crew s)"
    and ev: "mset (taken s) = mset (map (Some \<circ> fst) (lookups s)) + holding waiting (crew s)"
    using assms by (auto simp: events_fine_def)
  have "None \<in># holding waiting cs" if "(k, OGot None) \<in> set cs" for cs :: "(nat \<times> ('d, 'o) observer_pc) list"
    using that by (induction cs) auto
  with mem have "None \<in># mset (taken s)" unfolding ev by simp
  then show "None \<in> set (taken s)" by simp
qed

text \<open>
  C34. A subject panics in three situations only: a send on its channel, or a second close of it,
  after a \<open>Run\<close> has returned; a nil event that a worker took; an observer that panics. The
  first two do arise: a \<open>Notify\<close> that was waiting for a worker when \<open>Run\<close> returned sends on the
  closed channel, although nothing but the end of the context happened, and a \<open>Notify\<close> of nil stops
  the process in the worker that takes it.
\<close>

theorem observer_panics_only:
  "(reachable (subject_step wait cancels) subject_start s \<longrightarrow> crashed s = Some q \<longrightarrow>
      q \<in> {SendOnClosedChannel, CloseOfClosedChannel} \<and> (\<exists>r \<in> set (runs s). returned r \<noteq> None)
      \<or> q = NilDereference \<and> None \<in> set (taken s) \<or> q = CallbackPanic)
   \<and> (\<exists>t. exec (subject_step wait cancels) [CallRun, CallNotify ev, CancelRun 0, AtObserver OCtx 0, ReturnRun 0, SendClosed 0]
        (fresh 1) = Some t \<and> crashed t = Some SendOnClosedChannel)
   \<and> (\<exists>t. exec (subject_step wait cancels) [CallRun, CallNotify None, Meet 0 0, AtObserver OLookup 0]
        (fresh 1) = Some t \<and> crashed t = Some NilDereference)"
proof (intro conjI impI)
  assume reach: "reachable (subject_step wait cancels) subject_start s" and q: "crashed s = Some q"
  have "channel_fine s" "events_fine s"
    using subject_channel.inv_reachable [OF reach] delivery.inv_reachable [OF reach] by (simp_all add: delivery_fine_def)
  with q nil_was_taken [of s] show "q \<in> {SendOnClosedChannel, CloseOfClosedChannel} \<and> (\<exists>r \<in> set (runs s). returned r \<noteq> None)
      \<or> q = NilDereference \<and> None \<in> set (taken s) \<or> q = CallbackPanic"
    by (auto simp: channel_fine_def run_ended_def)
qed (simp_all add: fresh_def NewSubject_def subject.defs subject_run.defs Run_def Notify_def rendezvous_def
      Run_return_def send_closed_def is_done_def runs_leave run_over_def)

theorem observer_panics_only_witness:
  "\<exists>s :: (nat, string) subject_run. reachable (subject_step first_error (\<lambda>rs. first_error rs \<noteq> None)) subject_start s
     \<and> crashed s = Some NilDereference \<and> None \<in> set (taken s)"
proof -
  obtain t :: "(nat, string) subject_run" where t: "exec (subject_step first_error (\<lambda>rs. first_error rs \<noteq> None))
      [CallRun, CallNotify None, Meet 0 0, AtObserver OLookup 0] (fresh 1) = Some t" "crashed t = Some NilDereference"
    using observer_panics_only [of first_error "\<lambda>rs. first_error rs \<noteq> None" _ _ None] by blast
  with fresh_reachable [OF t(1)]
    observer_panics_only [of first_error "\<lambda>rs. first_error rs \<noteq> None" t NilDereference None] show ?thesis
    by (intro exI [of _ t]) auto
qed

end
