(* ===== verification/Observer_Run.thy ===== *)
theory Observer_Run
  imports Observer_Props
begin

text \<open>
  What \<open>Run\<close> returns, and that it does. The relation \<open>run_effect\<close> is what one step of a subject
  does to its calls of \<open>Run\<close> and their workers; the invariants below are proved from it. The error
  groups behave as documented (\<open>group_laws\<close>).
\<close>

section \<open>What a step does to the workers\<close>

text \<open>The results of the observers a worker has collected for its event.\<close>

fun errs :: "('d, 'o) observer_pc \<Rightarrow> observer_error option list" where
  "errs (OGroup ev hs rs) = rs"
| "errs _ = []"

fun reported :: "observer_error option \<Rightarrow> observer_error list" where
  "reported None = []"
| "reported (Some e) = [e]"

inductive run_effect :: "('d, 'o) subject_run \<Rightarrow> ('d, 'o) subject_run \<Rightarrow> bool"
  for s s' :: "('d, 'o) subject_run" where
  none: "runs s' = runs s \<Longrightarrow> crew s' = crew s \<Longrightarrow> failures s' = failures s \<Longrightarrow> workersCount s' = workersCount s
    \<Longrightarrow> eventChClosed s' = eventChClosed s \<Longrightarrow> run_effect s s'"
| move: "i < length (crew s) \<Longrightarrow> crew s ! i = (k, w) \<Longrightarrow> crew s' = (crew s)[i := (k, w')]
    \<Longrightarrow> \<not> is_done w \<Longrightarrow> \<not> is_done w'
    \<Longrightarrow> errs w' = errs w @ [x] \<and> xs = reported x \<or> errs w' = [] \<and> first_error (errs w) = None \<and> xs = []
    \<Longrightarrow> runs s' = runs s \<Longrightarrow> failures s' = failures s @ map (Pair k) xs \<Longrightarrow> workersCount s' = workersCount s
    \<Longrightarrow> eventChClosed s' = eventChClosed s \<Longrightarrow> run_effect s s'"
| leaves: "i < length (crew s) \<Longrightarrow> crew s ! i = (k, w) \<Longrightarrow> \<not> is_done w
    \<Longrightarrow> x = Some ContextDone \<and> (ctx_done (runs s ! k) \<or> first_error (run_results (runs s ! k)) \<noteq> None) \<and> errs w = []
        \<or> x = None \<and> eventChClosed s \<and> errs w = [] \<or> x \<noteq> None \<and> first_error (errs w) = x
    \<Longrightarrow> s' = leave i x s \<Longrightarrow> run_effect s s'"
| begins: "s' = Run s \<Longrightarrow> run_effect s s'"
| cancel: "s' = s\<lparr>runs := (runs s)[r := (runs s ! r)\<lparr>ctx_done := True\<rparr>]\<rparr> \<Longrightarrow> run_effect s s'"
| returns: "r < length (runs s) \<Longrightarrow> returned (runs s ! r) = None
    \<Longrightarrow> list_all (\<lambda>(k, w). k = r \<longrightarrow> is_done w) (crew s) \<Longrightarrow> \<not> eventChClosed s
    \<Longrightarrow> s' = s\<lparr>eventChClosed := True,
          runs := (runs s)[r := (runs s ! r)\<lparr>returned := Some (first_error (run_results (runs s ! r)))\<rparr>]\<rparr>
    \<Longrightarrow> run_effect s s'"

lemma worker_effect:
  assumes laws: "group_laws wait cancels" and i: "i < length (crew s)" and step: "worker wait cancels e i s = Some s'"
  shows "run_effect s s'"
proof -
  obtain k w where c: "crew s ! i = (k, w)" by fastforce
  show ?thesis
  proof (cases e)
    case OCtx
    then show ?thesis using step c i group_lawsD(2) [OF laws]
      by (auto simp: run_over_def is_done_def split: observer_pc.splits if_splits
          intro!: run_effect.leaves [OF i c, where x = "Some ContextDone"])
  next
    case OClosed
    then show ?thesis using step c i
      by (auto simp: is_done_def split: observer_pc.splits if_splits intro!: run_effect.leaves [OF i c, where x = None])
  next
    case OLookup
    then obtain x where w: "w = OGot x" using step c by (auto split: observer_pc.splits)
    show ?thesis
    proof (cases x)
      case None
      then show ?thesis using step c w OLookup by (auto intro: run_effect.none)
    next
      case (Some ev)
      then show ?thesis using step c i OLookup w
        by (auto simp: is_done_def split: option.splits list.splits
            intro!: run_effect.move [OF i c, where x = None and xs = "[]"])
    qed
  next
    case (OPanic j)
    then show ?thesis using step c by (auto split: observer_pc.splits if_splits intro: run_effect.none)
  next
    case (OReturn j r)
    then obtain ev hs rs where "w = OGroup ev hs rs" using step c by (auto split: observer_pc.splits)
    then show ?thesis using step c i OReturn
      by (cases r) (auto simp: is_done_def split: if_splits
          intro!: run_effect.move [OF i c, where x = r and xs = "reported r"])
  next
    case OWait
    then obtain ev rs where w: "w = OGroup ev [] rs" using step c by (auto split: observer_pc.splits list.splits)
    show ?thesis
    proof (cases "first_error rs")
      case None
      then show ?thesis using step c i OWait w group_lawsD(1) [OF laws]
        by (auto simp: is_done_def intro!: run_effect.move [OF i c, where x = None and xs = "[]"])
    next
      case (Some err)
      then show ?thesis using step c i OWait w group_lawsD(1) [OF laws]
        by (auto simp: is_done_def intro!: run_effect.leaves [OF i c, where x = "Some err"])
    qed
  qed
qed

lemma subject_effect:
  assumes "group_laws wait cancels" and "subject_step wait cancels e s = Some s'"
  shows "run_effect s s'"
proof (cases e)
  case (AtObserver oe i)
  then show ?thesis using assms worker_effect [OF assms(1), of i s oe s'] by (auto split: if_splits)
next
  case (Meet n i)
  then obtain ev k where i: "i < length (crew s)" and c: "crew s ! i = (k, OSelect)"
    and "s' = (at i (OGot ev) s)\<lparr>notifiers := (notifiers s)[n := NDone], taken := taken s @ [ev]\<rparr>"
    using assms(2) by (cases "crew s ! i") (auto simp: rendezvous_def split: if_splits notify_pc.splits observer_pc.splits)
  then show ?thesis by (auto simp: is_done_def intro!: run_effect.move [OF i c, where x = None and xs = "[]"])
next
  case (ReturnRun r)
  show ?thesis
  proof (cases "eventChClosed s")
    case True
    then show ?thesis using assms(2) ReturnRun by (auto simp: Run_return_def split: if_splits intro: run_effect.none)
  next
    case False
    then show ?thesis using assms(2) ReturnRun group_lawsD(1) [OF assms(1)]
      by (auto simp: Run_return_def split: if_splits intro!: run_effect.returns [of r])
  qed
next
  case CallRun
  then show ?thesis using assms(2) by (auto split: if_splits intro: run_effect.begins)
next
  case (CancelRun r)
  then show ?thesis using assms(2) by (auto split: if_splits intro: run_effect.cancel)
qed (use assms(2) in \<open>auto simp: Register_def Notify_def send_closed_def Let_def split: if_splits notify_pc.splits
      intro!: run_effect.none\<close>)

section \<open>Invariants\<close>

text \<open>Every worker belongs to a call of \<open>Run\<close>, and every call has as many as the subject was made with.\<close>

definition crew_owned :: "('d, 'o) subject_run \<Rightarrow> bool" where
  "crew_owned s \<longleftrightarrow> (\<forall>c \<in> set (crew s). fst c < length (runs s))
     \<and> (\<forall>r < length (runs s). tally (\<lambda>c. fst c = r) (crew s) = max 0 (workersCount s))"

lemma owned_update:
  "\<forall>c \<in> set cs. fst c < n \<Longrightarrow> i < length cs \<Longrightarrow> cs ! i = (k, w) \<Longrightarrow> \<forall>c \<in> set (cs[i := (k, w')]). fst c < n"
  using set_update_subset_insert [of cs i "(k, w')"] by (metis fst_conv insertE nth_mem subsetD)

lemma crew_owned_effect:
  assumes "crew_owned s" and "run_effect s s'"
  shows "crew_owned s'"
  using assms(2)
proof cases
  case (move i k w w')
  then show ?thesis
    using assms(1) owned_update [of "crew s" "length (runs s)" i k w w'] by (simp add: crew_owned_def tally_update)
next
  case (leaves i k w x)
  then show ?thesis
    using assms(1) owned_update [of "crew s" "length (runs s)" i k w "ODone x"]
    by (simp add: crew_owned_def tally_update runs_leave)
next
  case begins
  have "tally (\<lambda>c. fst c = length (runs s)) (crew s) = 0"
    using assms(1) by (force simp: crew_owned_def tally_zero_iff)
  then show ?thesis
    using assms(1) begins by (auto simp: crew_owned_def Run_def less_Suc_eq)
qed (use assms(1) in \<open>simp_all add: crew_owned_def\<close>)

text \<open>The results of a call are those of its workers that have returned; once it has returned all have.\<close>

fun result_of :: "nat \<Rightarrow> nat \<times> ('d, 'o) observer_pc \<Rightarrow> observer_error option multiset" where
  "result_of r (k, ODone x) = (if k = r then {#x#} else {#})"
| "result_of r (k, w) = {#}"

lemma result_of_running: "\<not> is_done w \<Longrightarrow> result_of r (k, w) = {#}"
  by (cases w) (simp_all add: is_done_def)

lemma result_of_other: "k \<noteq> r \<Longrightarrow> result_of r (k, w) = {#}"
  by (cases w) simp_all

definition results_kept :: "('d, 'o) subject_run \<Rightarrow> nat \<Rightarrow> bool" where
  "results_kept s r \<longleftrightarrow> mset (run_results (runs s ! r)) = holding (result_of r) (crew s)
     \<and> (returned (runs s ! r) \<noteq> None \<longrightarrow> list_all (\<lambda>(k, w). k = r \<longrightarrow> is_done w) (crew s))"

lemma all_done_nth:
  "list_all (\<lambda>(k, w). k = r \<longrightarrow> is_done w) c \<Longrightarrow> i < length c \<Longrightarrow> c ! i = (k, w) \<Longrightarrow> \<not> is_done w \<Longrightarrow> k \<noteq> r"
  by (fastforce simp: list_all_length)

lemma all_done_update:
  "list_all (\<lambda>(k, w). k = r \<longrightarrow> is_done w) c \<Longrightarrow> k \<noteq> r \<Longrightarrow> list_all (\<lambda>(k, w). k = r \<longrightarrow> is_done w) (c[i := (k, w)])"
  using set_update_subset_insert [of c i "(k, w)"] by (auto simp: list_all_iff)

lemma results_kept_effect:
  assumes "crew_owned s" and "\<And>r. r < length (runs s) \<Longrightarrow> results_kept s r" and "run_effect s s'" and r: "r < length (runs s')"
  shows "results_kept s' r"
  using assms(3)
proof cases
  case (move i k w w')
  have "holding (result_of r) ((crew s)[i := (k, w')]) = holding (result_of r) (crew s)"
    using move by (intro holding_update_same) (simp_all add: result_of_running)
  moreover have "list_all (\<lambda>(k, w). k = r \<longrightarrow> is_done w) ((crew s)[i := (k, w')])"
    if "list_all (\<lambda>(k, w). k = r \<longrightarrow> is_done w) (crew s)"
    using all_done_update [OF that all_done_nth [OF that move(1,2,4)]] .
  ultimately show ?thesis using assms(2) [of r] r move by (simp add: results_kept_def)
next
  case (leaves i k w x)
  have k: "k < length (runs s)" using assms(1) nth_mem [OF leaves(1)] leaves(2) by (auto simp: crew_owned_def)
  have "holding (result_of r) ((crew s)[i := (k, ODone x)]) = holding (result_of r) (crew s) + (if k = r then {#x#} else {#})"
    using holding_update_take [OF leaves(1), of "result_of r" "(k, ODone x)"] leaves(2,3) by (simp add: result_of_running)
  moreover have "list_all (\<lambda>(k, w). k = r \<longrightarrow> is_done w) ((crew s)[i := (k, ODone x)])"
    if "list_all (\<lambda>(k, w). k = r \<longrightarrow> is_done w) (crew s)"
    using all_done_update [OF that all_done_nth [OF that leaves(1,2,3)]] .
  moreover have "length (runs s') = length (runs s)" using leaves by (simp add: runs_leave)
  ultimately show ?thesis
    using assms(2) [of r] r k leaves by (cases "r = k") (auto simp: results_kept_def runs_leave)
next
  case begins
  have "holding (result_of (length (runs s))) (crew s) = {#}"
  proof (rule holding_empty)
    fix c assume "c \<in> set (crew s)"
    then show "result_of (length (runs s)) c = {#}"
      using assms(1) result_of_other [of "fst c" "length (runs s)" "snd c"] by (auto simp: crew_owned_def)
  qed
  then show ?thesis
    using assms(2) [of r] r begins
    by (cases "r = length (runs s)")
       (auto simp: results_kept_def Run_def nth_append holding_replicate_empty list_all_iff)
next
  case (cancel r')
  then show ?thesis using assms(2) [of r] r by (cases "r' = r") (auto simp: results_kept_def)
next
  case (returns r')
  then show ?thesis using assms(2) [of r] r by (cases "r' = r") (auto simp: results_kept_def)
qed (use assms(2) [of r] r in \<open>simp add: results_kept_def\<close>)

text \<open>
  Every error a worker has collected was returned by an observer, and an observer's error is with
  a worker that will report it, unless its \<open>Run\<close> has an error already.
\<close>

definition failures_known :: "('d, 'o) subject_run \<Rightarrow> bool" where
  "failures_known s \<longleftrightarrow> (\<forall>(k, w) \<in> set (crew s). \<forall>e. Some e \<in> set (errs w) \<longrightarrow> (k, e) \<in> set (failures s))"

definition failures_pending :: "('d, 'o) subject_run \<Rightarrow> bool" where
  "failures_pending s \<longleftrightarrow> (\<forall>(k, e) \<in> set (failures s). k < length (runs s) \<and>
     (first_error (run_results (runs s ! k)) \<noteq> None \<or> (\<exists>c \<in> set (crew s). fst c = k \<and> first_error (errs (snd c)) \<noteq> None)))"

lemma failures_known_effect:
  assumes "failures_known s" and "run_effect s s'"
  shows "failures_known s'"
  using assms(2)
proof cases
  case (move i k w w' x xs)
  have at_i: "\<forall>e. Some e \<in> set (errs w) \<longrightarrow> (k, e) \<in> set (failures s)"
    using assms(1) nth_mem [OF move(1)] move(2) by (auto simp: failures_known_def)
  have "\<forall>e. Some e \<in> set (errs w') \<longrightarrow> (k, e) \<in> set (failures s')"
    using move at_i by (cases x) auto
  moreover have "\<forall>(k, w) \<in> set (crew s). \<forall>e. Some e \<in> set (errs w) \<longrightarrow> (k, e) \<in> set (failures s')"
    using assms(1) move by (auto simp: failures_known_def)
  ultimately show ?thesis
    unfolding failures_known_def move(3) by (intro update_insert) auto
next
  case (leaves i k w x)
  then show ?thesis using assms(1) unfolding failures_known_def leaves(5) leave_fields by (intro update_insert) auto
qed (use assms(1) in \<open>auto simp: failures_known_def Run_def\<close>)

lemma failing_update:
  assumes "c \<in> set cs" and "i < length cs" and "cs ! i = (k, w)"
    and "fst c = k' \<and> first_error (errs (snd c)) \<noteq> None"
  shows "(\<exists>c \<in> set (cs[i := (k, w')]). fst c = k' \<and> first_error (errs (snd c)) \<noteq> None) \<or> k = k' \<and> first_error (errs w) \<noteq> None"
proof -
  obtain j where j: "j < length cs" "cs ! j = c" using assms(1) by (auto simp: in_set_conv_nth)
  show ?thesis
  proof (cases "j = i")
    case True
    then have "c = (k, w)" using assms(3) j(2) by simp
    then show ?thesis using assms(4) by simp
  next
    case False
    then have "c \<in> set (cs[i := (k, w')])" using j by (metis length_list_update nth_list_update_neq nth_mem)
    then show ?thesis using assms(4) by blast
  qed
qed

definition pending_at :: "nat \<Rightarrow> ('d, 'o) subject_run \<Rightarrow> bool" where
  "pending_at k s \<longleftrightarrow> k < length (runs s) \<and>
     (first_error (run_results (runs s ! k)) \<noteq> None \<or> (\<exists>c \<in> set (crew s). fst c = k \<and> first_error (errs (snd c)) \<noteq> None))"

lemma failures_pending_iff: "failures_pending s \<longleftrightarrow> (\<forall>(k, e) \<in> set (failures s). pending_at k s)"
  by (simp add: failures_pending_def pending_at_def)

lemma pending_at_effect:
  assumes "crew_owned s" and "pending_at k s" and "run_effect s s'"
  shows "pending_at k s'"
  using assms(3)
proof cases
  case (move i j w w' x xs)
  have "(j, w') \<in> set (crew s')" using move(1,3) by (simp add: set_update_memI)
  then show ?thesis
    using assms(2) move(1-3,6,7) failing_update [of _ "crew s" i j w k w'] unfolding pending_at_def
    by (cases "first_error (errs w) = None") (fastforce split: option.splits)+
next
  case (leaves i j w x)
  have "j < length (runs s)" using assms(1) nth_mem [OF leaves(1)] leaves(2) by (auto simp: crew_owned_def)
  then show ?thesis
    using assms(2) leaves failing_update [of _ "crew s" i j w k "ODone x"]
    by (cases "k = j") (fastforce simp: pending_at_def runs_leave split: option.splits)+
next
  case begins
  then show ?thesis using assms(2) by (auto simp: pending_at_def Run_def nth_append)
next
  case (cancel r)
  then show ?thesis using assms(2) by (cases "r = k") (auto simp: pending_at_def)
next
  case (returns r)
  then show ?thesis using assms(2) by (cases "r = k") (auto simp: pending_at_def)
qed (use assms(2) in \<open>simp add: pending_at_def\<close>)

lemma failures_pending_effect:
  assumes "crew_owned s" and "failures_pending s" and "run_effect s s'"
  shows "failures_pending s'"
proof -
  have old: "pending_at k s'" if "(k, e) \<in> set (failures s)" for k e
    using assms(2) that pending_at_effect [OF assms(1) _ assms(3)] by (auto simp: failures_pending_iff)
  have "pending_at k s'" if "(k, e) \<in> set (failures s')" "(k, e) \<notin> set (failures s)" for k e
    using assms(3)
  proof cases
    case (move i j w w' x xs)
    then have "e \<in> set xs" "k = j" using that by auto
    then have "x = Some e" "errs w' = errs w @ [x]" using move(6) by (cases x; auto)+
    moreover have "(j, w') \<in> set (crew s')" using move(1,3) by (simp add: set_update_memI)
    moreover have "j < length (runs s')" using assms(1) nth_mem [OF move(1)] move(2,7) by (auto simp: crew_owned_def)
    ultimately show ?thesis using \<open>k = j\<close> by (fastforce simp: pending_at_def split: option.splits)
  qed (use that in \<open>auto simp: Run_def\<close>)
  with old show ?thesis by (auto simp: failures_pending_iff)
qed

text \<open>What a call of \<open>Run\<close> returns is what its workers returned first.\<close>

definition outcome_explained :: "('d, 'o) subject_run \<Rightarrow> nat \<Rightarrow> bool" where
  "outcome_explained s r \<longleftrightarrow>
     (\<forall>e. first_error (run_results (runs s ! r)) = Some e \<longrightarrow>
        e = ContextDone \<and> ctx_done (runs s ! r) \<or> (r, e) \<in> set (failures s))
     \<and> (None \<in> set (run_results (runs s ! r)) \<longrightarrow> eventChClosed s)
     \<and> (\<forall>x. returned (runs s ! r) = Some x \<longrightarrow>
        x = first_error (run_results (runs s ! r)) \<and> (x = None \<longrightarrow> workersCount s \<le> 0))"

lemma no_results_no_workers:
  assumes "crew_owned s" and "results_kept s r" and "r < length (runs s)" and "run_results (runs s ! r) = []"
    and "list_all (\<lambda>(k, w). k = r \<longrightarrow> is_done w) (crew s)"
  shows "workersCount s \<le> 0"
proof -
  have "fst c \<noteq> r" if mem: "c \<in> set (crew s)" for c
  proof
    assume r: "fst c = r"
    have "is_done (snd c)" using assms(5) mem r by (auto simp: list_all_iff)
    then obtain x where c: "c = (r, ODone x)" using r by (cases c) (auto simp: is_done_def split: observer_pc.splits)
    obtain i where "i < length (crew s)" "crew s ! i = c" using mem by (auto simp: in_set_conv_nth)
    then have "holding (result_of r) (crew s) \<noteq> {#}"
      using holding_update_drop [of i "crew s" "result_of r" "(r, OSelect)"] c by auto
    then show False using assms(2,4) by (simp add: results_kept_def)
  qed
  then have "tally (\<lambda>c. fst c = r) (crew s) = 0" by (auto simp: tally_zero_iff)
  then show ?thesis using assms(1,3) by (simp add: crew_owned_def)
qed

lemma outcome_explained_effect:
  assumes own: "crew_owned s" and kept: "\<And>r. r < length (runs s) \<Longrightarrow> results_kept s r"
    and known: "failures_known s" and old: "\<And>r. r < length (runs s) \<Longrightarrow> outcome_explained s r"
    and eff: "run_effect s s'" and r: "r < length (runs s')"
  shows "outcome_explained s' r"
  using eff
proof cases
  case (move i k w w' x xs)
  then show ?thesis using old [of r] r by (auto simp: outcome_explained_def)
next
  case (leaves i k w x)
  have k: "k < length (runs s)" using own nth_mem [OF leaves(1)] leaves(2) by (auto simp: crew_owned_def)
  have known_k: "(k, e) \<in> set (failures s)" if "first_error (errs w) = Some e" for e
    using known nth_mem [OF leaves(1)] leaves(2) first_error_Some_mem [OF that] by (auto simp: failures_known_def)
  have open_k: "returned (runs s ! k) = None"
    using kept [OF k] all_done_nth [OF _ leaves(1-3), of k] by (auto simp: results_kept_def)
  show ?thesis
  proof (cases "r = k")
    case True
    then show ?thesis
      using old [OF k] k leaves(2,4,5) known_k open_k by (auto simp: outcome_explained_def runs_leave split: option.splits)
  next
    case False
    then show ?thesis using old [of r] r leaves(2,5) by (auto simp: outcome_explained_def runs_leave)
  qed
next
  case begins
  then show ?thesis
    using old [of r] r by (cases "r = length (runs s)") (auto simp: outcome_explained_def Run_def nth_append)
next
  case (cancel r')
  then show ?thesis using old [of r] r by (cases "r' = r") (auto simp: outcome_explained_def)
next
  case (returns r')
  have "workersCount s \<le> 0" if "first_error (run_results (runs s ! r')) = None"
  proof -
    have "None \<notin> set (run_results (runs s ! r'))" using old [OF returns(1)] returns(4) by (simp add: outcome_explained_def)
    moreover have "\<forall>x \<in> set (run_results (runs s ! r')). x = None" using that by (simp only: first_error_None_iff)
    ultimately have "run_results (runs s ! r') = []" by (metis list.set_intros(1) neq_Nil_conv)
    then show ?thesis using no_results_no_workers [OF own kept [OF returns(1)] returns(1) _ returns(3)] by simp
  qed
  then show ?thesis using old [of r] r returns by (cases "r' = r") (auto simp: outcome_explained_def)
qed (use old [of r] r in \<open>auto simp: outcome_explained_def\<close>)

definition runs_fine :: "('d, 'o) subject_run \<Rightarrow> bool" where
  "runs_fine s \<longleftrightarrow> crew_owned s \<and> failures_known s \<and> failures_pending s
     \<and> (\<forall>r < length (runs s). results_kept s r \<and> outcome_explained s r)"

lemma runs_fine_effect: "runs_fine s \<Longrightarrow> run_effect s s' \<Longrightarrow> runs_fine s'"
  using crew_owned_effect [of s s'] failures_known_effect [of s s'] failures_pending_effect [of s s']
    results_kept_effect [of s s'] outcome_explained_effect [of s s']
  by (simp add: runs_fine_def)

lemma runs_invariant:
  assumes "group_laws wait cancels"
  shows "invariant_of (subject_step wait cancels) subject_start runs_fine"
proof
  show "subject_start s \<Longrightarrow> runs_fine s" for s :: "('a, 'b) subject_run"
    by (auto simp: subject_start_def fresh_def NewSubject_def subject.defs subject_run.defs runs_fine_def
        crew_owned_def failures_known_def failures_pending_def)
qed (rule runs_fine_effect [OF _ subject_effect [OF assms]])

end
