(* ===== verification/Observer_Live.thy ===== *)
theory Observer_Live
  imports Observer_Run
begin

text \<open>
  Progress of a subject: every worker can be run to its select by its own steps (the observers it
  waits for returning first), and once the context of \<open>Run\<close> is done or an observer has failed all
  workers of that \<open>Run\<close> can leave, so that it returns.
\<close>

section \<open>The steps of one worker\<close>

text \<open>What the steps of the workers leave alone, and what those of worker \<open>i\<close> leave alone.\<close>

definition calm :: "('d, 'o) subject_run \<Rightarrow> ('d, 'o) subject_run \<Rightarrow> bool" where
  "calm s t \<longleftrightarrow> crashed t = crashed s \<and> eventChClosed t = eventChClosed s \<and> map fst (crew t) = map fst (crew s)
     \<and> map ctx_done (runs t) = map ctx_done (runs s) \<and> map returned (runs t) = map returned (runs s)
     \<and> set (failures s) \<subseteq> set (failures t)"

definition undisturbed :: "nat \<Rightarrow> ('d, 'o) subject_run \<Rightarrow> ('d, 'o) subject_run \<Rightarrow> bool" where
  "undisturbed i s t \<longleftrightarrow> calm s t \<and> (\<forall>j. j \<noteq> i \<longrightarrow> crew t ! j = crew s ! j)"

lemma calm_trans: "calm s t \<Longrightarrow> calm t u \<Longrightarrow> calm s u"
  by (auto simp: calm_def)

lemma calm_lengths: "calm s t \<Longrightarrow> length (crew t) = length (crew s) \<and> length (runs t) = length (runs s)"
  unfolding calm_def by (metis length_map)

lemma calm_nth:
  assumes "calm s t"
  shows "i < length (crew s) \<Longrightarrow> fst (crew t ! i) = fst (crew s ! i)"
    and "k < length (runs s) \<Longrightarrow> ctx_done (runs t ! k) = ctx_done (runs s ! k)"
    and "k < length (runs s) \<Longrightarrow> returned (runs t ! k) = returned (runs s ! k)"
  using assms calm_lengths [OF assms] unfolding calm_def by (metis nth_map)+

lemma undisturbed_refl: "undisturbed i s s"
  by (simp add: undisturbed_def calm_def)

lemma undisturbed_trans: "undisturbed i s t \<Longrightarrow> undisturbed i t u \<Longrightarrow> undisturbed i s u"
  by (auto simp: undisturbed_def calm_def)

lemma map_update_same: "(f x = f (xs ! k)) \<Longrightarrow> map f (xs[k := x]) = map f xs"
  by (cases "k < length xs") (simp_all add: map_update list_update_beyond list_update_same_conv)

lemma leave_undisturbed: "undisturbed i s (leave i r s)"
  by (simp add: undisturbed_def calm_def runs_leave map_update_same)

text \<open>A step of a worker leaves the others alone, or is a panic, which changes nothing else.\<close>

lemma worker_undisturbed:
  "worker wait cancels e i s = Some s' \<Longrightarrow> undisturbed i s s' \<or> (\<exists>q. s' = s\<lparr>crashed := Some q\<rparr>)"
  by (cases e) (auto simp: leave_undisturbed split: observer_pc.splits if_splits option.splits list.splits,
      auto simp: undisturbed_def calm_def map_update_same)

lemma worker_no_panic:
  "worker wait cancels e i s = Some s' \<Longrightarrow> snd (crew s ! i) \<noteq> OGot None \<Longrightarrow> (\<And>j. e \<noteq> OPanic j) \<Longrightarrow> crashed s' = crashed s"
  by (cases e) (auto split: observer_pc.splits if_splits option.splits list.splits)

definition idle :: "('d, 'o) observer_pc \<Rightarrow> bool" where
  "idle w \<longleftrightarrow> w = OSelect \<or> is_done w"

lemma idle_errs: "idle w \<Longrightarrow> errs w = []"
  by (cases w) (simp_all add: idle_def is_done_def)

text \<open>Worker \<open>i\<close> can be run, by its own steps, to a program point where \<open>P\<close> holds.\<close>

definition reaches :: "(observer_error option list \<Rightarrow> observer_error option) \<Rightarrow> (observer_error option list \<Rightarrow> bool)
    \<Rightarrow> nat \<Rightarrow> (('d, 'o) observer_pc \<Rightarrow> bool) \<Rightarrow> ('d, 'o) subject_run \<Rightarrow> bool" where
  "reaches wait cancels i P s \<longleftrightarrow> (\<exists>es t. exec (subject_step wait cancels) (map (\<lambda>e. AtObserver e i) es) s = Some t
     \<and> undisturbed i s t \<and> P (snd (crew t ! i)))"

lemma reaches_now: "P (snd (crew s ! i)) \<Longrightarrow> reaches wait cancels i P s"
  unfolding reaches_def by (intro exI [of _ "[]"] exI [of _ s]) (simp add: undisturbed_refl)

lemma reaches_step:
  assumes "crashed s = None" and "i < length (crew s)" and "worker wait cancels e i s = Some s'"
    and "reaches wait cancels i P s'" and "snd (crew s ! i) \<noteq> OGot None" and "\<And>j. e \<noteq> OPanic j"
  shows "reaches wait cancels i P s"
proof -
  obtain es t where t: "exec (subject_step wait cancels) (map (\<lambda>e. AtObserver e i) es) s' = Some t"
    "undisturbed i s' t" "P (snd (crew t ! i))" using assms(4) by (auto simp: reaches_def)
  have "undisturbed i s s'" using worker_undisturbed [OF assms(3)] worker_no_panic [OF assms(3,5,6)] assms(1) by auto
  then show ?thesis
    using assms(1-3) t undisturbed_trans [of i s s' t]
    unfolding reaches_def by (intro exI [of _ "e # es"] exI [of _ t]) simp
qed

lemma group_settles:
  assumes "crashed s = None" and "i < length (crew s)" and "snd (crew s ! i) = OGroup ev hs rs"
  shows "reaches wait cancels i idle s"
  using assms
proof (induction hs arbitrary: s rs)
  case Nil
  show ?case
  proof (cases "wait rs")
    case None
    show ?thesis by (rule reaches_step [of s i wait cancels OWait])
        (use Nil None in \<open>auto simp: idle_def intro!: reaches_now\<close>)
  next
    case (Some e)
    show ?thesis by (rule reaches_step [of s i wait cancels OWait])
        (use Nil Some in \<open>auto simp: idle_def is_done_def intro!: reaches_now\<close>)
  qed
next
  case (Cons h hs)
  show ?case by (rule reaches_step [of s i wait cancels "OReturn 0 None"]) (use Cons in \<open>auto intro!: Cons.IH\<close>)
qed

lemma worker_settles:
  assumes "crashed s = None" and "i < length (crew s)" and "snd (crew s ! i) \<noteq> OGot None"
  shows "reaches wait cancels i idle s"
proof (cases "snd (crew s ! i)")
  case (OGot x)
  then obtain ev where x: "x = Some ev" using assms(3) by (cases x) auto
  show ?thesis
  proof (cases "handlers s (Name ev)")
    case Nil
    show ?thesis by (rule reaches_step [of s i wait cancels OLookup])
        (use assms OGot x Nil in \<open>auto simp: handlers_def idle_def split: option.splits list.splits intro!: reaches_now\<close>)
  next
    case (Cons h hs)
    show ?thesis by (rule reaches_step [of s i wait cancels OLookup])
        (use assms OGot x Cons in \<open>auto simp: handlers_def split: option.splits list.splits intro!: group_settles\<close>)
  qed
next
  case (OGroup ev hs rs)
  then show ?thesis by (rule group_settles [OF assms(1,2)])
qed (auto simp: idle_def is_done_def intro!: reaches_now)

section \<open>All workers\<close>

text \<open>The steps of workers and of \<open>Run\<close>, as opposed to calls from outside.\<close>

fun own_event :: "('d, 'o) subject_event \<Rightarrow> bool" where
  "own_event (AtObserver e i) = True"
| "own_event (ReturnRun r) = True"
| "own_event _ = False"

lemma crew_reaches:
  assumes "Q s" and "crashed s = None"
    and each: "\<And>t i. Q t \<Longrightarrow> crashed t = None \<Longrightarrow> i < length (crew t) \<Longrightarrow> reaches wait cancels i (P (fst (crew t ! i))) t"
    and keep: "\<And>t u es i. Q t \<Longrightarrow> exec (subject_step wait cancels) es t = Some u \<Longrightarrow> undisturbed i t u \<Longrightarrow> i < length (crew t)
      \<Longrightarrow> P (fst (crew t ! i)) (snd (crew u ! i)) \<Longrightarrow> Q u"
    and "n \<le> length (crew s)"
  shows "\<exists>es t. exec (subject_step wait cancels) es s = Some t \<and> list_all own_event es \<and> Q t \<and> calm s t
    \<and> (\<forall>i < n. P (fst (crew t ! i)) (snd (crew t ! i)))"
  using assms(5)
proof (induction n)
  case 0
  then show ?case using assms(1) by (intro exI [of _ "[]"] exI [of _ s]) (simp add: calm_def)
next
  case (Suc n)
  then obtain es t where t: "exec (subject_step wait cancels) es s = Some t" "list_all own_event es" "Q t" "calm s t"
    "\<forall>i < n. P (fst (crew t ! i)) (snd (crew t ! i))" by auto
  have n: "n < length (crew t)" and "crashed t = None"
    using t(4) calm_lengths [OF t(4)] Suc.prems assms(2) by (simp_all add: calm_def)
  then obtain fs u where u: "exec (subject_step wait cancels) (map (\<lambda>e. AtObserver e n) fs) t = Some u"
    "undisturbed n t u" "P (fst (crew t ! n)) (snd (crew u ! n))"
    using each [OF t(3), of n] by (auto simp: reaches_def)
  have "Q u" using keep [OF t(3) u(1,2) n u(3)] .
  moreover have "P (fst (crew u ! i)) (snd (crew u ! i))" if "i < Suc n" for i
    using that t(5) u(2,3) calm_nth(1) [of t u n] n by (cases "i = n") (auto simp: undisturbed_def)
  moreover have "calm s u" using calm_trans [OF t(4)] u(2) by (simp add: undisturbed_def)
  moreover have "exec (subject_step wait cancels) (es @ map (\<lambda>e. AtObserver e n) fs) s = Some u"
    using t(1) u(1) by (simp add: exec_append)
  moreover have "list_all own_event (es @ map (\<lambda>e. AtObserver e n) fs)" using t(2) by (auto simp: list_all_iff)
  ultimately show ?case by blast
qed

text \<open>A \<open>Run\<close> that is bound to stop: its context is done or one of its observers has failed.\<close>

definition stopping_run :: "nat \<Rightarrow> ('d, 'o) subject_run \<Rightarrow> bool" where
  "stopping_run r s \<longleftrightarrow> runs_fine s \<and> r < length (runs s) \<and> (ctx_done (runs s ! r) \<or> (\<exists>e. (r, e) \<in> set (failures s)))"

lemma stopping_run_calm:
  assumes "group_laws wait cancels" and "stopping_run r s" and "exec (subject_step wait cancels) es s = Some t" and "calm s t"
  shows "stopping_run r t"
proof -
  have "runs_fine t"
    using invariant_of.inv_exec [OF runs_invariant [OF assms(1)] _ assms(3)] assms(2) by (simp add: stopping_run_def)
  then show ?thesis
    using assms(2,4) calm_nth(2) [OF assms(4), of r] calm_lengths [OF assms(4)] by (auto simp: stopping_run_def calm_def)
qed

lemma idle_run_over:
  assumes "group_laws wait cancels" and "stopping_run r s" and "\<forall>c \<in> set (crew s). idle (snd c)"
  shows "run_over cancels (runs s ! r)"
proof (cases "ctx_done (runs s ! r)")
  case False
  have "first_error (errs (snd c)) = None" if "c \<in> set (crew s)" for c using assms(3) that by (simp add: idle_errs)
  moreover have "pending_at r s" using assms(2) False by (auto simp: stopping_run_def runs_fine_def failures_pending_iff)
  ultimately show ?thesis using group_lawsD(2) [OF assms(1)] by (auto simp: run_over_def pending_at_def)
qed (simp add: run_over_def)

lemma crew_update:
  assumes "\<forall>c \<in> set (crew t). R (snd c)" and "undisturbed i t u" and "R (snd (crew u ! i))"
  shows "\<forall>c \<in> set (crew u). R (snd c)"
proof
  fix c assume "c \<in> set (crew u)"
  then obtain j where "j < length (crew u)" "c = crew u ! j" by (auto simp: in_set_conv_nth)
  then show "R (snd c)"
    using assms calm_lengths [of t u] by (cases "j = i") (auto simp: undisturbed_def)
qed

lemma run_workers_leave:
  assumes laws: "group_laws wait cancels" and "stopping_run r s" and "crashed s = None"
    and open_run: "returned (runs s ! r) = None" and no_nil: "\<forall>c \<in> set (crew s). snd c \<noteq> OGot None"
  shows "\<exists>es u. exec (subject_step wait cancels) es s = Some u \<and> list_all own_event es \<and> crashed u = None
    \<and> list_all (\<lambda>(k, w). k = r \<longrightarrow> is_done w) (crew u) \<and> returned (runs u ! r) = None \<and> r < length (runs u)
    \<and> eventChClosed u = eventChClosed s"
proof -
  let ?N = "\<lambda>t. stopping_run r t \<and> (\<forall>c \<in> set (crew t). snd c \<noteq> OGot None)"
  have settled: "?N u" if "?N t" "exec (subject_step wait cancels) es t = Some u" "undisturbed i t u" "idle (snd (crew u ! i))"
    for t u es i using stopping_run_calm [OF laws, of r t es u] crew_update [of t "\<lambda>w. w \<noteq> OGot None" i u] that
    by (cases "snd (crew u ! i)") (simp_all add: undisturbed_def idle_def is_done_def)
  have "\<exists>es t. exec (subject_step wait cancels) es s = Some t \<and> list_all own_event es \<and> ?N t
    \<and> calm s t \<and> (\<forall>i < length (crew s). idle (snd (crew t ! i)))"
    by (rule crew_reaches [where Q = ?N and P = "\<lambda>k. idle", OF conjI [OF assms(2) no_nil] assms(3) _ _ order.refl])
       (simp add: worker_settles, erule (2) settled)
  then obtain es t where t: "exec (subject_step wait cancels) es s = Some t" "list_all own_event es" "stopping_run r t"
    "calm s t" "\<forall>i < length (crew s). idle (snd (crew t ! i))" by blast
  have crash: "crashed t = None" using t(4) assms(3) by (simp add: calm_def)
  have idle: "\<forall>c \<in> set (crew t). idle (snd c)"
    using t(5) calm_lengths [OF t(4)] by (metis in_set_conv_nth)
  let ?Q = "\<lambda>u. stopping_run r u \<and> (\<forall>c \<in> set (crew u). idle (snd c))"
  let ?P = "\<lambda>k w. idle w \<and> (k = r \<longrightarrow> is_done w)"
  have quit: "reaches wait cancels i (?P (fst (crew u ! i))) u"
    if u: "?Q u" "crashed u = None" "i < length (crew u)" for u i
  proof (cases "fst (crew u ! i) = r \<and> snd (crew u ! i) = OSelect")
    case True
    have "run_over cancels (runs u ! r)" using idle_run_over [OF laws] u(1) by blast
    then show ?thesis using True u
      by (intro reaches_step [of u i wait cancels OCtx]) (auto simp: idle_def is_done_def intro!: reaches_now)
  next
    case False
    then show ?thesis using u by (intro reaches_now) (auto simp: idle_def)
  qed
  have keep: "?Q v" if "?Q u" "exec (subject_step wait cancels) fs u = Some v" "undisturbed i u v"
    "?P (fst (crew u ! i)) (snd (crew v ! i))" for u v fs i
    using stopping_run_calm [OF laws, of r u fs v] crew_update [of u idle i v] that by (simp add: undisturbed_def)
  have "\<exists>fs u. exec (subject_step wait cancels) fs t = Some u \<and> list_all own_event fs \<and> ?Q u \<and> calm t u
      \<and> (\<forall>i < length (crew t). ?P (fst (crew u ! i)) (snd (crew u ! i)))"
    by (rule crew_reaches [where Q = ?Q, OF conjI [OF t(3) idle] crash _ _ order.refl]) (erule (2) quit, erule (3) keep)
  then obtain fs u where u: "exec (subject_step wait cancels) fs t = Some u" "list_all own_event fs" "?Q u" "calm t u"
    "\<forall>i < length (crew t). ?P (fst (crew u ! i)) (snd (crew u ! i))" by blast
  have "list_all (\<lambda>(k, w). k = r \<longrightarrow> is_done w) (crew u)"
    using u(5) calm_lengths [OF u(4)] by (auto simp: list_all_length split_beta)
  moreover have "returned (runs u ! r) = None" "r < length (runs u)" "crashed u = None" "eventChClosed u = eventChClosed s"
    using calm_nth(3) [OF calm_trans [OF t(4) u(4)], of r] assms(2) u(3,4) open_run crash t(4)
      calm_lengths [OF calm_trans [OF t(4) u(4)]] by (auto simp: stopping_run_def calm_def)
  ultimately show ?thesis
    using t(1,2) u(1,2) by (intro exI [of _ "es @ fs"] exI [of _ u]) (simp add: exec_append)
qed

lemma run_finishes:
  assumes laws: "group_laws wait cancels" and "stopping_run r s" and "crashed s = None"
    and "returned (runs s ! r) = None" and "\<forall>c \<in> set (crew s). snd c \<noteq> OGot None"
  shows "\<exists>es t. exec (subject_step wait cancels) es s = Some t \<and> list_all own_event es
    \<and> (if eventChClosed s then crashed t = Some CloseOfClosedChannel else crashed t = None \<and> returned (runs t ! r) \<noteq> None)"
proof -
  obtain es u where u: "exec (subject_step wait cancels) es s = Some u" "list_all own_event es" "crashed u = None"
    "list_all (\<lambda>(k, w). k = r \<longrightarrow> is_done w) (crew u)" "returned (runs u ! r) = None" "r < length (runs u)"
    "eventChClosed u = eventChClosed s" using run_workers_leave [OF assms] by blast
  have "\<exists>v. subject_step wait cancels (ReturnRun r) u = Some v
      \<and> (if eventChClosed s then crashed v = Some CloseOfClosedChannel else crashed v = None \<and> returned (runs v ! r) \<noteq> None)"
    using u(3-7) by (simp add: Run_return_def)
  then obtain v where v: "subject_step wait cancels (ReturnRun r) u = Some v"
    "if eventChClosed s then crashed v = Some CloseOfClosedChannel else crashed v = None \<and> returned (runs v ! r) \<noteq> None" by blast
  then show ?thesis
    using u(1,2) by (intro exI [of _ "es @ [ReturnRun r]"] exI [of _ v]) (simp add: exec_append)
qed

text \<open>Once the channel is closed it stays so, and no call of \<open>Run\<close> returns any more.\<close>

lemma closed_no_return_step:
  assumes "eventChClosed s" and "r < length (runs s)" and "subject_step wait cancels e s = Some s'"
  shows "eventChClosed s' \<and> r < length (runs s') \<and> returned (runs s' ! r) = returned (runs s ! r)"
proof (cases e)
  case (AtObserver oe i)
  then consider "calm s s'" | q where "s' = s\<lparr>crashed := Some q\<rparr>"
    using assms(3) worker_undisturbed [of wait cancels oe i s s'] by (auto simp: undisturbed_def split: if_splits)
  then show ?thesis
  proof cases
    case 1
    then show ?thesis using assms(1,2) calm_lengths [OF 1] calm_nth(3) [OF 1] by (simp add: calm_def)
  qed (use assms(1,2) in simp)
next
  case (CancelRun k)
  then show ?thesis using assms by (cases "k = r") (auto split: if_splits)
qed (use assms in \<open>auto simp: Register_def Notify_def Run_def send_closed_def rendezvous_def Run_return_def Let_def nth_append
      split: if_splits notify_pc.splits observer_pc.splits\<close>)

lemma closed_no_return:
  assumes "eventChClosed s" and "r < length (runs s)" and "exec (subject_step wait cancels) es s = Some t"
  shows "returned (runs t ! r) = returned (runs s ! r)"
  using assms
proof (induction es arbitrary: s)
  case (Cons e es)
  then obtain u where u: "subject_step wait cancels e s = Some u" "exec (subject_step wait cancels) es u = Some t"
    by (auto split: option.splits)
  then show ?case using Cons.IH [of u] closed_no_return_step [OF Cons.prems(1,2) u(1)] by simp
qed simp

section \<open>Properties\<close>

text \<open>
  C10. What \<open>Run\<close> returns, in every interleaving: an error one of its own observers returned, or
  the error of its context, which is then done; and nil only if the subject was made without
  workers. So \<open>Run\<close> never reports success after an observer of it failed first, nor before its
  context is done.
\<close>

theorem observer_run_result:
  assumes "group_laws wait cancels" and "reachable (subject_step wait cancels) subject_start s"
    and "r < length (runs s)" and "returned (runs s ! r) = Some x"
  shows "case x of None \<Rightarrow> workersCount s \<le> 0 \<and> run_results (runs s ! r) = []
    | Some e \<Rightarrow> e = ContextDone \<and> ctx_done (runs s ! r) \<or> (r, e) \<in> set (failures s)"
proof -
  have fine: "runs_fine s" by (rule invariant_of.inv_reachable [OF runs_invariant [OF assms(1)] assms(2)])
  then have o': "outcome_explained s r" and k: "results_kept s r" and own: "crew_owned s"
    using assms(3) by (simp_all add: runs_fine_def)
  have "run_results (runs s ! r) = []" if "workersCount s \<le> 0"
  proof -
    have "tally (\<lambda>c. fst c = r) (crew s) = 0" using own assms(3) that by (simp add: crew_owned_def)
    then have "holding (result_of r) (crew s) = {#}"
      by (intro holding_empty) (auto simp: tally_zero_iff result_of_other)
    then show ?thesis using k by (simp add: results_kept_def)
  qed
  then show ?thesis using o' assms(4) by (auto simp: outcome_explained_def split: option.splits)
qed

definition failing_events :: "(nat, string) subject_event list" where
  "failing_events = [CallRegister ''block.new'' ''indexer'', CallRun, CallNotify (Some news), Meet 0 0, AtObserver OLookup 0,
     AtObserver (OReturn 0 (Some (UpdateErr ''disk full''))) 0, AtObserver OWait 0, ReturnRun 0]"

lemma failing_run: "\<exists>s. exec (subject_step first_error (\<lambda>rs. first_error rs \<noteq> None)) failing_events (fresh 1) = Some s
    \<and> length (runs s) = 1 \<and> returned (runs s ! 0) = Some (Some (UpdateErr ''disk full''))
    \<and> failures s = [(0, UpdateErr ''disk full'')]"
  by (simp add: failing_events_def fresh_def NewSubject_def subject.defs subject_run.defs Register_def Run_def
      Notify_def rendezvous_def news_def Run_return_def is_done_def runs_leave)

theorem observer_run_result_witness:
  "\<exists>s :: (nat, string) subject_run. returned (runs s ! 0) = Some (Some (UpdateErr ''disk full''))
     \<and> (0, UpdateErr ''disk full'') \<in> set (failures s)"
proof -
  obtain s where s: "exec (subject_step first_error (\<lambda>rs. first_error rs \<noteq> None)) failing_events (fresh 1) = Some s"
    "length (runs s) = 1" "returned (runs s ! 0) = Some (Some (UpdateErr ''disk full''))" using failing_run by blast
  have laws: "group_laws first_error (\<lambda>rs. first_error rs \<noteq> (None :: observer_error option))" by (simp add: group_laws_def)
  show ?thesis using observer_run_result [OF laws fresh_reachable [OF s(1)] _ s(3)] s(2,3) by (intro exI [of _ s]) simp
qed

text \<open>
  C24. \<open>Run\<close> stops when it should. Take any state in which nothing has panicked, no worker has
  taken a nil event, and the context of a call of \<open>Run\<close> that has not returned is done or one of its
  observers has returned an error. If the channel is still open, the workers of the subject can be
  run until this \<open>Run\<close> returns, by their own steps alone (observers that are running return first; no
  further event, registration or call is needed), and nothing panics on the way. If the channel is
  closed, because another call of \<open>Run\<close> on the same subject has returned, the same steps lead to a
  panic when it is closed again, and this \<open>Run\<close> never returns in any continuation.
\<close>

theorem observer_run_finishes:
  assumes "group_laws wait cancels" and "reachable (subject_step wait cancels) subject_start s"
    and "r < length (runs s)" and "returned (runs s ! r) = None"
    and "ctx_done (runs s ! r) \<or> (\<exists>e. (r, e) \<in> set (failures s))"
    and "crashed s = None" and "\<forall>c \<in> set (crew s). snd c \<noteq> OGot None"
  shows "(\<exists>es t. exec (subject_step wait cancels) es s = Some t \<and> list_all own_event es
      \<and> (if eventChClosed s then crashed t = Some CloseOfClosedChannel else crashed t = None \<and> returned (runs t ! r) \<noteq> None))
    \<and> (eventChClosed s \<longrightarrow> (\<exists>q \<in> set (runs s). returned q \<noteq> None)
      \<and> (\<forall>es t. exec (subject_step wait cancels) es s = Some t \<longrightarrow> returned (runs t ! r) = None))"
proof (intro conjI impI allI)
  have "runs_fine s" by (rule invariant_of.inv_reachable [OF runs_invariant [OF assms(1)] assms(2)])
  then have "stopping_run r s" using assms(3,5) by (simp add: stopping_run_def)
  then show "\<exists>es t. exec (subject_step wait cancels) es s = Some t \<and> list_all own_event es
      \<and> (if eventChClosed s then crashed t = Some CloseOfClosedChannel else crashed t = None \<and> returned (runs t ! r) \<noteq> None)"
    by (rule run_finishes [OF assms(1) _ assms(6,4,7)])
  show "\<exists>q \<in> set (runs s). returned q \<noteq> None" if "eventChClosed s"
    using subject_channel.inv_reachable [OF assms(2)] that by (simp add: channel_fine_def run_ended_def)
  show "returned (runs t ! r) = None" if "eventChClosed s" "exec (subject_step wait cancels) es s = Some t" for es t
    using closed_no_return [OF that(1) assms(3) that(2)] assms(4) by simp
qed

theorem observer_run_finishes_witness:
  "\<exists>s es t. exec (subject_step first_error (\<lambda>rs. first_error rs \<noteq> None))
       (take 4 failing_events @ [CallNotify (Some news), CancelRun 0]) (fresh 2) = Some s
     \<and> exec (subject_step first_error (\<lambda>rs. first_error rs \<noteq> None)) es s = Some t
     \<and> returned (runs t ! 0) \<noteq> None \<and> crashed t = None"
proof -
  let ?step = "subject_step first_error (\<lambda>rs. first_error rs \<noteq> None) :: ((nat, string) subject_event, _) step"
  have laws: "group_laws first_error (\<lambda>rs. first_error rs \<noteq> (None :: observer_error option))" by (simp add: group_laws_def)
  have "\<exists>s. exec ?step (take 4 failing_events @ [CallNotify (Some news), CancelRun 0]) (fresh 2) = Some s \<and> length (runs s) = 1
      \<and> returned (runs s ! 0) = None \<and> ctx_done (runs s ! 0) \<and> crashed s = None \<and> \<not> eventChClosed s
      \<and> (\<forall>c \<in> set (crew s). snd c \<noteq> OGot None)"
    by (simp add: failing_events_def fresh_def NewSubject_def subject.defs subject_run.defs Register_def Run_def
        Notify_def rendezvous_def news_def numeral_2_eq_2)
  then obtain s where s: "exec ?step (take 4 failing_events @ [CallNotify (Some news), CancelRun 0]) (fresh 2) = Some s"
    "length (runs s) = 1" "returned (runs s ! 0) = None" "ctx_done (runs s ! 0)" "crashed s = None" "\<not> eventChClosed s"
    "\<forall>c \<in> set (crew s). snd c \<noteq> OGot None" by blast
  have "\<exists>es t. exec ?step es s = Some t \<and> list_all own_event es
      \<and> (if eventChClosed s then crashed t = Some CloseOfClosedChannel else crashed t = None \<and> returned (runs t ! 0) \<noteq> None)"
    by (rule observer_run_finishes [OF laws fresh_reachable [OF s(1)] _ s(3) _ s(5,7), THEN conjunct1]) (use s(2,4) in simp_all)
  then show ?thesis using s(1,6) by auto
qed

end
