(* ===== verification/Subject_Runner.thy ===== *)
theory Subject_Runner
  imports Graceful_Claims Observer_Live
begin

text \<open>
  \<open>Subject.Run\<close> as a runner of a \<open>WaitContext\<close> group. The first call of \<open>Run\<close> is the one the
  group makes; any other goroutine may register, notify and call \<open>Run\<close> again.
\<close>

definition run_ctx :: "('d, 'o) subject_run \<Rightarrow> bool" where
  "run_ctx s \<longleftrightarrow> runs s \<noteq> [] \<and> ctx_done (runs s ! 0)"

definition Run_result :: "('d, 'o) subject_run \<Rightarrow> observer_error option option" where
  "Run_result s = (if runs s = [] then None else returned (runs s ! 0))"

text \<open>\<open>Run\<close> returns nil only when the subject has no workers.\<close>

definition run_contract :: "int \<Rightarrow> observer_error contract" where
  "run_contract n o' r \<longleftrightarrow> (r = None \<longrightarrow> n \<le> 0)"

definition subject_fine :: "int \<Rightarrow> ('d, 'o) subject_run \<Rightarrow> bool" where
  "subject_fine n s \<longleftrightarrow> runs_fine s \<and> workersCount s = n"

lemma workersCount_effect: "run_effect s s' \<Longrightarrow> workersCount s' = workersCount s"
  by (cases rule: run_effect.cases) (auto simp: Run_def)

lemma runs_grow_effect: "run_effect s s' \<Longrightarrow> length (runs s) \<le> length (runs s')"
  by (cases rule: run_effect.cases) (auto simp: Run_def runs_leave)

lemma returned_effect:
  assumes "run_effect s s'" and "k < length (runs s)" and "returned (runs s ! k) = Some x"
  shows "returned (runs s' ! k) = Some x"
  using assms(1)
proof cases
  case (leaves i k' w y)
  then show ?thesis using assms(2,3) by (cases "k = k'") (auto simp: runs_leave)
next
  case begins
  then show ?thesis using assms(2,3) by (simp add: Run_def nth_append)
next
  case (cancel r)
  then show ?thesis using assms(2,3) by (cases "k = r") auto
next
  case (returns r)
  then show ?thesis using assms(2,3) by (cases "k = r") auto
qed (use assms(3) in simp_all)

lemma runs_grow:
  assumes "group_laws wait cancels" and "exec (subject_step wait cancels) es s = Some t"
  shows "length (runs s) \<le> length (runs t)"
  using assms(2)
proof (induction es arbitrary: s)
  case (Cons e es)
  then obtain u where "subject_step wait cancels e s = Some u" "exec (subject_step wait cancels) es u = Some t"
    by (auto split: option.splits)
  with Cons.IH [of u] runs_grow_effect [OF subject_effect [OF assms(1)]] show ?case by fastforce
qed simp

lemma ctx_event:
  assumes "subject_step wait cancels e s = Some s'" and "e \<noteq> CancelRun 0"
  shows "run_ctx s' = run_ctx s"
proof (cases e)
  case (AtObserver oe i)
  then consider "calm s s'" | q where "s' = s\<lparr>crashed := Some q\<rparr>"
    using assms(1) worker_undisturbed [of wait cancels oe i s s'] by (auto simp: undisturbed_def split: if_splits)
  then show ?thesis
  proof cases
    case 1
    with calm_lengths [OF this] calm_nth(2) [OF this, of 0] show ?thesis
      by (cases "runs s"; cases "runs s'") (auto simp: run_ctx_def)
  qed (simp add: run_ctx_def)
next
  case (CancelRun r)
  then show ?thesis using assms by (auto simp: run_ctx_def split: if_splits)
next
  case CallRun
  then show ?thesis using assms by (auto simp: run_ctx_def Run_def nth_append split: if_splits)
next
  case (ReturnRun r)
  then show ?thesis using assms by (cases "r = 0") (auto simp: run_ctx_def Run_return_def split: if_splits)
qed (use assms in \<open>auto simp: run_ctx_def Register_def Notify_def send_closed_def rendezvous_def Let_def
      split: if_splits notify_pc.splits observer_pc.splits\<close>)

lemma subject_runner:
  assumes laws: "group_laws wait cancels"
  shows "runner_system (subject_step wait cancels) (\<lambda>s. s = fresh n) (subject_fine n)
    run_ctx Run_result (\<lambda>e. e = CancelRun 0) (run_contract n)"
proof -
  note effect = subject_effect [OF laws]
  have inv: "invariant_of (subject_step wait cancels) (\<lambda>s. s = fresh n) (subject_fine n)"
  proof
    show "s = fresh n \<Longrightarrow> subject_fine n s" for s
      using invariant_of.inv_start [OF runs_invariant [OF laws], of s]
      by (auto simp: subject_fine_def subject_start_def fresh_def NewSubject_def subject.defs subject_run.defs)
    show "subject_fine n s \<Longrightarrow> subject_step wait cancels e s = Some s' \<Longrightarrow> subject_fine n s'" for e s s'
      using runs_fine_effect [OF _ effect] workersCount_effect [OF effect] by (auto simp: subject_fine_def)
  qed
  show ?thesis
  proof (rule runner_system.intro [OF inv], unfold_locales, goal_cases)
    case (1 s)
    then show ?case by (simp add: Run_result_def fresh_def NewSubject_def subject.defs subject_run.defs)
  next
    case (2 s e s')
    then show ?case
      using ctx_event [OF 2(2)] by (cases "e = CancelRun 0") (auto simp: run_ctx_def split: if_splits)
  next
    case (3 s e s')
    then show ?case by (auto simp: Run_result_def split: if_splits)
  next
    case (4 s e s' r)
    then show ?case using returned_effect [OF effect [OF 4(2)], of 0 r] runs_grow_effect [OF effect [OF 4(2)]]
      by (auto simp: Run_result_def split: if_splits)
  next
    case (5 s r)
    then have "outcome_explained s 0" "returned (runs s ! 0) = Some r"
      by (auto simp: subject_fine_def runs_fine_def Run_result_def split: if_splits)
    then show ?case using 5(1) by (auto simp: outcome_explained_def run_contract_def subject_fine_def)
  qed
qed

text \<open>While nothing has panicked or is about to and the channel is open, the first \<open>Run\<close> can be stopped.\<close>

definition subject_alive :: "('d, 'o) subject_run \<Rightarrow> bool" where
  "subject_alive s \<longleftrightarrow> crashed s = None \<and> \<not> eventChClosed s \<and> (\<forall>c \<in> set (crew s). snd c \<noteq> OGot None)"

text \<open>The steps of the subject itself: the call of \<open>Run\<close>, its context and its workers; no \<open>Notify\<close>, \<open>Register\<close> or other call.\<close>

definition subject_own :: "('d, 'o) subject_event \<Rightarrow> bool" where
  "subject_own e \<longleftrightarrow> own_event e \<or> e = CallRun \<or> e = CancelRun 0"

lemma run_can_return:
  assumes laws: "group_laws wait cancels" and "subject_fine n s" and "subject_alive s" and "Run_result s = None"
  shows "\<exists>es t. exec (subject_step wait cancels) es s = Some t \<and> list_all subject_own es \<and> Run_result t \<noteq> None"
proof -
  let ?es = "if runs s = [] then [CallRun, CancelRun 0] else [CancelRun 0]"
  have "\<exists>t. exec (subject_step wait cancels) ?es s = Some t \<and> runs t \<noteq> [] \<and> ctx_done (runs t ! 0)
      \<and> returned (runs t ! 0) = None \<and> crashed t = None \<and> \<not> eventChClosed t \<and> (\<forall>c \<in> set (crew t). snd c \<noteq> OGot None)"
    using assms(3,4) by (auto simp: subject_alive_def Run_def Run_result_def)
  then obtain t where t: "exec (subject_step wait cancels) ?es s = Some t" "runs t \<noteq> []" "ctx_done (runs t ! 0)"
    "returned (runs t ! 0) = None" "crashed t = None" "\<not> eventChClosed t" "\<forall>c \<in> set (crew t). snd c \<noteq> OGot None" by blast
  have "runs_fine t"
    using invariant_of.inv_exec [OF runs_invariant [OF laws] _ t(1)] assms(2) by (simp add: subject_fine_def)
  then have "stopping_run 0 t" using t(2,3) by (simp add: stopping_run_def)
  then obtain fs u where u: "exec (subject_step wait cancels) fs t = Some u" "list_all own_event fs" "returned (runs u ! 0) \<noteq> None"
    using run_finishes [OF laws _ t(5,4,7)] t(6) by auto
  have "exec (subject_step wait cancels) (?es @ fs) s = Some u" unfolding exec_append t(1) using u(1) by simp
  moreover have "list_all subject_own (?es @ fs)" using u(2) by (auto simp: subject_own_def list_all_iff)
  moreover have "runs u \<noteq> []" using runs_grow [OF laws u(1)] t(2) by (cases "runs u") auto
  ultimately show ?thesis using u(3) by (intro exI [of _ "?es @ fs"] exI [of _ u]) (simp add: Run_result_def)
qed

end
