(* ===== verification/Application.thy ===== *)
theory Application
  imports Graceful_App Pool_Runner Subject_Runner
begin

text \<open>
  Applications built from this repository: a \<open>WaitContext\<close> group of HTTP and gRPC servers, cron
  schedules, worker pools, event subjects and the simple runners of \<open>graceful\<close>, in any number and
  order. The record \<open>env\<close> holds what is outside the repository: the error groups, \<open>eris\<close>, the
  errors the servers may fail with, and the errors of the other packages as values of Go's \<open>error\<close>.
  A panic stops the whole process; here the other runners may go on, so that the runs of the
  program are among those considered.
\<close>

section \<open>Each kind of runner can be stopped\<close>

lemma http_family:
  assumes "group_laws wait cancels" and "serve_laws isErr lerr es"
  shows "stoppable_family (Server_step isErr cancels lerr cerr es) http_start (http_fine lerr cerr es) http_ctx (Server_returns wait)
    (\<lambda>e. e = HttpCtx) (\<lambda>_. http_contract lerr cerr es) (\<lambda>_. True) (http_own es)"
proof (rule family_of_runner [OF http_runner [OF assms]])
  show "mono_contract (http_contract lerr cerr es)"
    by (auto simp: mono_contract_def http_contract_def split: option.splits)
  fix s assume fine: "http_fine lerr cerr es s"
  let ?s = "s\<lparr>http_ctx := True\<rparr>"
  have "http_fine lerr cerr es ?s"
    using invariant_of.inv_step [OF http_invariant [OF assms] fine, of HttpCtx] by simp
  then obtain t where "exec (timely_step isErr cancels lerr cerr es) (stop_http es ?s) ?s = Some t" "Server_returns wait t \<noteq> None"
    using http_stops [of lerr cerr es ?s cancels isErr wait] by auto
  then show "\<exists>evs t. exec (Server_step isErr cancels lerr cerr es) evs s = Some t \<and> list_all (http_own es) evs
      \<and> Server_returns wait t \<noteq> None"
    using timely_exec stop_http_own [of es ?s] by (intro exI [of _ "HttpCtx # stop_http es ?s"] exI [of _ t]) simp
qed

text \<open>The events by which a gRPC server stops: refuse new calls, then wait for the pending ones.\<close>

definition refuse_calls :: "'e grpc_run \<Rightarrow> 'e grpc_event list" where
  "refuse_calls s = (if gserve s = Listening then [Listen None] else []) @ [GrpcCtx]
     @ (if gstop s = GAwait then [BeginStop] else [])
     @ (case gserve s of Accepting \<Rightarrow> [ServeStops] | ServeDone \<Rightarrow> [] | _ \<Rightarrow> [EnterServe])"

lemma refuse_calls_runs:
  assumes "grpc_fine aerr refused s" and "GRPCRunner_returns wrap wait s = None"
  shows "\<exists>t. exec (GRPCRunner_step cancels aerr refused) (refuse_calls s) s = Some t \<and> gserve t = ServeDone
    \<and> (gstop t = GStopping \<or> gstop t = GStopped)"
  using assms by (cases "gserve s"; cases "gstop s") (auto simp: refuse_calls_def grpc_fine_def GRPCRunner_returns_def)

text \<open>
  The steps of a gRPC server itself: it listens, serves and stops, and the handlers of the calls it has
  accepted return; no new call.
\<close>

fun grpc_own :: "'e grpc_event \<Rightarrow> bool" where
  "grpc_own (Listen r) = (r = None)"
| "grpc_own (AcceptFails err) = False"
| "grpc_own CallBegins = False"
| "grpc_own _ = True"

lemma refuse_calls_own: "list_all grpc_own (refuse_calls s)"
  by (simp add: refuse_calls_def split: gserve_pc.split)

lemma calls_end:
  "exec (GRPCRunner_step cancels aerr refused) (replicate (calls s) CallEnds) s = Some (s\<lparr>calls := 0\<rparr>)"
proof (induction "calls s" arbitrary: s)
  case 0
  then have "s\<lparr>calls := 0\<rparr> = s" by (cases s) simp
  then show ?case using 0 by simp
next
  case (Suc n)
  then have "replicate (calls s) CallEnds = CallEnds # replicate (calls (s\<lparr>calls := n\<rparr>)) CallEnds" by (simp add: Suc.hyps(2) [symmetric])
  then show ?case using Suc.hyps(1) [of "s\<lparr>calls := n\<rparr>"] Suc.hyps(2) [symmetric] by simp
qed

lemma grpc_stops:
  assumes "grpc_fine aerr refused s" and "GRPCRunner_returns wrap wait s = None"
  shows "\<exists>evs t. exec (GRPCRunner_step cancels aerr refused) evs s = Some t \<and> list_all grpc_own evs
    \<and> GRPCRunner_returns wrap wait t \<noteq> None"
proof -
  obtain t where t: "exec (GRPCRunner_step cancels aerr refused) (refuse_calls s) s = Some t" "gserve t = ServeDone"
    "gstop t = GStopping \<or> gstop t = GStopped" using refuse_calls_runs [OF assms] by blast
  let ?stop = "replicate (calls t) CallEnds @ (if gstop t = GStopped then [] else [StopReturns])"
  have "\<exists>u. exec (GRPCRunner_step cancels aerr refused) ?stop t = Some u \<and> GRPCRunner_returns wrap wait u \<noteq> None"
    unfolding exec_append calls_end using t(2,3) by (auto simp: GRPCRunner_returns_def)
  then obtain u where "exec (GRPCRunner_step cancels aerr refused) ?stop t = Some u" "GRPCRunner_returns wrap wait u \<noteq> None" by blast
  moreover have "list_all grpc_own (refuse_calls s @ ?stop)" using refuse_calls_own [of s] by (auto simp: list_all_iff)
  ultimately show ?thesis using t(1) by (intro exI [of _ "refuse_calls s @ ?stop"] exI [of _ u]) (simp only: exec_append, simp)
qed

lemma grpc_family:
  assumes "group_laws wait cancels"
  shows "stoppable_family (GRPCRunner_step cancels aerr refused) grpc_start (grpc_fine aerr refused) grpc_ctx
    (GRPCRunner_returns wrap wait) (\<lambda>e. e = GrpcCtx) (\<lambda>_. grpc_contract wrap aerr refused) (\<lambda>_. True) grpc_own"
proof (rule family_of_runner [OF grpc_runner [OF assms]])
  show "mono_contract (grpc_contract wrap aerr refused)" by (auto simp: mono_contract_def grpc_contract_def)
qed (rule grpc_stops)

text \<open>The steps of the cron runner itself; the scheduler starts no job.\<close>

fun cron_own :: "cron_event \<Rightarrow> bool" where
  "cron_own (Fire i) = False"
| "cron_own (JobEnds j) = False"
| "cron_own _ = True"

lemma cron_family:
  "stoppable_family (Schedule_step es) cron_start (cron_fine es) cron_ctx cron_ended (\<lambda>e. e = CronCtx)
    (\<lambda>_. cron_contract es) (\<lambda>_. True) cron_own"
proof (rule family_of_runner [OF cron.runner_system_axioms])
  show "mono_contract (cron_contract es)" by (auto simp: mono_contract_def cron_contract_def)
  fix s :: "('a, 'b) cron_run" assume "cron_ended s = None"
  then show "\<exists>evs t. exec (Schedule_step es) evs s = Some t \<and> list_all cron_own evs \<and> cron_ended t \<noteq> None"
    by (intro exI [of _ "(if scheduling s then [] else [CronStart]) @ [CronCtx, CronReturn]"]) simp
qed

lemma start_family:
  assumes "group_laws wait cancels"
  shows "stoppable_family (start_step cancels) start_ready start_fine parent_done (Start_result wait)
    (\<lambda>e. e = ParentDone) (\<lambda>_. start_contract) start_alive start_own"
  using start_can_return by (intro family_of_runner [OF start_runner [OF assms]]) (auto simp: mono_contract_def start_contract_def)

lemma subject_family:
  assumes laws: "group_laws wait cancels"
  shows "stoppable_family (subject_step wait cancels) subject_start runs_fine run_ctx Run_result (\<lambda>e. e = CancelRun 0)
    (\<lambda>s. run_contract (workersCount s)) subject_alive subject_own"
proof (intro stoppable_family.intro runner_family.intro runs_invariant [OF laws], unfold_locales, goal_cases)
  case (1 s)
  then show ?case by (auto simp: subject_start_def intro: runner_system.ret_start [OF subject_runner [OF laws]])
next
  case (2 s e s')
  then show ?case using runner_system.ctx_step [OF subject_runner [OF laws], of "workersCount s" s e s'] by (simp add: subject_fine_def)
next
  case (3 s e s' r)
  then show ?case using runner_system.ret_once [OF subject_runner [OF laws], of "workersCount s" s e s'] by (simp add: subject_fine_def)
next
  case (4 s r)
  then show ?case using runner_system.ret_promised [OF subject_runner [OF laws], of "workersCount s" s r] by (simp add: subject_fine_def)
next
  case (5 s e s')
  then show ?case using workersCount_effect [OF subject_effect [OF laws 5(2)]] by simp
next
  case (6 s r)
  then show ?case by (simp add: run_contract_def)
next
  case (7 s)
  then show ?case using run_can_return [OF laws, of "workersCount s" s] by (simp add: subject_fine_def)
qed

section \<open>The processes of an application\<close>

record 'e env =
  isErr :: "'e \<Rightarrow> 'e \<Rightarrow> bool"
  wrapErr :: "'e option \<Rightarrow> string \<Rightarrow> 'e option"
  groupWait :: "'e option list \<Rightarrow> 'e option"
  groupCancels :: "'e option list \<Rightarrow> bool"
  sentinel :: "'e sentinels"
  listenErr :: "'e \<Rightarrow> bool"
  closeErr :: "'e \<Rightarrow> bool"
  serveErr :: "'e \<Rightarrow> bool"
  refusedErr :: "'e option"
  poolWait :: "pool_error option list \<Rightarrow> pool_error option"
  poolCancels :: "pool_error option list \<Rightarrow> bool"
  poolErr :: "pool_error \<Rightarrow> 'e"
  runWait :: "observer_error option list \<Rightarrow> observer_error option"
  runCancels :: "observer_error option list \<Rightarrow> bool"
  runErr :: "observer_error \<Rightarrow> 'e"

definition env_laws :: "'e env \<Rightarrow> bool" where
  "env_laws v \<longleftrightarrow> group_laws (groupWait v) (groupCancels v) \<and> group_laws (poolWait v) (poolCancels v)
     \<and> group_laws (runWait v) (runCancels v) \<and> serve_laws (isErr v) (listenErr v) (sentinel v)
     \<and> (\<forall>m. wrapErr v None m = None) \<and> (\<forall>e m. \<exists>f. wrapErr v (Some e) m = Some f \<and> isErr v f e)"

type_synonym ('e, 't, 'v, 'd, 'o) process = "'e http_run + 'e grpc_run + ('t, 'e) cron_run + 'v start_run
  + ('d, 'o) subject_run + 'e contract \<times> 'e runner_run"

type_synonym ('e, 'v, 'd, 'o) process_event = "'e http_event + 'e grpc_event + cron_event + 'v start_event
  + ('d, 'o) subject_event + 'e runner_event"

definition process_step :: "'e env \<Rightarrow> (('e, 'v, 'd, 'o) process_event, ('e, 't, 'v, 'd, 'o) process) step" where
  "process_step v = sum_step (Server_step (isErr v) (groupCancels v) (listenErr v) (closeErr v) (sentinel v))
     (sum_step (GRPCRunner_step (groupCancels v) (serveErr v) (refusedErr v)) (sum_step (Schedule_step (sentinel v))
     (sum_step (start_step (poolCancels v)) (sum_step (subject_step (runWait v) (runCancels v)) contracted_step))))"

definition process_start :: "('e, 't, 'v, 'd, 'o) process \<Rightarrow> bool" where
  "process_start = case_sum http_start (case_sum grpc_start (case_sum cron_start (case_sum start_ready
     (case_sum subject_start contracted_start))))"

definition process_fine :: "'e env \<Rightarrow> ('e, 't, 'v, 'd, 'o) process \<Rightarrow> bool" where
  "process_fine v = case_sum (http_fine (listenErr v) (closeErr v) (sentinel v)) (case_sum (grpc_fine (serveErr v) (refusedErr v))
     (case_sum (cron_fine (sentinel v)) (case_sum start_fine (case_sum runs_fine contracted_fine))))"

definition process_ctx :: "('e, 't, 'v, 'd, 'o) process \<Rightarrow> bool" where
  "process_ctx = case_sum http_ctx (case_sum grpc_ctx (case_sum cron_ctx (case_sum parent_done (case_sum run_ctx
     (\<lambda>x. over (snd x))))))"

definition process_is_ctx :: "('e, 'v, 'd, 'o) process_event \<Rightarrow> bool" where
  "process_is_ctx = case_sum (\<lambda>e. e = HttpCtx) (case_sum (\<lambda>e. e = GrpcCtx) (case_sum (\<lambda>e. e = CronCtx)
     (case_sum (\<lambda>e. e = ParentDone) (case_sum (\<lambda>e. e = CancelRun 0) (\<lambda>e. e = CtxOver)))))"

definition process_returns :: "'e env \<Rightarrow> ('e, 't, 'v, 'd, 'o) process \<Rightarrow> 'e option option" where
  "process_returns v = case_sum (Server_returns (groupWait v)) (case_sum (GRPCRunner_returns (wrapErr v) (groupWait v))
     (case_sum cron_ended (case_sum (embed_ret (poolErr v) (Start_result (poolWait v)))
     (case_sum (embed_ret (runErr v) Run_result) (\<lambda>x. ended (snd x))))))"

definition process_promise :: "'e env \<Rightarrow> ('e, 't, 'v, 'd, 'o) process \<Rightarrow> 'e contract" where
  "process_promise v = case_sum (\<lambda>_. http_contract (listenErr v) (closeErr v) (sentinel v))
     (case_sum (\<lambda>_. grpc_contract (wrapErr v) (serveErr v) (refusedErr v)) (case_sum (\<lambda>_. cron_contract (sentinel v))
     (case_sum (\<lambda>_. embed_contract (poolErr v) start_contract)
     (case_sum (\<lambda>s. embed_contract (runErr v) (run_contract (workersCount s))) fst))))"

text \<open>
  A process that can be stopped: a pool whose ticker period is positive and that has not panicked, a
  subject that has not panicked, holds no nil event and whose channel is open, a simple runner that
  heeds its context.
\<close>

definition process_alive :: "('e, 't, 'v, 'd, 'o) process \<Rightarrow> bool" where
  "process_alive = case_sum (\<lambda>_. True) (case_sum (\<lambda>_. True) (case_sum (\<lambda>_. True) (case_sum start_alive
     (case_sum subject_alive (\<lambda>x. responsive (fst x))))))"

text \<open>
  The steps of the processes themselves, as opposed to those of their clients: no HTTP connection or
  gRPC call begins, no HTTP request ends, nothing is submitted, notified or registered, and no pool is
  closed. Handlers of gRPC calls and pool items and observers that are running may return.
\<close>

definition process_own :: "'e env \<Rightarrow> ('e, 'v, 'd, 'o) process_event \<Rightarrow> bool" where
  "process_own v = case_sum (http_own (sentinel v)) (case_sum grpc_own (case_sum cron_own (case_sum start_own
     (case_sum subject_own (\<lambda>e. True)))))"

lemma process_family:
  assumes "env_laws v"
  shows "stoppable_family (process_step v) process_start (process_fine v) process_ctx (process_returns v) process_is_ctx
    (process_promise v) process_alive (process_own v)"
  unfolding process_step_def process_start_def process_fine_def process_ctx_def process_is_ctx_def process_returns_def
    process_promise_def process_alive_def process_own_def
  using assms unfolding env_laws_def
  by (intro family_sum http_family grpc_family cron_family family_embed start_family subject_family
      contracted.stoppable_family_axioms) simp_all

definition application_step :: "'e env \<Rightarrow> (('e, 'v, 'd, 'o) process_event app_event, (('e, 't, 'v, 'd, 'o) process, 'e) app) step" where
  "application_step v = app_step (groupCancels v) (process_step v) (process_returns v) process_is_ctx"

definition application_start :: "'e env \<Rightarrow> 'e contract list \<Rightarrow> (('e, 't, 'v, 'd, 'o) process, 'e) app \<Rightarrow> bool" where
  "application_start v = app_start process_start process_ctx (process_promise v)"

definition application_view :: "'e env \<Rightarrow> ('e, 'v, 'd, 'o) process_event app_event
    \<Rightarrow> (('e, 't, 'v, 'd, 'o) process, 'e) app \<Rightarrow> 'e group_event option" where
  "application_view v = app_view (process_step v) (process_returns v)"

definition application_returns :: "'e env \<Rightarrow> (('e, 't, 'v, 'd, 'o) process, 'e) app \<Rightarrow> 'e option option" where
  "application_returns v = app_returns (isErr v) (wrapErr v) (groupWait v) (sentinel v) (process_returns v)"

lemma application_simulates:
  assumes "env_laws v"
  shows "simulates (application_step v) (application_start v cs)
    (app_fine (process_fine v) process_ctx (process_promise v) (groupCancels v) cs)
    (group_step (groupCancels v) cs) (group_start cs) (as_group (process_returns v)) (application_view v)"
  using runner_family.app_simulates [OF stoppable_family.axioms(1) [OF process_family [OF assms]]] assms
  unfolding application_step_def application_start_def application_view_def env_laws_def by blast

section \<open>Properties\<close>

text \<open>
  C4. An application refines its group: whatever servers, schedules, pools, subjects and simple
  runners it is made of, its runs are, for \<open>WaitContext\<close>, runs of a group whose runners keep their
  contracts. So \<open>WaitContext\<close> returns when all of them have, and it returns nil exactly if the
  first error any process returned is none or the shutdown by signal, and else that error wrapped.
\<close>

theorem application_refines_group:
  assumes "env_laws v" and "application_start v cs a" and "exec (application_step v) evs a = Some b"
  shows "exec (group_step (groupCancels v) cs) (visible (application_step v) (application_view v) evs a)
      (as_group (process_returns v) a) = Some (as_group (process_returns v) b)
    \<and> (application_returns v b \<noteq> None \<longleftrightarrow> (\<forall>p \<in> set (procs b). process_returns v p \<noteq> None))
    \<and> (\<forall>r. application_returns v b = Some r \<longrightarrow> (case first_error (app_results b) of
         None \<Rightarrow> r = None
       | Some e \<Rightarrow> if isErr v e (ErrShutdownBySignal (sentinel v)) then r = None else \<exists>f. r = Some f \<and> isErr v f e))"
proof (intro conjI allI impI)
  note sim = application_simulates [OF assms(1), of cs]
  show "exec (group_step (groupCancels v) cs) (visible (application_step v) (application_view v) evs a)
      (as_group (process_returns v) a) = Some (as_group (process_returns v) b)"
    using simulates.sim_exec [OF sim _ assms(3)] invariant_of.inv_start [OF simulates.axioms(1) [OF sim]] assms(2) by blast
  show "application_returns v b \<noteq> None \<longleftrightarrow> (\<forall>p \<in> set (procs b). process_returns v p \<noteq> None)"
    by (simp add: application_returns_def app_returns_def WaitContext_returns_def as_group_def list_all_iff)
  fix r assume "application_returns v b = Some r"
  then have "r = WaitContext (isErr v) (wrapErr v) (groupWait v) (sentinel v) (app_results b)"
    by (auto simp: application_returns_def app_returns_def WaitContext_returns_def as_group_def split: if_splits)
  moreover have "groupWait v rs = first_error rs" for rs using assms(1) group_lawsD(1) by (auto simp: env_laws_def)
  ultimately show "case first_error (app_results b) of None \<Rightarrow> r = None
      | Some e \<Rightarrow> if isErr v e (ErrShutdownBySignal (sentinel v)) then r = None else \<exists>f. r = Some f \<and> isErr v f e"
    using assms(1) by (auto simp: WaitContext_def env_laws_def Let_def split: option.split)
qed

definition demo_env :: "string env" where
  "demo_env = \<lparr>isErr = (=), wrapErr = (\<lambda>e m. e), groupWait = first_error, groupCancels = (\<lambda>rs. first_error rs \<noteq> None),
     sentinel = demo_sentinels, listenErr = (\<lambda>e. e = ''bind''), closeErr = (\<lambda>e. e = ''close''), serveErr = (\<lambda>e. False), refusedErr = None,
     poolWait = first_error, poolCancels = (\<lambda>rs. first_error rs \<noteq> None), poolErr = (\<lambda>e. ''pool''),
     runWait = first_error, runCancels = (\<lambda>rs. first_error rs \<noteq> None), runErr = (\<lambda>e. ''subject'')\<rparr>"

definition demo_app :: "((string, nat, nat, nat, string) process, string) app" where
  "demo_app = \<lparr>app_parent = False, procs = [Inr (Inr (Inr (Inr (Inr (signals_contract demo_sentinels, \<lparr>over = False, ended = None\<rparr>))))),
     Inl demo_http, Inr (Inr (Inr (Inl \<lparr>parent_done = False, refused_start = False, on_pool = idle_run default_config\<rparr>))),
     Inr (Inr (Inr (Inr (Inl (fresh 1)))))], app_results = []\<rparr>"

lemma demo_env_laws: "env_laws demo_env"
  using demo_laws by (simp add: env_laws_def demo_env_def group_laws_def)

lemma demo_app_start: "application_start demo_env (map (process_promise demo_env) (procs demo_app)) demo_app"
proof -
  have "mono_contract (signals_contract demo_sentinels)" by (auto simp: mono_contract_def signals_contract_def)
  moreover have "subject_start (fresh 1 :: (nat, string) subject_run)" by (auto simp: subject_start_def)
  moreover have "\<not> run_ctx (fresh 1 :: (nat, string) subject_run)"
    by (simp add: run_ctx_def fresh_def NewSubject_def subject.defs subject_run.defs)
  ultimately show ?thesis
    by (simp add: application_start_def app_start_def demo_app_def process_start_def process_ctx_def contracted_start_def
        runner_start_def demo_http_def http_start_def start_ready_def pool_start_default)
qed

text \<open>A signal: the first runner returns, then the HTTP server is shut down.\<close>

definition signal_events :: "(string, nat, nat, string) process_event app_event list" where
  "signal_events = [Proc 1 (Inl Connect), Proc 0 (Inr (Inr (Inr (Inr (Inr (Return (Some ''signal'')))))))]
     @ map (\<lambda>e. Proc 1 (Inl e)) [HttpCtx, BeginShutdown, Disconnect, ServeReturns ''closed'', Drained None]"

lemma signal_run: "\<exists>b. exec (application_step demo_env) signal_events demo_app = Some b
    \<and> app_results b = [Some ''signal'', None] \<and> app_over (groupCancels demo_env) b \<and> list_all process_alive (procs b)"
proof -
  have "responsive (signals_contract demo_sentinels)" by (auto simp: responsive_def signals_contract_def)
  moreover have "subject_alive (fresh 1 :: (nat, string) subject_run)"
    by (simp add: subject_alive_def fresh_def NewSubject_def subject.defs subject_run.defs)
  moreover have "start_alive \<lparr>parent_done = False, refused_start = False, on_pool = idle_run default_config :: nat pool_run\<rparr>"
    by (simp add: start_alive_def idle_run_def launch_def pool.defs pool_run.defs default_defs)
  ultimately show ?thesis
    by (simp add: signal_events_def application_step_def app_over_def demo_app_def demo_env_def process_step_def
        process_returns_def process_is_ctx_def process_alive_def demo_http_def demo_sentinels_def serve_result_def
        signals_contract_def Server_returns_def)
qed

theorem application_refines_group_witness:
  "\<exists>b. exec (application_step demo_env) signal_events demo_app = Some b \<and> app_results b = [Some ''signal'', None]
    \<and> exec (group_step (groupCancels demo_env) (map (process_promise demo_env) (procs demo_app)))
        (visible (application_step demo_env) (application_view demo_env) signal_events demo_app)
        (as_group (process_returns demo_env) demo_app) = Some (as_group (process_returns demo_env) b)"
proof -
  obtain b where b: "exec (application_step demo_env) signal_events demo_app = Some b" "app_results b = [Some ''signal'', None]"
    using signal_run by blast
  show ?thesis using application_refines_group [OF demo_env_laws demo_app_start b(1)] b by blast
qed



end
