(* ===== verification/Jsonrpc.thy ===== *)
theory Jsonrpc
  imports Go_Prelude
begin

text \<open>
  The JSON-RPC client \<open>src/jsonrpc\<close>: requests, options and the pipeline of \<open>Execute\<close>. The JSON
  codec, the HTTP client and the construction of an HTTP request are parameters (the record
  \<open>rpc_env\<close>); the model returns the outcome with the HTTP calls made, the deferred close of the
  response body included. Every failing return of the code carries the zero result, so an \<open>Err\<close>
  stands for the pair of it and the error.
\<close>

section \<open>Headers\<close>

text \<open>
  \<open>net/http.Header\<close>: values in order under canonical keys. A key with a byte that no header name
  may have stays as it is.
\<close>

type_synonym header = "string \<Rightarrow> string list"

definition is_lower :: "char \<Rightarrow> bool" where "is_lower c = (let n = of_char c :: nat in 97 \<le> n \<and> n \<le> 122)"
definition is_upper :: "char \<Rightarrow> bool" where "is_upper c = (let n = of_char c :: nat in 65 \<le> n \<and> n \<le> 90)"
definition is_digit :: "char \<Rightarrow> bool" where "is_digit c = (let n = of_char c :: nat in 48 \<le> n \<and> n \<le> 57)"

definition upper_char :: "char \<Rightarrow> char" where
  "upper_char c = (if is_lower c then char_of (of_char c - 32 :: nat) else c)"

definition lower_char :: "char \<Rightarrow> char" where
  "lower_char c = (if is_upper c then char_of (of_char c + 32 :: nat) else c)"

definition token_char :: "char \<Rightarrow> bool" where
  "token_char c \<longleftrightarrow> is_lower c \<or> is_upper c \<or> is_digit c
     \<or> c \<in> set ''!#$%&*+-.^_|~'' \<union> {CHR 0x27, CHR 0x60}"

fun canonical_from :: "bool \<Rightarrow> string \<Rightarrow> string" where
  "canonical_from up [] = []"
| "canonical_from up (c # s) = (if up then upper_char c else lower_char c) # canonical_from (c = CHR ''-'') s"

definition CanonicalHeaderKey :: "string \<Rightarrow> string" where
  "CanonicalHeaderKey k = (if list_all token_char k then canonical_from True k else k)"

definition Header_Add :: "string \<Rightarrow> string \<Rightarrow> header \<Rightarrow> header" where
  "Header_Add k v h = h(CanonicalHeaderKey k := h (CanonicalHeaderKey k) @ [v])"

definition Header_Set :: "string \<Rightarrow> string \<Rightarrow> header \<Rightarrow> header" where
  "Header_Set k v h = h(CanonicalHeaderKey k := [v])"

definition Header_Get :: "header \<Rightarrow> string \<Rightarrow> string" where
  "Header_Get h k = (case h (CanonicalHeaderKey k) of [] \<Rightarrow> [] | v # _ \<Rightarrow> v)"

section \<open>Requests\<close>

datatype 'a any_id = IdString string | IdValue 'a

record ('p, 'a) request =
  Method :: string
  Params :: "'p list"
  ID :: "'a any_id"
  JSONRPC :: string

definition Version :: string where "Version = ''2.0''"

text \<open>\<open>strconv.FormatInt(n, 10)\<close>\<close>

fun digits :: "nat \<Rightarrow> string" where
  "digits n = (if n < 10 then [char_of (48 + n)] else digits (n div 10) @ [char_of (48 + n mod 10)])"

declare digits.simps [simp del]

definition FormatInt :: "int \<Rightarrow> string" where
  "FormatInt n = (if n < 0 then CHR ''-'' # digits (nat (- n)) else digits (nat n))"

type_synonym ('p, 'a) request_option = "('p, 'a) request \<Rightarrow> ('p, 'a) request"

definition NewRequest :: "int \<Rightarrow> string \<Rightarrow> 'p list \<Rightarrow> ('p, 'a) request_option list \<Rightarrow> ('p, 'a) request" where
  "NewRequest now method params opts =
     fold (\<lambda>opt req. opt req) opts
       \<lparr>Method = method, Params = params, ID = IdString (FormatInt now), JSONRPC = Version\<rparr>"

definition WithRPCVersion :: "string \<Rightarrow> ('p, 'a) request_option" where
  "WithRPCVersion version = (\<lambda>req. req\<lparr>JSONRPC := version\<rparr>)"

definition WithRPCid :: "'a \<Rightarrow> ('p, 'a) request_option" where
  "WithRPCid rid = (\<lambda>req. req\<lparr>ID := IdValue rid\<rparr>)"

section \<open>Responses and options\<close>

record RPCError =
  Code :: int
  Message :: string

record ('r, 'a) RPCResponse =
  resp_JSONRPC :: string
  Result :: 'r
  Error :: "RPCError option"
  resp_ID :: "'a any_id"

datatype rpc_error =
    BadLimit
  | EncodeFailed string
  | CreateFailed string
  | ExecFailed string
  | UnexpectedStatus int
  | TooLarge int
  | ReadFailed string
  | DecodeFailed string
  | RPCErr RPCError

definition RPCError_Error :: "RPCError \<Rightarrow> string" where
  "RPCError_Error e = ''jsonrpc error: code='' @ FormatInt (Code e) @ '', message='' @ Message e"

definition DefaultMaxResponseBytes :: int where "DefaultMaxResponseBytes = 64 * 2 ^ 20"

abbreviation MaxInt64 :: int where "MaxInt64 \<equiv> 9223372036854775807"

record 'c executeConfig =
  client :: 'c
  headers :: header
  maxResponseBytes :: int

type_synonym 'c execute_option = "'c executeConfig \<Rightarrow> 'c executeConfig"

definition WithClient :: "'c option \<Rightarrow> 'c execute_option" where
  "WithClient c = (\<lambda>cfg. case c of None \<Rightarrow> cfg | Some c \<Rightarrow> cfg\<lparr>client := c\<rparr>)"

definition WithMaxResponseBytes :: "int \<Rightarrow> 'c execute_option" where
  "WithMaxResponseBytes limit = (\<lambda>cfg. cfg\<lparr>maxResponseBytes := limit\<rparr>)"

definition WithHeader :: "string \<Rightarrow> string \<Rightarrow> 'c execute_option" where
  "WithHeader key v = (\<lambda>cfg. cfg\<lparr>headers := Header_Add key v (headers cfg)\<rparr>)"

section \<open>Execute\<close>

text \<open>
  A response: its status, the announced length (-1 when unknown) and the bytes of the body up to
  its end or to a read error, which the transport reports after them.
\<close>

record http_response =
  StatusCode :: int
  ContentLength :: int
  Body :: "byte list"
  BodyErr :: "string option"

record ('p, 'a, 'r, 'c) rpc_env =
  Marshal :: "('p, 'a) request \<Rightarrow> (string, byte list) outcome"
  NewHTTPRequest :: "string \<Rightarrow> byte list \<Rightarrow> (string, unit) outcome"
  Do :: "'c \<Rightarrow> string \<Rightarrow> header \<Rightarrow> byte list \<Rightarrow> (string, http_response) outcome"
  Unmarshal :: "byte list \<Rightarrow> (string, ('r, 'a) RPCResponse) outcome"
  default_client :: 'c
  max_alloc :: int

text \<open>\<open>body.Grow(n)\<close>: the buffer panics when the runtime cannot allocate so many bytes.\<close>

definition Grow :: "int \<Rightarrow> int \<Rightarrow> (rpc_error, unit) outcome" where
  "Grow limit n = (if limit < n then Panic (PanicValue ''bytes.Buffer: too large'') else Ok ())"

definition MinRead :: int where "MinRead = 512"

text \<open>\<open>body.ReadFrom(io.LimitReader(resp.Body, n))\<close>: the error of the body shows when it comes first.\<close>

definition read_limited :: "http_response \<Rightarrow> int \<Rightarrow> (rpc_error, byte list) outcome" where
  "read_limited resp n =
     (if n \<le> int (length (Body resp)) then Ok (take (nat n) (Body resp))
      else case BodyErr resp of None \<Rightarrow> Ok (Body resp) | Some e \<Rightarrow> Err (ReadFailed e))"

text \<open>The response part: checks, bounded read, decoding.\<close>

definition handle_response :: "('p, 'a, 'r, 'c) rpc_env \<Rightarrow> int \<Rightarrow> http_response \<Rightarrow> (rpc_error, 'r) outcome" where
  "handle_response env limit resp =
     (if StatusCode resp < 200 \<or> StatusCode resp \<ge> 300 then Err (UnexpectedStatus (StatusCode resp))
      else if ContentLength resp > limit then Err (TooLarge limit)
      else
        bind_out (if ContentLength resp > 0 \<and> ContentLength resp \<le> limit - MinRead
            then Grow (max_alloc env) (wrap64 (ContentLength resp + MinRead)) else Ok ()) (\<lambda>_.
        bind_out (read_limited resp (wrap64 (limit + 1))) (\<lambda>body.
        if int (length body) > limit then Err (TooLarge limit)
        else
          bind_out (map_err DecodeFailed (Unmarshal env body)) (\<lambda>rpcResp.
          case Error rpcResp of Some e \<Rightarrow> Err (RPCErr e) | None \<Rightarrow> Ok (Result rpcResp)))))"

datatype http_call = Sent header "byte list" | ClosedBody

definition execute_config :: "('p, 'a, 'r, 'c) rpc_env \<Rightarrow> 'c execute_option list \<Rightarrow> 'c executeConfig" where
  "execute_config env opts = fold (\<lambda>opt cfg. opt cfg) opts
     \<lparr>client = default_client env, headers = (\<lambda>_. []), maxResponseBytes = DefaultMaxResponseBytes\<rparr>"

definition Execute :: "('p, 'a, 'r, 'c) rpc_env \<Rightarrow> ('p, 'a) request \<Rightarrow> string \<Rightarrow> 'c execute_option list
    \<Rightarrow> (rpc_error, 'r) outcome \<times> http_call list" where
  "Execute env r url opts =
     (let cfg = execute_config env opts in
      if maxResponseBytes cfg \<le> 0 \<or> maxResponseBytes cfg = MaxInt64 then (Err BadLimit, [])
      else case Marshal env r of
          Panic p \<Rightarrow> (Panic p, [])
        | Err err \<Rightarrow> (Err (EncodeFailed err), [])
        | Ok data \<Rightarrow> (case NewHTTPRequest env url data of
            Panic p \<Rightarrow> (Panic p, [])
          | Err err \<Rightarrow> (Err (CreateFailed err), [])
          | Ok _ \<Rightarrow>
              let hdr = (if Header_Get (headers cfg) ''Content-Type'' = []
                         then Header_Set ''Content-Type'' ''application/json'' (headers cfg) else headers cfg)
              in (case Do env (client cfg) url hdr data of
                    Panic p \<Rightarrow> (Panic p, [Sent hdr data])
                  | Err err \<Rightarrow> (Err (ExecFailed err), [Sent hdr data])
                  | Ok resp \<Rightarrow> (handle_response env (maxResponseBytes cfg) resp, [Sent hdr data, ClosedBody]))))"

section \<open>Properties\<close>

text \<open>The header that is sent.\<close>

definition sent_header :: "header \<Rightarrow> header" where
  "sent_header h = (if Header_Get h ''Content-Type'' = []
     then Header_Set ''Content-Type'' ''application/json'' h else h)"

lemma content_type_key: "CanonicalHeaderKey ''Content-Type'' = ''Content-Type''"
  by (simp add: CanonicalHeaderKey_def token_char_def is_lower_def is_upper_def is_digit_def
      upper_char_def lower_char_def)

lemma read_limited_cases:
  assumes "0 < limit"
  shows "read_limited resp (limit + 1) =
    (if limit < int (length (Body resp)) then Ok (take (nat (limit + 1)) (Body resp))
     else case BodyErr resp of None \<Rightarrow> Ok (Body resp) | Some e \<Rightarrow> Err (ReadFailed e))"
    and "limit < int (length (Body resp)) \<Longrightarrow> int (length (take (nat (limit + 1)) (Body resp))) = limit + 1"
  using assms by (auto simp: read_limited_def min_def)

text \<open>The two arithmetic steps stay in range for the limits \<open>Execute\<close> accepts.\<close>

lemma limit_arith:
  assumes "0 < limit" and "limit < MaxInt64"
  shows "wrap64 (limit + 1) = limit + 1"
    and "0 < n \<Longrightarrow> n \<le> limit - MinRead \<Longrightarrow> wrap64 (n + MinRead) = n + MinRead"
  using assms by (simp_all add: wrap64_small MinRead_def)

lemma handle_response_Ok_iff:
  assumes "0 < limit" and "limit < MaxInt64" and "limit \<le> max_alloc env"
  shows "handle_response env limit resp = Ok v \<longleftrightarrow>
     200 \<le> StatusCode resp \<and> StatusCode resp < 300 \<and> ContentLength resp \<le> limit
     \<and> int (length (Body resp)) \<le> limit \<and> BodyErr resp = None
     \<and> (\<exists>rpc. Unmarshal env (Body resp) = Ok rpc \<and> Error rpc = None \<and> v = Result rpc)"
proof -
  have grow: "(if ContentLength resp > 0 \<and> ContentLength resp \<le> limit - MinRead
      then Grow (max_alloc env) (wrap64 (ContentLength resp + MinRead)) else Ok ()) = Ok ()"
    using limit_arith(2) [OF assms(1,2)] assms(3) by (auto simp: Grow_def)
  note read = read_limited_cases [OF assms(1)]
  show ?thesis
  proof (cases "limit < int (length (Body resp))")
    case True
    then show ?thesis
      unfolding handle_response_def grow limit_arith(1) [OF assms(1,2)] read(1) bind_out.simps
      using read(2) [OF True] by simp
  next
    case False
    then show ?thesis
      unfolding handle_response_def grow limit_arith(1) [OF assms(1,2)] read(1) bind_out.simps
      by (cases "BodyErr resp") (auto simp: outcome_simps split: option.splits)
  qed
qed

lemma Execute_unfold:
  "Execute env r url opts = (let cfg = execute_config env opts in
     if maxResponseBytes cfg \<le> 0 \<or> maxResponseBytes cfg = MaxInt64 then (Err BadLimit, [])
     else case Marshal env r of
         Panic p \<Rightarrow> (Panic p, [])
       | Err err \<Rightarrow> (Err (EncodeFailed err), [])
       | Ok data \<Rightarrow> (case NewHTTPRequest env url data of
           Panic p \<Rightarrow> (Panic p, [])
         | Err err \<Rightarrow> (Err (CreateFailed err), [])
         | Ok _ \<Rightarrow> (case Do env (client cfg) url (sent_header (headers cfg)) data of
               Panic p \<Rightarrow> (Panic p, [Sent (sent_header (headers cfg)) data])
             | Err err \<Rightarrow> (Err (ExecFailed err), [Sent (sent_header (headers cfg)) data])
             | Ok resp \<Rightarrow> (handle_response env (maxResponseBytes cfg) resp,
                 [Sent (sent_header (headers cfg)) data, ClosedBody]))))"
  by (simp only: Execute_def sent_header_def Let_def)

text \<open>
  C8. \<open>Execute\<close> returns a result exactly when everything went well: the size limit is valid, the
  request could be encoded, built and sent, the final status is 2xx, neither the announced nor
  the real length of the body exceeds the limit, the body was read to its end, it decodes, and
  the response carries no JSON-RPC error. The result is then the decoded one.
\<close>

theorem execute_succeeds_iff:
  assumes "limit = maxResponseBytes (execute_config env opts)" and "in_int64 limit"
    and "limit \<le> max_alloc env"
  shows "fst (Execute env r url opts) = Ok v \<longleftrightarrow> 0 < limit \<and> limit < MaxInt64 \<and>
    (\<exists>data resp rpc. Marshal env r = Ok data \<and> NewHTTPRequest env url data = Ok ()
       \<and> Do env (client (execute_config env opts)) url (sent_header (headers (execute_config env opts))) data = Ok resp
       \<and> 200 \<le> StatusCode resp \<and> StatusCode resp < 300 \<and> ContentLength resp \<le> limit
       \<and> int (length (Body resp)) \<le> limit \<and> BodyErr resp = None
       \<and> Unmarshal env (Body resp) = Ok rpc \<and> Error rpc = None \<and> v = Result rpc)"
proof (cases "0 < limit \<and> limit < MaxInt64")
  case True
  then show ?thesis
    using handle_response_Ok_iff [of limit env] assms
    by (auto simp: Execute_unfold Let_def split: outcome.splits)
next
  case False
  then show ?thesis using assms(1,2) by (auto simp: Execute_def Let_def in_int64_def)
qed

definition demo_env :: "(nat, nat, nat, unit) rpc_env" where
  "demo_env = \<lparr>Marshal = (\<lambda>_. Ok [1, 2]), NewHTTPRequest = (\<lambda>_ _. Ok ()),
     Do = (\<lambda>_ _ _ _. Ok \<lparr>StatusCode = 200, ContentLength = -1, Body = [3, 4, 5], BodyErr = None\<rparr>),
     Unmarshal = (\<lambda>b. Ok \<lparr>resp_JSONRPC = Version, Result = length b, Error = None, resp_ID = IdValue 1\<rparr>),
     default_client = (), max_alloc = 2 ^ 47\<rparr>"

theorem execute_succeeds_iff_witness:
  "fst (Execute demo_env (NewRequest 0 ''ping'' [] []) ''http://rpc'' [WithMaxResponseBytes 3]) = Ok 3
   \<and> fst (Execute demo_env (NewRequest 0 ''ping'' [] []) ''http://rpc'' [WithMaxResponseBytes 2]) \<noteq> Ok 3"
proof -
  have cfg: "maxResponseBytes (execute_config demo_env [WithMaxResponseBytes n]) = n" for n
    by (simp add: execute_config_def WithMaxResponseBytes_def)
  show ?thesis
    using execute_succeeds_iff [of 3 demo_env "[WithMaxResponseBytes 3]" "NewRequest 0 ''ping'' [] []" "''http://rpc''" 3]
      execute_succeeds_iff [of 2 demo_env "[WithMaxResponseBytes 2]" "NewRequest 0 ''ping'' [] []" "''http://rpc''" 3]
    by (simp add: cfg in_int64_def) (simp add: demo_env_def)
qed

text \<open>
  The options of the package, as a caller writes them, and what a list of them asks for: the last
  client that is not nil, the last limit, and for every header the supplied values in order. A
  request without a content type, or with an empty one, gets \<open>application/json\<close>.
\<close>

datatype 'c option_call = UseClient "'c option" | UseLimit int | UseHeader string string

primrec option_of :: "'c option_call \<Rightarrow> 'c execute_option" where
  "option_of (UseClient c) = WithClient c"
| "option_of (UseLimit n) = WithMaxResponseBytes n"
| "option_of (UseHeader k v) = WithHeader k v"

fun chosen_client :: "'c \<Rightarrow> 'c option_call list \<Rightarrow> 'c" where
  "chosen_client c [] = c"
| "chosen_client c (UseClient (Some c') # os) = chosen_client c' os"
| "chosen_client c (_ # os) = chosen_client c os"

fun chosen_limit :: "int \<Rightarrow> 'c option_call list \<Rightarrow> int" where
  "chosen_limit n [] = n"
| "chosen_limit n (UseLimit n' # os) = chosen_limit n' os"
| "chosen_limit n (_ # os) = chosen_limit n os"

fun supplied :: "'c option_call list \<Rightarrow> string \<Rightarrow> string list" where
  "supplied [] k = []"
| "supplied (UseHeader key v # os) k = (if CanonicalHeaderKey key = k then v # supplied os k else supplied os k)"
| "supplied (_ # os) k = supplied os k"

definition request_header :: "'c option_call list \<Rightarrow> header" where
  "request_header os k = (if k = ''Content-Type'' \<and> (supplied os k = [] \<or> hd (supplied os k) = [])
     then [''application/json''] else supplied os k)"

lemma options_applied:
  "client (fold (\<lambda>opt cfg. opt cfg) (map option_of os) cfg) = chosen_client (client cfg) os"
  "maxResponseBytes (fold (\<lambda>opt cfg. opt cfg) (map option_of os) cfg) = chosen_limit (maxResponseBytes cfg) os"
  "headers (fold (\<lambda>opt cfg. opt cfg) (map option_of os) cfg) = (\<lambda>k. headers cfg k @ supplied os k)"
proof (induction os arbitrary: cfg)
  case (Cons o' os)
  {
    case 1
    then show ?case using Cons.IH(1) by (cases o') (auto simp: WithClient_def WithMaxResponseBytes_def WithHeader_def split: option.split)
  next
    case 2
    then show ?case using Cons.IH(2) by (cases o') (auto simp: WithClient_def WithMaxResponseBytes_def WithHeader_def split: option.split)
  next
    case 3
    then show ?case using Cons.IH(3) by (cases o')
        (auto simp: WithClient_def WithMaxResponseBytes_def WithHeader_def Header_Add_def fun_eq_iff split: option.split)
  }
qed simp_all

lemma sent_header_supplied: "sent_header (supplied os) = request_header os"
  by (auto simp: fun_eq_iff sent_header_def request_header_def Header_Get_def Header_Set_def content_type_key split: list.split)

lemma execute_config_chosen:
  "client (execute_config env (map option_of os)) = chosen_client (default_client env) os"
  "maxResponseBytes (execute_config env (map option_of os)) = chosen_limit DefaultMaxResponseBytes os"
  "headers (execute_config env (map option_of os)) = supplied os"
  by (simp_all add: execute_config_def options_applied)

text \<open>
  C33. The HTTP calls \<open>Execute\<close> makes, exactly. With an invalid limit, or when the request cannot be
  encoded or built, none. Otherwise one call of \<open>Do\<close> (within which the client may follow
  redirects) on the last client supplied, with the encoded request and these headers: under every
  canonical name the supplied values in the order of the options, and \<open>application/json\<close> as
  content type when none, or an empty one, was supplied; then, exactly if there is a response, one
  close of its body, which comes last. The decoder never sees more bytes than the limit allows.
\<close>

theorem execute_requests:
  "snd (Execute env r url (map option_of os)) =
     (if chosen_limit DefaultMaxResponseBytes os \<le> 0 \<or> chosen_limit DefaultMaxResponseBytes os = MaxInt64 then []
      else case Marshal env r of
          Ok data \<Rightarrow> (case NewHTTPRequest env url data of
              Ok _ \<Rightarrow> Sent (request_header os) data #
                (if is_ok (Do env (chosen_client (default_client env) os) url (request_header os) data) then [ClosedBody] else [])
            | _ \<Rightarrow> [])
        | _ \<Rightarrow> [])
   \<and> Execute env r url (map option_of os) = Execute (env\<lparr>Unmarshal := (\<lambda>b.
        if int (length b) \<le> chosen_limit DefaultMaxResponseBytes os then Unmarshal env b
        else Panic (PanicValue ''too long''))\<rparr>) r url (map option_of os)"
proof
  let ?limit = "chosen_limit DefaultMaxResponseBytes os"
  let ?env = "env\<lparr>Unmarshal := (\<lambda>b. if int (length b) \<le> ?limit then Unmarshal env b else Panic (PanicValue ''too long''))\<rparr>"
  have "handle_response env ?limit resp = handle_response ?env ?limit resp" for resp
    by (auto simp: handle_response_def intro!: bind_out_cong)
  moreover have "execute_config ?env (map option_of os) = execute_config env (map option_of os)" by (simp add: execute_config_def)
  ultimately show "Execute env r url (map option_of os) = Execute ?env r url (map option_of os)"
    by (simp add: Execute_unfold Let_def execute_config_chosen split: outcome.split)
qed (simp add: Execute_unfold Let_def execute_config_chosen sent_header_supplied split: outcome.split)

theorem execute_requests_witness:
  "\<exists>hdr. snd (Execute demo_env (NewRequest 0 ''ping'' [] []) ''http://rpc''
       (map option_of [UseHeader ''x-key'' ''a'', UseLimit 100, UseHeader ''X-Key'' ''b''])) = [Sent hdr [1, 2], ClosedBody]
     \<and> hdr ''X-Key'' = [''a'', ''b''] \<and> hdr ''Content-Type'' = [''application/json''] \<and> hdr ''Accept'' = []"
proof -
  let ?os = "[UseHeader ''x-key'' ''a'', UseLimit 100, UseHeader ''X-Key'' ''b''] :: unit option_call list"
  have key: "CanonicalHeaderKey ''x-key'' = ''X-Key''" "CanonicalHeaderKey ''X-Key'' = ''X-Key''"
    by code_simp+
  have "snd (Execute demo_env (NewRequest 0 ''ping'' [] []) ''http://rpc'' (map option_of ?os)) = [Sent (request_header ?os) [1, 2], ClosedBody]"
    unfolding execute_requests [THEN conjunct1] by (simp add: demo_env_def)
  then show ?thesis by (intro exI [of _ "request_header ?os"]) (simp add: request_header_def key)
qed

lemma handle_response_safe:
  assumes "0 < limit" and "limit < MaxInt64" and "\<And>b. safe (Unmarshal env b)"
  shows "safe (handle_response env limit resp) \<longleftrightarrow> \<not> (200 \<le> StatusCode resp \<and> StatusCode resp < 300
    \<and> 0 < ContentLength resp \<and> ContentLength resp \<le> limit - 512 \<and> max_alloc env < ContentLength resp + 512)"
proof -
  have rest: "safe (bind_out (read_limited resp (limit + 1)) (\<lambda>body.
      if int (length body) > limit then Err (TooLarge limit)
      else bind_out (map_err DecodeFailed (Unmarshal env body)) (\<lambda>rpcResp.
        case Error rpcResp of Some e \<Rightarrow> Err (RPCErr e) | None \<Rightarrow> Ok (Result rpcResp))))"
    using assms(3) by (auto simp: read_limited_def split: option.split intro!: safe_bind)
  show ?thesis
    unfolding handle_response_def limit_arith(1) [OF assms(1,2)]
    using rest limit_arith(2) [OF assms(1,2), of "ContentLength resp"] assms(1)
    by (auto simp: Grow_def MinRead_def)
qed

text \<open>
  With a codec and transport that do not panic, \<open>Execute\<close> panics in one situation only: a
  successful response announces a length that fits the configured limit but not into memory,
  and the buffer is grown to it before a byte is read. Limits up to the allocatable size rule
  this out; larger ones leave it to the server.
\<close>

lemma execute_panics_iff:
  assumes "limit = maxResponseBytes (execute_config env opts)" and "in_int64 limit"
    and "safe (Marshal env r)" and "\<And>d. safe (NewHTTPRequest env url d)"
    and "\<And>c h d. safe (Do env c url h d)" and "\<And>b. safe (Unmarshal env b)"
  shows "\<not> safe (fst (Execute env r url opts)) \<longleftrightarrow> 0 < limit \<and> limit < MaxInt64 \<and>
    (\<exists>data resp. Marshal env r = Ok data \<and> NewHTTPRequest env url data = Ok ()
       \<and> Do env (client (execute_config env opts)) url (sent_header (headers (execute_config env opts))) data = Ok resp
       \<and> 200 \<le> StatusCode resp \<and> StatusCode resp < 300
       \<and> 0 < ContentLength resp \<and> ContentLength resp \<le> limit - 512 \<and> max_alloc env < ContentLength resp + 512)"
proof (cases "0 < limit \<and> limit < MaxInt64")
  case True
  then have "0 < limit" "limit < MaxInt64" by simp_all
  note resp = handle_response_safe [OF this assms(6)]
  show ?thesis
    using True assms(1) assms(3) assms(4) assms(5) resp
    by (auto simp: Execute_unfold Let_def split: outcome.splits) (metis safe.simps(3))+
next
  case False
  then show ?thesis using assms(1,2) by (auto simp: Execute_def Let_def in_int64_def)
qed

end
