(* ===== verification/Jsonrpc_Client.thy ===== *)
theory Jsonrpc_Client
  imports Jsonrpc
begin

text \<open>
  The HTTP client \<open>Execute\<close> uses unless \<open>WithClient\<close> names another: \<open>src/jsonrpc/client.go\<close>. Its
  settings are the records of \<open>net\<close>, \<open>net/http\<close> and \<open>crypto/tls\<close> the code fills in; what they
  mean for one request is the documented reading of the time-outs: each phase of an exchange has
  a limit of its own, zero being none, and the client's limit covers all of them, the reading of
  the body included.
\<close>

section \<open>Settings\<close>

definition second :: int where "second = 1000000000"
definition millisecond :: int where "millisecond = 1000000"

definition dialTimeout :: int where "dialTimeout = 5 * second"
definition dialKeepAlive :: int where "dialKeepAlive = 30 * second"
definition tlsHandshakeTime :: int where "tlsHandshakeTime = 5 * second"
definition idleConnTimeout :: int where "idleConnTimeout = 90 * second"
definition expectContinue :: int where "expectContinue = 250 * millisecond"
definition requestTimeout :: int where "requestTimeout = 30 * second"
definition headerTimeout :: int where "headerTimeout = 10 * second"
definition maxIdleConns :: int where "maxIdleConns = 100"
definition maxIdleConnsPerHost :: int where "maxIdleConnsPerHost = 16"
definition maxConnsPerHost :: int where "maxConnsPerHost = 512"
definition tlsSessionCacheSize :: int where "tlsSessionCacheSize = 100"

lemmas client_constants = second_def millisecond_def dialTimeout_def dialKeepAlive_def tlsHandshakeTime_def
  idleConnTimeout_def expectContinue_def requestTimeout_def headerTimeout_def maxIdleConns_def
  maxIdleConnsPerHost_def maxConnsPerHost_def tlsSessionCacheSize_def

record dialer =
  dialer_Timeout :: int
  KeepAlive :: int

datatype tls_version = VersionTLS10 | VersionTLS11 | VersionTLS12 | VersionTLS13

record tls_config =
  MinVersion :: tls_version
  ClientSessionCache :: int

record transport =
  ProxyFromEnvironment :: bool
  DialContext :: dialer
  ForceAttemptHTTP2 :: bool
  MaxIdleConns :: int
  MaxIdleConnsPerHost :: int
  MaxConnsPerHost :: int
  IdleConnTimeout :: int
  TLSHandshakeTimeout :: int
  ExpectContinueTimeout :: int
  ResponseHeaderTimeout :: int
  DisableCompression :: bool
  TLSClientConfig :: tls_config

record http_client =
  Transport :: transport
  client_Timeout :: int

definition defaultHTTPTransport :: transport where
  "defaultHTTPTransport =
     \<lparr>ProxyFromEnvironment = True,
      DialContext = \<lparr>dialer_Timeout = dialTimeout, KeepAlive = dialKeepAlive\<rparr>,
      ForceAttemptHTTP2 = True,
      MaxIdleConns = maxIdleConns, MaxIdleConnsPerHost = maxIdleConnsPerHost, MaxConnsPerHost = maxConnsPerHost,
      IdleConnTimeout = idleConnTimeout, TLSHandshakeTimeout = tlsHandshakeTime,
      ExpectContinueTimeout = expectContinue, ResponseHeaderTimeout = headerTimeout,
      DisableCompression = False,
      TLSClientConfig = \<lparr>MinVersion = VersionTLS12, ClientSessionCache = tlsSessionCacheSize\<rparr>\<rparr>"

definition defaultHTTPClient :: http_client where
  "defaultHTTPClient = \<lparr>Transport = defaultHTTPTransport, client_Timeout = requestTimeout\<rparr>"

section \<open>One exchange\<close>

text \<open>
  What a server makes of a request, with the time everything takes: a new connection is dialled and
  secured first; then the request is written, the header awaited, and the body arrives byte by byte
  until its end (or a read error).
\<close>

record served =
  new_conn :: bool
  dial_takes :: int
  tls_takes :: int
  write_takes :: int
  header_takes :: int
  reply_status :: int
  reply_length :: int
  reply_body :: "(int \<times> byte) list"
  reply_end :: int
  reply_err :: "string option"

text \<open>The phases of an exchange, each with its own limit (0 is none) and the time it takes.\<close>

definition head_phases :: "transport \<Rightarrow> served \<Rightarrow> (int \<times> int) list" where
  "head_phases t x =
     (if new_conn x
      then [(dialer_Timeout (DialContext t), dial_takes x), (TLSHandshakeTimeout t, tls_takes x)] else [])
     @ [(0, write_takes x), (ResponseHeaderTimeout t, header_takes x)]"

definition body_phases :: "served \<Rightarrow> (int \<times> int) list" where
  "body_phases x = map (\<lambda>(d, _). (0, d)) (reply_body x) @ [(0, reply_end x)]"

text \<open>
  From the time \<open>now\<close> on, under the client's limit for the whole exchange: whether all phases
  complete, and when this is decided. \<open>arrived\<close> are the bytes of the body until then.
\<close>

fun exchange_from :: "int \<Rightarrow> int \<Rightarrow> (int \<times> int) list \<Rightarrow> bool \<times> int" where
  "exchange_from budget now [] = (True, now)"
| "exchange_from budget now ((limit, d) # ps) =
     (let waits = (if limit \<noteq> 0 \<and> limit < d then limit else d) in
      if budget \<noteq> 0 \<and> budget < now + waits then (False, budget)
      else if waits < d then (False, now + waits)
      else exchange_from budget (now + d) ps)"

fun arrived :: "int \<Rightarrow> int \<Rightarrow> (int \<times> byte) list \<Rightarrow> byte list" where
  "arrived budget now [] = []"
| "arrived budget now ((d, b) # bs) = (if budget \<noteq> 0 \<and> budget < now + d then [] else b # arrived budget (now + d) bs)"

definition exchange :: "http_client \<Rightarrow> served \<Rightarrow> bool \<times> int" where
  "exchange c x = exchange_from (client_Timeout c) 0 (head_phases (Transport c) x @ body_phases x)"

text \<open>
  \<open>Do\<close> of a client returns with the header; the client's limit goes on while the body is read, and
  interrupts it.
\<close>

definition timed_Do :: "http_client \<Rightarrow> served \<Rightarrow> (string, http_response) outcome" where
  "timed_Do c x =
     (let (ok, t) = exchange_from (client_Timeout c) 0 (head_phases (Transport c) x) in
      if ok
      then Ok \<lparr>StatusCode = reply_status x, ContentLength = reply_length x,
               Body = arrived (client_Timeout c) t (reply_body x),
               BodyErr = (if fst (exchange_from (client_Timeout c) t (body_phases x)) then reply_err x
                          else Some ''Client.Timeout exceeded while reading body'')\<rparr>
      else Err ''Client.Timeout exceeded while awaiting headers'')"

lemma exchange_from_bounded:
  "0 < budget \<Longrightarrow> now \<le> budget \<Longrightarrow> snd (exchange_from budget now ps) \<le> budget"
  by (induction budget now ps rule: exchange_from.induct) (auto simp: Let_def)

lemma exchange_from_append:
  "exchange_from budget now (ps @ qs) =
     (let (ok, t) = exchange_from budget now ps in if ok then exchange_from budget t qs else (False, t))"
  by (induction budget now ps rule: exchange_from.induct) (auto simp: Let_def)

lemma exchange_from_completes:
  assumes "0 < budget" and "now \<le> budget" and "\<forall>(limit, d) \<in> set ps. 0 \<le> limit \<and> 0 \<le> d"
  shows "fst (exchange_from budget now ps) \<longleftrightarrow>
    (\<forall>(limit, d) \<in> set ps. limit = 0 \<or> d \<le> limit) \<and> now + sum_list (map snd ps) \<le> budget"
  using assms
proof (induction budget now ps rule: exchange_from.induct)
  case (2 budget now limit d ps)
  have "0 \<le> sum_list (map snd ps)"
    using "2.prems"(3) by (intro sum_list_nonneg) fastforce
  with 2 show ?case by (auto simp: Let_def not_le not_less)
qed simp

lemma arrived_all:
  "fst (exchange_from budget now (map (\<lambda>(d, _). (0, d)) bs @ qs)) \<Longrightarrow> arrived budget now bs = map snd bs"
  by (induction budget now bs rule: arrived.induct) (auto simp: Let_def split: if_splits)

text \<open>Nothing takes less than no time.\<close>

definition takes_time :: "served \<Rightarrow> bool" where
  "takes_time x \<longleftrightarrow> 0 \<le> dial_takes x \<and> 0 \<le> tls_takes x \<and> 0 \<le> write_takes x \<and> 0 \<le> header_takes x
     \<and> list_all (\<lambda>(d, _). 0 \<le> d) (reply_body x) \<and> 0 \<le> reply_end x"

lemma default_exchange_completes:
  assumes "takes_time x"
  shows "fst (exchange defaultHTTPClient x) \<longleftrightarrow>
      (new_conn x \<longrightarrow> dial_takes x \<le> 5 * second \<and> tls_takes x \<le> 5 * second) \<and> header_takes x \<le> 10 * second
      \<and> (if new_conn x then dial_takes x + tls_takes x else 0) + write_takes x + header_takes x
          + sum_list (map fst (reply_body x)) + reply_end x \<le> 30 * second"
proof -
  let ?ps = "head_phases defaultHTTPTransport x @ body_phases x"
  have "sum_list (map snd (body_phases x)) = sum_list (map fst (reply_body x)) + reply_end x"
    by (simp add: body_phases_def comp_def split_beta)
  moreover have "\<forall>(limit, d) \<in> set ?ps. 0 \<le> limit \<and> 0 \<le> d"
    using assms by (auto simp: takes_time_def head_phases_def body_phases_def defaultHTTPTransport_def client_constants list_all_iff)
  then have "fst (exchange defaultHTTPClient x) \<longleftrightarrow> (\<forall>(limit, d) \<in> set ?ps. limit = 0 \<or> d \<le> limit)
      \<and> 0 + sum_list (map snd ?ps) \<le> requestTimeout"
    unfolding exchange_def defaultHTTPClient_def by (simp add: exchange_from_completes client_constants)
  moreover have "(\<forall>(limit, d) \<in> set (body_phases x). limit = 0 \<or> d \<le> limit)" by (auto simp: body_phases_def)
  ultimately show ?thesis
    by (cases "new_conn x") (simp_all add: head_phases_def defaultHTTPTransport_def client_constants ball_Un add.assoc)
qed

text \<open>The response \<open>Do\<close> returns is complete exactly when the exchange is.\<close>

lemma timed_Do_complete:
  "(\<exists>resp. timed_Do c x = Ok resp \<and> BodyErr resp = None \<and> P resp) \<longleftrightarrow> fst (exchange c x) \<and> reply_err x = None
     \<and> P \<lparr>StatusCode = reply_status x, ContentLength = reply_length x, Body = map snd (reply_body x), BodyErr = None\<rparr>"
proof (cases "exchange_from (client_Timeout c) 0 (head_phases (Transport c) x)")
  case (Pair ok t)
  have ex: "exchange c x = (if ok then exchange_from (client_Timeout c) t (body_phases x) else (False, t))"
    by (simp add: exchange_def exchange_from_append Pair)
  have "arrived (client_Timeout c) t (reply_body x) = map snd (reply_body x)"
    if "fst (exchange_from (client_Timeout c) t (body_phases x))"
    using that arrived_all unfolding body_phases_def by blast
  then show ?thesis using Pair by (auto simp: timed_Do_def ex)
qed

text \<open>
  C35. The time-outs of the default client bound every call: the exchange \<open>Execute\<close> makes with it is
  over within 30 seconds, whatever the server does; and \<open>Execute\<close> succeeds exactly when dialling and
  the TLS handshake (of a new connection) take at most 5 seconds each, the header comes within 10
  and the end of the body within 30 in all, and the response is fine: a 2xx status, a body within
  the limit, read without an error, that decodes to a result.
\<close>

theorem execute_default_timeouts:
  assumes "\<And>hdr data. Do env defaultHTTPClient url hdr data = timed_Do defaultHTTPClient x"
    and "client (execute_config env opts) = defaultHTTPClient"
    and "limit = maxResponseBytes (execute_config env opts)" and "0 < limit" and "limit < MaxInt64"
    and "limit \<le> max_alloc env" and "takes_time x"
    and "Marshal env r = Ok data" and "NewHTTPRequest env url data = Ok ()"
  shows "snd (exchange defaultHTTPClient x) \<le> 30 * second
    \<and> (fst (Execute env r url opts) = Ok v \<longleftrightarrow>
        (new_conn x \<longrightarrow> dial_takes x \<le> 5 * second \<and> tls_takes x \<le> 5 * second) \<and> header_takes x \<le> 10 * second
        \<and> (if new_conn x then dial_takes x + tls_takes x else 0) + write_takes x + header_takes x
            + sum_list (map fst (reply_body x)) + reply_end x \<le> 30 * second
        \<and> 200 \<le> reply_status x \<and> reply_status x < 300 \<and> reply_length x \<le> limit
        \<and> int (length (reply_body x)) \<le> limit \<and> reply_err x = None
        \<and> (\<exists>rpc. Unmarshal env (map snd (reply_body x)) = Ok rpc \<and> Error rpc = None \<and> v = Result rpc))"
proof
  show "snd (exchange defaultHTTPClient x) \<le> 30 * second"
    using exchange_from_bounded [of requestTimeout 0] by (simp add: exchange_def defaultHTTPClient_def client_constants)
  have "fst (Execute env r url opts) = Ok v \<longleftrightarrow>
      (\<exists>resp. timed_Do defaultHTTPClient x = Ok resp \<and> handle_response env limit resp = Ok v)"
    using assms(1-5,8,9) by (auto simp: Execute_unfold Let_def split: outcome.splits)
  also have "\<dots> \<longleftrightarrow> (\<exists>resp. timed_Do defaultHTTPClient x = Ok resp \<and> BodyErr resp = None
      \<and> (200 \<le> StatusCode resp \<and> StatusCode resp < 300 \<and> ContentLength resp \<le> limit \<and> int (length (Body resp)) \<le> limit
         \<and> (\<exists>rpc. Unmarshal env (Body resp) = Ok rpc \<and> Error rpc = None \<and> v = Result rpc)))"
    unfolding handle_response_Ok_iff [OF assms(4-6)] by blast
  finally show "fst (Execute env r url opts) = Ok v \<longleftrightarrow>
        (new_conn x \<longrightarrow> dial_takes x \<le> 5 * second \<and> tls_takes x \<le> 5 * second) \<and> header_takes x \<le> 10 * second
        \<and> (if new_conn x then dial_takes x + tls_takes x else 0) + write_takes x + header_takes x
            + sum_list (map fst (reply_body x)) + reply_end x \<le> 30 * second
        \<and> 200 \<le> reply_status x \<and> reply_status x < 300 \<and> reply_length x \<le> limit
        \<and> int (length (reply_body x)) \<le> limit \<and> reply_err x = None
        \<and> (\<exists>rpc. Unmarshal env (map snd (reply_body x)) = Ok rpc \<and> Error rpc = None \<and> v = Result rpc)"
    unfolding timed_Do_complete default_exchange_completes [OF assms(7)] by simp blast
qed

text \<open>A server that is dialled in a second and sends a body of two bytes, the second one after \<open>d\<close> seconds.\<close>

definition slow_server :: "int \<Rightarrow> served" where
  "slow_server d = \<lparr>new_conn = True, dial_takes = second, tls_takes = second, write_takes = 0, header_takes = 2 * second,
     reply_status = 200, reply_length = -1, reply_body = [(0, 7), (d * second, 8)], reply_end = 0, reply_err = None\<rparr>"

definition slow_env :: "int \<Rightarrow> (nat, nat, nat, http_client) rpc_env" where
  "slow_env d = \<lparr>Marshal = (\<lambda>_. Ok [1, 2]), NewHTTPRequest = (\<lambda>_ _. Ok ()), Do = (\<lambda>c _ _ _. timed_Do c (slow_server d)),
     Unmarshal = (\<lambda>b. Ok \<lparr>resp_JSONRPC = Version, Result = length b, Error = None, resp_ID = IdValue 1\<rparr>),
     default_client = defaultHTTPClient, max_alloc = 2 ^ 47\<rparr>"

theorem execute_default_timeouts_witness:
  "fst (Execute (slow_env 26) (NewRequest 0 ''ping'' [] []) ''http://rpc'' []) = Ok 2
   \<and> fst (Execute (slow_env 27) (NewRequest 0 ''ping'' [] []) ''http://rpc'' []) \<noteq> Ok 2
   \<and> snd (exchange defaultHTTPClient (slow_server 27)) \<le> 30 * second"
proof -
  have "snd (exchange defaultHTTPClient (slow_server d)) \<le> 30 * second
      \<and> (fst (Execute (slow_env d) (NewRequest 0 ''ping'' [] []) ''http://rpc'' []) = Ok 2 \<longleftrightarrow> d \<le> 26)" if "0 \<le> d" for d
    using execute_default_timeouts [of "slow_env d" "''http://rpc''" "slow_server d" "[]" DefaultMaxResponseBytes
        "NewRequest 0 ''ping'' [] []" "[1, 2]" 2] that
    by (simp add: slow_env_def slow_server_def execute_config_def DefaultMaxResponseBytes_def takes_time_def second_def)
  from this [of 26] this [of 27] show ?thesis by simp
qed

text \<open>The pool of idle connections of a host fits into the whole pool and into the connections of a host.\<close>

lemma default_pool_consistent:
  "MaxIdleConnsPerHost defaultHTTPTransport \<le> MaxIdleConns defaultHTTPTransport"
  "MaxIdleConnsPerHost defaultHTTPTransport \<le> MaxConnsPerHost defaultHTTPTransport"
  by (simp_all add: defaultHTTPTransport_def client_constants)

text \<open>\<open>Execute\<close> sends through the default client unless an option names another one; nil does not.\<close>

lemma default_client_used:
  "default_client env = defaultHTTPClient \<Longrightarrow>
     client (execute_config env (replicate n (WithClient None))) = defaultHTTPClient"
  "client (execute_config env (opts @ [WithClient (Some c)])) = c"
proof -
  show "client (execute_config env (opts @ [WithClient (Some c)])) = c"
    by (simp add: execute_config_def WithClient_def)
  show "default_client env = defaultHTTPClient \<Longrightarrow>
     client (execute_config env (replicate n (WithClient None))) = defaultHTTPClient"
    by (simp add: execute_config_def, induction n) (simp_all add: WithClient_def)
qed

end
