(* ===== verification/Db_Tx.thy ===== *)
theory Db_Tx
  imports Go_Prelude
begin

text \<open>
  What the transaction managers of \<open>src/db/postgres/tx.go\<close> and \<open>src/db/sqlite/tx.go\<close> share:
  contexts with values, errors with their wrapping chains, the database driver as a parameter,
  and the contract of a transaction manager as the locale \<open>tx_manager\<close>, in which the fate of a
  transaction run by \<open>Transactional\<close> is proved once for both packages.
\<close>

section \<open>Errors\<close>

text \<open>\<open>fmt.Errorf\<close> with one or two \<open>%w\<close> keeps the errors it wraps.\<close>

datatype db_error =
    DriverErr string
  | CallbackErr string
  | ErrNoTransaction
  | ErrDatabaseRequired
  | ErrUserRequired
  | ErrPasswordRequired
  | ErrHostRequired
  | ErrPortRequired
  | ErrUnparsableConfiguration
  | ErrNoChange
  | Wrap string db_error
  | Wrap2 string db_error db_error

text \<open>\<open>errors.Is(e, target)\<close>.\<close>

fun errors_Is :: "db_error \<Rightarrow> db_error \<Rightarrow> bool" where
  "errors_Is (Wrap s e) t \<longleftrightarrow> Wrap s e = t \<or> errors_Is e t"
| "errors_Is (Wrap2 s e f) t \<longleftrightarrow> Wrap2 s e f = t \<or> errors_Is e t \<or> errors_Is f t"
| "errors_Is e t \<longleftrightarrow> e = t"

lemma errors_Is_refl [simp]: "errors_Is e e"
  by (cases e) simp_all

section \<open>Contexts\<close>

text \<open>
  A context has a channel that is closed when it is done, here by its number, and values, innermost
  first; \<open>context.WithValue\<close> adds a value and keeps the channel. The keys of the two packages have
  different types, so equal strings do not make them equal.
\<close>

datatype ctx_key = PostgresKey string | SqliteKey string | OtherKey nat

datatype ('tx, 'q) ctx_value = TxValue 'tx | QueriesValue "'q option" | OtherValue nat

record ('tx, 'q) ctx =
  Done :: nat
  ctx_values :: "(ctx_key \<times> ('tx, 'q) ctx_value) list"

definition WithValue :: "('tx, 'q) ctx \<Rightarrow> ctx_key \<Rightarrow> ('tx, 'q) ctx_value \<Rightarrow> ('tx, 'q) ctx" where
  "WithValue ctx k v = ctx\<lparr>ctx_values := (k, v) # ctx_values ctx\<rparr>"

definition ctx_Value :: "('tx, 'q) ctx \<Rightarrow> ctx_key \<Rightarrow> ('tx, 'q) ctx_value option" where
  "ctx_Value ctx k = map_of (ctx_values ctx) k"

definition Background :: "('tx, 'q) ctx" where
  "Background = \<lparr>Done = 0, ctx_values = []\<rparr>"

lemma ctx_Value_WithValue [simp]:
  "ctx_Value (WithValue ctx k v) k' = (if k = k' then Some v else ctx_Value ctx k')"
  by (simp add: ctx_Value_def WithValue_def)

lemma ctx_Value_Background [simp]: "ctx_Value Background k = None"
  by (simp add: ctx_Value_def Background_def)

text \<open>The type assertions \<open>.(pgx.Tx)\<close>, \<open>.(*sql.Tx)\<close> and \<open>.(*T)\<close> with their second result.\<close>

fun assert_tx :: "('tx, 'q) ctx_value option \<Rightarrow> 'tx option" where
  "assert_tx (Some (TxValue tx)) = Some tx"
| "assert_tx _ = None"

fun assert_queries :: "('tx, 'q) ctx_value option \<Rightarrow> 'q option option" where
  "assert_queries (Some (QueriesValue q)) = Some q"
| "assert_queries _ = None"

section \<open>The driver\<close>

text \<open>
  The database behind a manager, on a state of its own. A begun transaction is non-nil; each call
  may fail with an error of the driver or panic, also because the context it is given is done.
  \<open>pgx\<close> takes a context to end a transaction, \<open>database/sql\<close> does not: \<open>'k\<close> is what is passed.
\<close>

type_synonym ('db, 'a) act = "'db \<Rightarrow> (db_error, 'a) outcome \<times> 'db"

record ('db, 'tx, 'q, 'o, 'k) driver =
  BeginTx :: "('tx, 'q) ctx \<Rightarrow> 'o \<Rightarrow> ('db, 'tx) act"
  TxCommit :: "'k \<Rightarrow> 'tx \<Rightarrow> ('db, unit) act"
  TxRollback :: "'k \<Rightarrow> 'tx \<Rightarrow> ('db, unit) act"

type_synonym ('db, 'tx, 'q) callback = "('tx, 'q) ctx \<Rightarrow> ('db, unit) act"

text \<open>
  A value of the interface \<open>Queries\<close>, \<open>None\<close> when it is nil: its method, which may panic, and the
  value itself when it is a pointer \<open>*T\<close>.
\<close>

record ('tx, 'q) queries =
  WithTx :: "'tx \<Rightarrow> go_panic + 'q option"
  as_pointer :: "'q option option"

fun call_WithTx :: "('tx, 'q) queries option \<Rightarrow> 'tx \<Rightarrow> go_panic + 'q option" where
  "call_WithTx None tx = Inl NilDereference"
| "call_WithTx (Some qs) tx = WithTx qs tx"

text \<open>The assertion \<open>any(m.queries).(*T)\<close>: the pointer, when it is one.\<close>

fun own_queries :: "('tx, 'q) queries option \<Rightarrow> 'q option option" where
  "own_queries None = None"
| "own_queries (Some qs) = as_pointer qs"

text \<open>A driver that also records the calls it gets, and code that makes none.\<close>

datatype 'tx tx_call = BeginFailed | Begun 'tx | Committed 'tx | RolledBack 'tx

definition logged :: "('db, 'tx, 'q, 'o, 'k) driver \<Rightarrow> ('db \<times> 'tx tx_call list, 'tx, 'q, 'o, 'k) driver" where
  "logged d = \<lparr>
     BeginTx = (\<lambda>ctx opts (db, l). case BeginTx d ctx opts db of
        (Ok tx, db') \<Rightarrow> (Ok tx, db', l @ [Begun tx])
      | (r, db') \<Rightarrow> (r, db', l @ [BeginFailed])),
     TxCommit = (\<lambda>k tx (db, l). let (r, db') = TxCommit d k tx db in (r, db', l @ [Committed tx])),
     TxRollback = (\<lambda>k tx (db, l). let (r, db') = TxRollback d k tx db in (r, db', l @ [RolledBack tx]))\<rparr>"

definition quiet :: "('db, 'tx, 'q) callback \<Rightarrow> ('db \<times> 'tx tx_call list, 'tx, 'q) callback" where
  "quiet cb = (\<lambda>ctx (db, l). let (r, db') = cb ctx db in (r, db', l))"

section \<open>What a transactional run does\<close>

text \<open>
  The reference: begin; get the queries of the transaction; run the callback in the context of the
  transaction; commit or roll back that transaction as the callback returned. \<open>key\<close> is what is
  passed to end a transaction, \<open>inner\<close> the context of the callback.
\<close>

definition tx_ctx :: "ctx_key \<Rightarrow> ctx_key \<Rightarrow> ('tx, 'q) ctx \<Rightarrow> 'tx \<Rightarrow> 'q option \<Rightarrow> ('tx, 'q) ctx" where
  "tx_ctx tx_key queries_key ctx tx q =
     WithValue (WithValue ctx tx_key (TxValue tx)) queries_key (QueriesValue q)"

definition tx_run :: "('db, 'tx, 'q, 'o, 'k) driver \<Rightarrow> (('tx, 'q) ctx \<Rightarrow> 'k) \<Rightarrow> ('tx, 'q) queries option \<Rightarrow> ('tx, 'q) ctx \<Rightarrow> 'o
    \<Rightarrow> ('tx \<Rightarrow> 'q option \<Rightarrow> ('tx, 'q) ctx) \<Rightarrow> ('db, 'tx, 'q) callback \<Rightarrow> ('db, unit) act" where
  "tx_run d key qs ctx opts inner cb db = (case BeginTx d ctx opts db of
      (Err e, db1) \<Rightarrow> (Err (Wrap ''begin query tx'' (Wrap ''begin tx'' e)), db1)
    | (Panic p, db1) \<Rightarrow> (Panic p, db1)
    | (Ok tx, db1) \<Rightarrow> (case call_WithTx qs tx of
        Inl p \<Rightarrow> (Panic p, db1)
      | Inr q \<Rightarrow> (case cb (inner tx q) db1 of
          (Panic p, db2) \<Rightarrow> (Panic p, db2)
        | (Err e, db2) \<Rightarrow> (case TxRollback d (key (inner tx q)) tx db2 of
            (Panic p, db3) \<Rightarrow> (Panic p, db3)
          | (Err f, db3) \<Rightarrow> (Err (Wrap2 ''rollback query tx'' (Wrap ''rollback tx'' f) e), db3)
          | (Ok _, db3) \<Rightarrow> (Err (Wrap ''query tx callback'' e), db3))
        | (Ok _, db2) \<Rightarrow> (case TxCommit d (key (inner tx q)) tx db2 of
            (Panic p, db3) \<Rightarrow> (Panic p, db3)
          | (Err f, db3) \<Rightarrow> (Err (Wrap ''commit query tx'' (Wrap ''commit tx'' f)), db3)
          | (Ok _, db3) \<Rightarrow> (Ok (), db3)))))"

text \<open>The calls the driver gets in one run, and the result, on every path.\<close>

definition tx_finishes :: "('db, 'tx, 'q, 'o, 'k) driver \<Rightarrow> (('tx, 'q) ctx \<Rightarrow> 'k) \<Rightarrow> ('tx, 'q) queries option \<Rightarrow> ('tx, 'q) ctx \<Rightarrow> 'o
    \<Rightarrow> ('tx \<Rightarrow> 'q option \<Rightarrow> ('tx, 'q) ctx) \<Rightarrow> ('db, 'tx, 'q) callback
    \<Rightarrow> 'db \<Rightarrow> (db_error, unit) outcome \<Rightarrow> 'tx tx_call list \<Rightarrow> bool" where
  "tx_finishes d key qs ctx opts inner cb db result calls \<longleftrightarrow> (case BeginTx d ctx opts db of
      (Panic p, _) \<Rightarrow> calls = [BeginFailed] \<and> result = Panic p
    | (Err e, _) \<Rightarrow> calls = [BeginFailed] \<and> (\<exists>f. result = Err f \<and> errors_Is f e)
    | (Ok tx, db1) \<Rightarrow> (case call_WithTx qs tx of
        Inl p \<Rightarrow> calls = [Begun tx] \<and> result = Panic p
      | Inr q \<Rightarrow> (case cb (inner tx q) db1 of
          (Panic p, _) \<Rightarrow> calls = [Begun tx] \<and> result = Panic p
        | (Err e, db2) \<Rightarrow> calls = [Begun tx, RolledBack tx] \<and> (case fst (TxRollback d (key (inner tx q)) tx db2) of
            Panic p \<Rightarrow> result = Panic p | _ \<Rightarrow> \<exists>f. result = Err f \<and> errors_Is f e)
        | (Ok _, db2) \<Rightarrow> calls = [Begun tx, Committed tx] \<and> (case fst (TxCommit d (key (inner tx q)) tx db2) of
            Panic p \<Rightarrow> result = Panic p | Err e \<Rightarrow> \<exists>f. result = Err f \<and> errors_Is f e
          | Ok _ \<Rightarrow> result = Ok ()))))"

lemma tx_run_finishes:
  assumes "tx_run (logged d) key qs ctx opts inner (quiet cb) (db, []) = (result, db', calls)"
  shows "tx_finishes d key qs ctx opts inner cb db result calls"
  using assms
  by (auto simp: tx_run_def tx_finishes_def logged_def quiet_def Let_def split: prod.splits outcome.splits sum.splits)

lemma case_map_err:
  "(case x of (Panic p, db') \<Rightarrow> (Panic p, db') | (Err err, db') \<Rightarrow> (Err (c err), db') | (Ok _, db') \<Rightarrow> (Ok (), db'))
    = (let (r, db') = x in (map_err c r, db'))"
  by (cases x; cases "fst x") auto

section \<open>The contract of a transaction manager\<close>

text \<open>
  \<open>begin_tx\<close> puts a transaction into the context, \<open>commit\<close> and \<open>rollback\<close> end the one the
  context carries, and a context without one is refused without touching the database.
\<close>

locale tx_manager =
  fixes begin_tx :: "('db, 'tx, 'q, 'o, 'k) driver \<Rightarrow> ('tx, 'q) ctx \<Rightarrow> 'opt list \<Rightarrow> ('db, ('tx, 'q) ctx) act"
    and commit :: "('db, 'tx, 'q, 'o, 'k) driver \<Rightarrow> ('tx, 'q) ctx \<Rightarrow> ('db, unit) act"
    and rollback :: "('db, 'tx, 'q, 'o, 'k) driver \<Rightarrow> ('tx, 'q) ctx \<Rightarrow> ('db, unit) act"
    and transactional :: "('db, 'tx, 'q, 'o, 'k) driver \<Rightarrow> ('tx, 'q) queries option \<Rightarrow> ('tx, 'q) ctx
      \<Rightarrow> ('db, 'tx, 'q) callback \<Rightarrow> 'opt list \<Rightarrow> ('db, unit) act"
    and get_queries :: "('tx, 'q) queries option \<Rightarrow> ('tx, 'q) ctx \<Rightarrow> 'q option"
    and tx_key :: ctx_key and queries_key :: ctx_key and resolve :: "'opt list \<Rightarrow> 'o"
    and end_key :: "('tx, 'q) ctx \<Rightarrow> 'k"
  assumes begin_law: "begin_tx d ctx opts db = (case BeginTx d ctx (resolve opts) db of
        (Ok tx, db') \<Rightarrow> (Ok (WithValue ctx tx_key (TxValue tx)), db')
      | (Err e, db') \<Rightarrow> (Err (Wrap ''begin tx'' e), db')
      | (Panic p, db') \<Rightarrow> (Panic p, db'))"
    and commit_law: "commit d ctx db = (case assert_tx (ctx_Value ctx tx_key) of
        None \<Rightarrow> (Err ErrNoTransaction, db)
      | Some tx \<Rightarrow> let (r, db') = TxCommit d (end_key ctx) tx db in (map_err (Wrap ''commit tx'') r, db'))"
    and rollback_law: "rollback d ctx db = (case assert_tx (ctx_Value ctx tx_key) of
        None \<Rightarrow> (Err ErrNoTransaction, db)
      | Some tx \<Rightarrow> let (r, db') = TxRollback d (end_key ctx) tx db in (map_err (Wrap ''rollback tx'') r, db'))"
    and transactional_law: "transactional d qs ctx callback opts db = (case begin_tx d ctx opts db of
        (Err e, db1) \<Rightarrow> (Err (Wrap ''begin query tx'' e), db1)
      | (Panic p, db1) \<Rightarrow> (Panic p, db1)
      | (Ok txCtx, db1) \<Rightarrow> (case assert_tx (ctx_Value txCtx tx_key) of
          None \<Rightarrow> (Err ErrNoTransaction, db1)
        | Some tx \<Rightarrow> (case call_WithTx qs tx of
            Inl p \<Rightarrow> (Panic p, db1)
          | Inr txQueries \<Rightarrow> let txCtx = WithValue txCtx queries_key (QueriesValue txQueries) in
              (case callback txCtx db1 of
                (Panic p, db2) \<Rightarrow> (Panic p, db2)
              | (Err cbErr, db2) \<Rightarrow> (case rollback d txCtx db2 of
                  (Panic p, db3) \<Rightarrow> (Panic p, db3)
                | (Err rbErr, db3) \<Rightarrow> (Err (Wrap2 ''rollback query tx'' rbErr cbErr), db3)
                | (Ok _, db3) \<Rightarrow> (Err (Wrap ''query tx callback'' cbErr), db3))
              | (Ok _, db2) \<Rightarrow> (case commit d txCtx db2 of
                  (Panic p, db3) \<Rightarrow> (Panic p, db3)
                | (Err e, db3) \<Rightarrow> (Err (Wrap ''commit query tx'' e), db3)
                | (Ok _, db3) \<Rightarrow> (Ok (), db3))))))"
    and get_queries_law: "get_queries qs ctx = (case assert_queries (ctx_Value ctx queries_key) of
        Some (Some q) \<Rightarrow> Some q
      | _ \<Rightarrow> (case own_queries qs of Some q \<Rightarrow> q | None \<Rightarrow> None))"
    and keys_differ: "tx_key \<noteq> queries_key"
begin

lemma inner_tx [simp]: "assert_tx (ctx_Value (tx_ctx tx_key queries_key ctx tx q) tx_key) = Some tx"
  using keys_differ by (simp add: tx_ctx_def)

text \<open>A transaction that began is ended by one call: commit or rollback, as the callback returned.\<close>

lemma transactional_run:
  "transactional d qs ctx cb opts db = tx_run d end_key qs ctx (resolve opts) (tx_ctx tx_key queries_key ctx) cb db"
  by (auto simp: tx_run_def transactional_law begin_law commit_law rollback_law Let_def tx_ctx_def [symmetric]
      split: prod.splits outcome.splits sum.splits)

lemma transactional_finishes_once:
  "\<exists>result db' calls. tx_run (logged d) end_key qs ctx (resolve opts) (tx_ctx tx_key queries_key ctx) (quiet cb) (db, [])
       = (result, db', calls)
     \<and> tx_finishes d end_key qs ctx (resolve opts) (tx_ctx tx_key queries_key ctx) cb db result calls"
  using tx_run_finishes by (metis prod_cases3)

lemma ends_begun:
  "begin_tx d ctx opts db = (Ok ctx', db1) \<Longrightarrow>
     \<exists>tx. BeginTx d ctx (resolve opts) db = (Ok tx, db1)
       \<and> (\<forall>db2. commit d ctx' db2 = (let (r, db') = TxCommit d (end_key ctx') tx db2 in (map_err (Wrap ''commit tx'') r, db'))
           \<and> rollback d ctx' db2 = (let (r, db') = TxRollback d (end_key ctx') tx db2 in (map_err (Wrap ''rollback tx'') r, db')))"
  by (auto simp: begin_law commit_law rollback_law split: prod.splits outcome.splits)

lemma refuses:
  "assert_tx (ctx_Value ctx tx_key) = None \<Longrightarrow> commit d ctx db = (Err ErrNoTransaction, db)
     \<and> rollback d ctx db = (Err ErrNoTransaction, db)"
  by (simp add: commit_law rollback_law)

text \<open>The queries seen in the callback are those of its transaction; outside of one the manager's own.\<close>

lemma queries_inside: "get_queries qs (tx_ctx tx_key queries_key ctx tx (Some q)) = Some q"
  by (simp add: get_queries_law tx_ctx_def)

lemma queries_outside:
  "assert_queries (ctx_Value ctx queries_key) = None \<Longrightarrow>
     get_queries qs ctx = (case own_queries qs of Some q \<Rightarrow> q | None \<Rightarrow> None)"
  by (simp add: get_queries_law)

lemma run_with_queries:
  assumes "BeginTx d ctx (resolve opts) db = (Ok tx, db1)" and "call_WithTx qs tx = Inr (Some q)"
  shows "transactional d qs ctx (\<lambda>c. body (get_queries qs c) c) opts db = transactional d qs ctx (body (Some q)) opts db"
  by (simp add: transactional_run tx_run_def assms queries_inside)

end

end
