(* ===== verification/Db_Postgres.thy ===== *)
theory Db_Postgres
  imports Db_Tx Go_Url
begin

text \<open>
  The package \<open>src/db/postgres\<close>: \<open>tx.go\<close> (transactions on a context), \<open>connector.go\<close>
  (options, checks and the connection string) and \<open>migrator.go\<close>. The \<open>pgx\<close>, \<open>pgxpool\<close> and
  \<open>migrate\<close> packages are parameters.
\<close>

section \<open>Transactions\<close>

datatype pgx_iso = Serializable | RepeatableRead | ReadCommitted | ReadUncommitted
datatype pgx_access = ReadWrite | ReadOnlyMode

record pgx_tx_options =
  IsoLevel :: pgx_iso
  AccessMode :: pgx_access

type_synonym pg_tx_option = "pgx_tx_options \<Rightarrow> pgx_tx_options"

definition pg_txCtxValue :: ctx_key where "pg_txCtxValue = PostgresKey ''tx-manager:transaction''"
definition pg_queriesCtxValue :: ctx_key where "pg_queriesCtxValue = PostgresKey ''tx-manager:queries''"

definition Pg_WithIsoLevel :: "pgx_iso \<Rightarrow> pg_tx_option" where
  "Pg_WithIsoLevel lvl = (\<lambda>txOpts. txOpts\<lparr>IsoLevel := lvl\<rparr>)"

definition pg_resolve :: "pg_tx_option list \<Rightarrow> pgx_tx_options" where
  "pg_resolve opts = fold (\<lambda>opt cfg. opt cfg) opts \<lparr>IsoLevel = Serializable, AccessMode = ReadWrite\<rparr>"

definition Pg_Begin :: "('db, 'tx, 'q, pgx_tx_options, ('tx, 'q) ctx) driver \<Rightarrow> ('tx, 'q) ctx \<Rightarrow> pg_tx_option list
    \<Rightarrow> ('db, ('tx, 'q) ctx) act" where
  "Pg_Begin conn ctx opts db =
     (let cfg = pg_resolve opts in
      case BeginTx conn ctx cfg db of
        (Panic p, db') \<Rightarrow> (Panic p, db')
      | (Err err, db') \<Rightarrow> (Err (Wrap ''begin tx'' err), db')
      | (Ok tx, db') \<Rightarrow> (Ok (WithValue ctx pg_txCtxValue (TxValue tx)), db'))"

definition Pg_Commit :: "('db, 'tx, 'q, pgx_tx_options, ('tx, 'q) ctx) driver \<Rightarrow> ('tx, 'q) ctx \<Rightarrow> ('db, unit) act" where
  "Pg_Commit conn ctx db =
     (case assert_tx (ctx_Value ctx pg_txCtxValue) of
        None \<Rightarrow> (Err ErrNoTransaction, db)
      | Some tx \<Rightarrow> (case TxCommit conn ctx tx db of
          (Panic p, db') \<Rightarrow> (Panic p, db')
        | (Err err, db') \<Rightarrow> (Err (Wrap ''commit tx'' err), db')
        | (Ok _, db') \<Rightarrow> (Ok (), db')))"

definition Pg_Rollback :: "('db, 'tx, 'q, pgx_tx_options, ('tx, 'q) ctx) driver \<Rightarrow> ('tx, 'q) ctx \<Rightarrow> ('db, unit) act" where
  "Pg_Rollback conn ctx db =
     (case assert_tx (ctx_Value ctx pg_txCtxValue) of
        None \<Rightarrow> (Err ErrNoTransaction, db)
      | Some tx \<Rightarrow> (case TxRollback conn ctx tx db of
          (Panic p, db') \<Rightarrow> (Panic p, db')
        | (Err err, db') \<Rightarrow> (Err (Wrap ''rollback tx'' err), db')
        | (Ok _, db') \<Rightarrow> (Ok (), db')))"

definition Pg_Transactional :: "('db, 'tx, 'q, pgx_tx_options, ('tx, 'q) ctx) driver \<Rightarrow> ('tx, 'q) queries option \<Rightarrow> ('tx, 'q) ctx
    \<Rightarrow> ('db, 'tx, 'q) callback \<Rightarrow> pg_tx_option list \<Rightarrow> ('db, unit) act" where
  "Pg_Transactional conn queries ctx callback opts db =
     (case Pg_Begin conn ctx opts db of
        (Panic p, db1) \<Rightarrow> (Panic p, db1)
      | (Err err, db1) \<Rightarrow> (Err (Wrap ''begin query tx'' err), db1)
      | (Ok txCtx, db1) \<Rightarrow>
          (case assert_tx (ctx_Value txCtx pg_txCtxValue) of
             None \<Rightarrow> (Err ErrNoTransaction, db1)
           | Some tx \<Rightarrow>
               (case call_WithTx queries tx of
                  Inl p \<Rightarrow> (Panic p, db1)
                | Inr txQueries \<Rightarrow>
                    let txCtx = WithValue txCtx pg_queriesCtxValue (QueriesValue txQueries)
                    in (case callback txCtx db1 of
                          (Panic p, db2) \<Rightarrow> (Panic p, db2)
                        | (Err cbErr, db2) \<Rightarrow>
                            (case Pg_Rollback conn txCtx db2 of
                               (Panic p, db3) \<Rightarrow> (Panic p, db3)
                             | (Err rbErr, db3) \<Rightarrow> (Err (Wrap2 ''rollback query tx'' rbErr cbErr), db3)
                             | (Ok _, db3) \<Rightarrow> (Err (Wrap ''query tx callback'' cbErr), db3))
                        | (Ok _, db2) \<Rightarrow>
                            (case Pg_Commit conn txCtx db2 of
                               (Panic p, db3) \<Rightarrow> (Panic p, db3)
                             | (Err err, db3) \<Rightarrow> (Err (Wrap ''commit query tx'' err), db3)
                             | (Ok _, db3) \<Rightarrow> (Ok (), db3))))))"

definition Pg_GetQueries :: "('tx, 'q) queries option \<Rightarrow> ('tx, 'q) ctx \<Rightarrow> 'q option" where
  "Pg_GetQueries own ctx =
     (case assert_queries (ctx_Value ctx pg_queriesCtxValue) of
        Some (Some queries) \<Rightarrow> Some queries
      | _ \<Rightarrow> (case own_queries own of Some queries \<Rightarrow> queries | None \<Rightarrow> None))"

interpretation pg: tx_manager Pg_Begin Pg_Commit Pg_Rollback Pg_Transactional Pg_GetQueries
  pg_txCtxValue pg_queriesCtxValue pg_resolve "\<lambda>ctx. ctx"
  by unfold_locales
     (simp_all add: Pg_Begin_def Pg_Commit_def Pg_Rollback_def Pg_Transactional_def Pg_GetQueries_def case_map_err Let_def
       pg_txCtxValue_def pg_queriesCtxValue_def split: prod.split outcome.split option.split sum.split)

section \<open>Connecting\<close>

record pg_config =
  host :: string
  port :: string
  database :: string
  user :: string
  password :: string
  disableSSL :: bool

definition ToDSN :: "pg_config \<Rightarrow> string" where
  "ToDSN c = URL_String ''postgres'' (UserPassword_String (user c) (password c))
     (JoinHostPort (host c) (port c)) (''/'' @ database c)
     (if disableSSL c then ''sslmode=disable'' else [])"

type_synonym pg_option = "pg_config \<Rightarrow> pg_config"

definition Pg_WithDisableSSL :: pg_option where "Pg_WithDisableSSL = (\<lambda>cfg. cfg\<lparr>disableSSL := True\<rparr>)"
definition Pg_WithUser :: "string \<Rightarrow> pg_option" where "Pg_WithUser s = (\<lambda>cfg. cfg\<lparr>user := s\<rparr>)"
definition Pg_WithPassword :: "string \<Rightarrow> pg_option" where "Pg_WithPassword s = (\<lambda>cfg. cfg\<lparr>password := s\<rparr>)"
definition Pg_WithHost :: "string \<Rightarrow> pg_option" where "Pg_WithHost s = (\<lambda>cfg. cfg\<lparr>host := s\<rparr>)"
definition Pg_WithPort :: "string \<Rightarrow> pg_option" where "Pg_WithPort s = (\<lambda>cfg. cfg\<lparr>port := s\<rparr>)"
definition Pg_WithDatabase :: "string \<Rightarrow> pg_option" where "Pg_WithDatabase s = (\<lambda>cfg. cfg\<lparr>database := s\<rparr>)"

text \<open>\<open>parse\<close> and \<open>new\<close> stand for \<open>pgxpool.ParseConfig\<close> and \<open>pgxpool.NewWithConfig\<close>.\<close>

definition Pg_Connect :: "(string \<Rightarrow> (db_error, 'c) outcome) \<Rightarrow> ('c \<Rightarrow> (db_error, 'p) outcome)
    \<Rightarrow> pg_option list \<Rightarrow> (db_error, 'p) outcome" where
  "Pg_Connect parse new opts =
     (let cfg = fold (\<lambda>opt cfg. opt cfg) opts \<lparr>host = ''localhost'', port = ''5432'', database = [],
                  user = [], password = [], disableSSL = False\<rparr> in
      if database cfg = [] then Err ErrDatabaseRequired
      else if user cfg = [] then Err ErrUserRequired
      else if password cfg = [] then Err ErrPasswordRequired
      else if host cfg = [] then Err ErrHostRequired
      else if port cfg = [] then Err ErrPortRequired
      else bind_out (map_err (Wrap2 '''' ErrUnparsableConfiguration) (parse (ToDSN cfg)))
        (\<lambda>poolConfig. map_err (Wrap ''failed to connect to database'') (new poolConfig)))"

section \<open>The connection string\<close>

lemma unescape_escape_all: "unescape (escape s mode) = s"
  using unescape_escape [of s mode "[]"] by simp

lemma escape_inject [simp]: "escape s mode = escape t mode \<longleftrightarrow> s = t"
  by (metis unescape_escape_all)

lemma escape_delimiters:
  "CHR '':'' \<notin> set (escape s EncodeUserPassword)" "CHR ''@'' \<notin> set (escape s EncodeUserPassword)"
  "CHR ''/'' \<notin> set (escape s EncodeHost)" "CHR ''?'' \<notin> set (escape s EncodePath)"
  by (rule escape_avoids; simp add: shouldEscape_def alnum_def upperhex_def)+

text \<open>Two strings cut at the first delimiter, or at the last, have equal parts.\<close>

lemma cut_first:
  assumes "d \<notin> set s" and "d \<notin> set s'"
  shows "s @ d # t = s' @ d # t' \<longleftrightarrow> s = s' \<and> t = t'"
proof
  assume eq: "s @ d # t = s' @ d # t'"
  then have "s = s'" using takeWhile_escape(1) [OF assms(1), of t] takeWhile_escape(1) [OF assms(2), of t'] by metis
  with eq show "s = s' \<and> t = t'" by simp
qed simp

lemma cut_last:
  assumes "d \<notin> set t" and "d \<notin> set t'"
  shows "s @ d # t = s' @ d # t' \<longleftrightarrow> s = s' \<and> t = t'"
proof -
  have "s @ d # t = s' @ d # t' \<longleftrightarrow> rev t @ d # rev s = rev t' @ d # rev s'"
    by (subst rev_is_rev_conv [symmetric]) simp
  also have "\<dots> \<longleftrightarrow> rev t = rev t' \<and> rev s = rev s'" using assms by (intro cut_first) simp_all
  finally show ?thesis by auto
qed

lemma cut_query:
  assumes "d \<notin> set s" and "d \<notin> set s'" and "q = [] \<or> hd q = d" and "q' = [] \<or> hd q' = d"
  shows "s @ q = s' @ q' \<longleftrightarrow> s = s' \<and> q = q'"
proof
  have "takeWhile (\<lambda>c. c \<noteq> d) (x @ y) = x" if "d \<notin> set x" "y = [] \<or> hd y = d" for x y
    using that by (cases y) (auto simp: takeWhile_eq_all_conv takeWhile_escape)
  then show "s @ q = s' @ q' \<Longrightarrow> s = s' \<and> q = q'" using assms by (metis same_append_eq)
qed simp

lemma JoinHostPort_inject:
  assumes "CHR '':'' \<notin> set p" and "CHR '':'' \<notin> set p'"
  shows "JoinHostPort h p = JoinHostPort h' p' \<longleftrightarrow> h = h' \<and> p = p'"
proof -
  let ?b = "\<lambda>h. if CHR '':'' \<in> set h then CHR ''['' # h @ '']'' else h"
  have join: "JoinHostPort h p = ?b h @ CHR '':'' # p" for h p by (simp add: JoinHostPort_def)
  have "?b h = ?b h' \<longleftrightarrow> h = h'" by auto
  then show ?thesis unfolding join by (subst cut_last [OF assms]) simp
qed

lemma ToDSN_parts:
  "ToDSN c = ''postgres://'' @ escape (user c) EncodeUserPassword @ CHR '':'' # escape (password c) EncodeUserPassword
     @ CHR ''@'' # escape (JoinHostPort (host c) (port c)) EncodeHost @ CHR ''/'' # escape (database c) EncodePath
     @ (if disableSSL c then ''?sslmode=disable'' else '''')"
proof -
  have "escape (CHR ''/'' # s) EncodePath = CHR ''/'' # escape s EncodePath" for s
    by (simp add: escape_def escape_char_def shouldEscape_def alnum_def)
  then show ?thesis by (simp add: ToDSN_def URL_String_def UserPassword_String_def)
qed

lemma ToDSN_eq_iff:
  "ToDSN c = ToDSN c' \<longleftrightarrow> user c = user c' \<and> password c = password c' \<and> database c = database c'
     \<and> disableSSL c = disableSSL c' \<and> JoinHostPort (host c) (port c) = JoinHostPort (host c') (port c')"
proof -
  let ?q = "\<lambda>c. if disableSSL c then ''?sslmode=disable'' else ''''"
  have q: "escape (database c) EncodePath @ ?q c = escape (database c') EncodePath @ ?q c'
      \<longleftrightarrow> escape (database c) EncodePath = escape (database c') EncodePath \<and> ?q c = ?q c'"
    by (intro cut_query [of "CHR ''?''"] escape_delimiters) auto
  have "?q c = ?q c' \<longleftrightarrow> disableSSL c = disableSSL c'" by simp
  then show ?thesis
    unfolding ToDSN_parts same_append_eq cut_first [OF escape_delimiters(1) escape_delimiters(1)]
      cut_first [OF escape_delimiters(2) escape_delimiters(2)] cut_first [OF escape_delimiters(3) escape_delimiters(3)]
      q escape_inject by auto
qed

text \<open>
  C31. No setting can pass for another one in the connection string: for arbitrary users,
  passwords, hosts and database names (delimiters, percent signs and spaces included) two different
  configurations have different connection strings, provided no port contains a colon. The
  proviso is needed: host and port are joined without escaping, so that a colon in the port can
  be taken for one of a bracketed host.
\<close>

theorem dsn_unambiguous:
  assumes "CHR '':'' \<notin> set (port c)" and "CHR '':'' \<notin> set (port c')"
  shows "(ToDSN c = ToDSN c' \<longleftrightarrow> c = c')
    \<and> (\<exists>a b. a \<noteq> b \<and> host a = ''[a'' \<and> port a = ''b]:c'' \<and> host b = ''a:b'' \<and> port b = ''c'' \<and> ToDSN a = ToDSN b)"
proof
  show "ToDSN c = ToDSN c' \<longleftrightarrow> c = c'"
    unfolding ToDSN_eq_iff JoinHostPort_inject [OF assms] by auto
  let ?cfg = "\<lambda>h p. \<lparr>host = h, port = p, database = ''db'', user = ''u'', password = ''p'', disableSSL = False\<rparr>"
  have "ToDSN (?cfg ''[a'' ''b]:c'') = ToDSN (?cfg ''a:b'' ''c'')" unfolding ToDSN_eq_iff by (simp add: JoinHostPort_def)
  then show "\<exists>a b. a \<noteq> b \<and> host a = ''[a'' \<and> port a = ''b]:c'' \<and> host b = ''a:b'' \<and> port b = ''c'' \<and> ToDSN a = ToDSN b"
    by (intro exI [of _ "?cfg ''[a'' ''b]:c''"] exI [of _ "?cfg ''a:b'' ''c''"]) simp
qed

text \<open>A password that imitates the rest of a connection string does not collide with it.\<close>

theorem dsn_unambiguous_witness:
  "ToDSN \<lparr>host = ''db'', port = ''5432'', database = ''a'', user = ''u'', password = ''p@evil:1/b?sslmode=disable'', disableSSL = False\<rparr>
    \<noteq> ToDSN \<lparr>host = ''evil'', port = ''1'', database = ''b'', user = ''u'', password = ''p'', disableSSL = True\<rparr>"
  using dsn_unambiguous [of
      "\<lparr>host = ''db'', port = ''5432'', database = ''a'', user = ''u'', password = ''p@evil:1/b?sslmode=disable'', disableSSL = False\<rparr>"
      "\<lparr>host = ''evil'', port = ''1'', database = ''b'', user = ''u'', password = ''p'', disableSSL = True\<rparr>"]
  by simp

end
