(* ===== verification/Db_Sqlite.thy ===== *)
theory Db_Sqlite
  imports Db_Postgres
begin

text \<open>
  The package \<open>src/db/sqlite\<close>: \<open>tx.go\<close>, the same manager as the postgres package over
  \<open>database/sql\<close> with its own context keys and options, and \<open>connector.go\<close>. The SQLite
  driver is a parameter; the handle of \<open>database/sql\<close> is modelled by its limits.
\<close>

section \<open>Transactions\<close>

record sql_tx_options =
  Isolation :: int
  ReadOnly :: bool

type_synonym sq_tx_option = "sql_tx_options \<Rightarrow> sql_tx_options"

definition sq_txCtxValue :: ctx_key where "sq_txCtxValue = SqliteKey ''tx-manager:transaction''"
definition sq_queriesCtxValue :: ctx_key where "sq_queriesCtxValue = SqliteKey ''tx-manager:queries''"

definition Sq_WithReadOnly :: sq_tx_option where
  "Sq_WithReadOnly = (\<lambda>txOpts. txOpts\<lparr>ReadOnly := True\<rparr>)"

definition sq_resolve :: "sq_tx_option list \<Rightarrow> sql_tx_options" where
  "sq_resolve opts = fold (\<lambda>opt cfg. opt cfg) opts \<lparr>Isolation = 0, ReadOnly = False\<rparr>"

definition Sq_Begin :: "('db, 'tx, 'q, sql_tx_options, unit) driver \<Rightarrow> ('tx, 'q) ctx \<Rightarrow> sq_tx_option list
    \<Rightarrow> ('db, ('tx, 'q) ctx) act" where
  "Sq_Begin conn ctx opts db =
     (let cfg = sq_resolve opts in
      case BeginTx conn ctx cfg db of
        (Panic p, db') \<Rightarrow> (Panic p, db')
      | (Err err, db') \<Rightarrow> (Err (Wrap ''begin tx'' err), db')
      | (Ok tx, db') \<Rightarrow> (Ok (WithValue ctx sq_txCtxValue (TxValue tx)), db'))"

definition Sq_Commit :: "('db, 'tx, 'q, sql_tx_options, unit) driver \<Rightarrow> ('tx, 'q) ctx \<Rightarrow> ('db, unit) act" where
  "Sq_Commit conn ctx db =
     (case assert_tx (ctx_Value ctx sq_txCtxValue) of
        None \<Rightarrow> (Err ErrNoTransaction, db)
      | Some tx \<Rightarrow> (case TxCommit conn () tx db of
          (Panic p, db') \<Rightarrow> (Panic p, db')
        | (Err err, db') \<Rightarrow> (Err (Wrap ''commit tx'' err), db')
        | (Ok _, db') \<Rightarrow> (Ok (), db')))"

definition Sq_Rollback :: "('db, 'tx, 'q, sql_tx_options, unit) driver \<Rightarrow> ('tx, 'q) ctx \<Rightarrow> ('db, unit) act" where
  "Sq_Rollback conn ctx db =
     (case assert_tx (ctx_Value ctx sq_txCtxValue) of
        None \<Rightarrow> (Err ErrNoTransaction, db)
      | Some tx \<Rightarrow> (case TxRollback conn () tx db of
          (Panic p, db') \<Rightarrow> (Panic p, db')
        | (Err err, db') \<Rightarrow> (Err (Wrap ''rollback tx'' err), db')
        | (Ok _, db') \<Rightarrow> (Ok (), db')))"

definition Sq_Transactional :: "('db, 'tx, 'q, sql_tx_options, unit) driver \<Rightarrow> ('tx, 'q) queries option \<Rightarrow> ('tx, 'q) ctx
    \<Rightarrow> ('db, 'tx, 'q) callback \<Rightarrow> sq_tx_option list \<Rightarrow> ('db, unit) act" where
  "Sq_Transactional conn queries ctx callback opts db =
     (case Sq_Begin conn ctx opts db of
        (Panic p, db1) \<Rightarrow> (Panic p, db1)
      | (Err err, db1) \<Rightarrow> (Err (Wrap ''begin query tx'' err), db1)
      | (Ok txCtx, db1) \<Rightarrow>
          (case assert_tx (ctx_Value txCtx sq_txCtxValue) of
             None \<Rightarrow> (Err ErrNoTransaction, db1)
           | Some tx \<Rightarrow>
               (case call_WithTx queries tx of
                  Inl p \<Rightarrow> (Panic p, db1)
                | Inr txQueries \<Rightarrow>
                    let txCtx = WithValue txCtx sq_queriesCtxValue (QueriesValue txQueries)
                    in (case callback txCtx db1 of
                          (Panic p, db2) \<Rightarrow> (Panic p, db2)
                        | (Err cbErr, db2) \<Rightarrow>
                            (case Sq_Rollback conn txCtx db2 of
                               (Panic p, db3) \<Rightarrow> (Panic p, db3)
                             | (Err rbErr, db3) \<Rightarrow> (Err (Wrap2 ''rollback query tx'' rbErr cbErr), db3)
                             | (Ok _, db3) \<Rightarrow> (Err (Wrap ''query tx callback'' cbErr), db3))
                        | (Ok _, db2) \<Rightarrow>
                            (case Sq_Commit conn txCtx db2 of
                               (Panic p, db3) \<Rightarrow> (Panic p, db3)
                             | (Err err, db3) \<Rightarrow> (Err (Wrap ''commit query tx'' err), db3)
                             | (Ok _, db3) \<Rightarrow> (Ok (), db3))))))"

definition Sq_GetQueries :: "('tx, 'q) queries option \<Rightarrow> ('tx, 'q) ctx \<Rightarrow> 'q option" where
  "Sq_GetQueries own ctx =
     (case assert_queries (ctx_Value ctx sq_queriesCtxValue) of
        Some (Some queries) \<Rightarrow> Some queries
      | _ \<Rightarrow> (case own_queries own of Some queries \<Rightarrow> queries | None \<Rightarrow> None))"

interpretation sq: tx_manager Sq_Begin Sq_Commit Sq_Rollback Sq_Transactional Sq_GetQueries
  sq_txCtxValue sq_queriesCtxValue sq_resolve "\<lambda>_. ()"
  by unfold_locales
     (simp_all add: Sq_Begin_def Sq_Commit_def Sq_Rollback_def Sq_Transactional_def Sq_GetQueries_def case_map_err Let_def
       sq_txCtxValue_def sq_queriesCtxValue_def split: prod.split outcome.split option.split sum.split)

section \<open>Properties\<close>


text \<open>
  C28. The transaction a context carries for a package is the one of the innermost \<open>Begin\<close> of that
  package: committing or rolling back a context that \<open>Begin\<close> returned ends exactly the transaction
  begun there, whatever the outer context holds, and what the driver reports is returned, wrapped.
  \<open>Begin\<close> of the other package does not change which transaction that is. A context
  without a transaction of the package is refused with \<open>ErrNoTransaction\<close> and the database is not
  touched. This holds for \<open>Commit\<close> and \<open>Rollback\<close> of both packages.
\<close>

theorem tx_context_scoped:
  assumes pg: "Pg_Begin d ctx opts db = (Ok ctx', db1)" and sq: "Sq_Begin e sctx sopts sdb = (Ok sctx', sdb1)"
  shows "(\<exists>tx. BeginTx d ctx (pg_resolve opts) db = (Ok tx, db1) \<and> (\<forall>db2.
        Pg_Commit d ctx' db2 = (let (r, db') = TxCommit d ctx' tx db2 in (map_err (Wrap ''commit tx'') r, db'))
      \<and> Pg_Rollback d ctx' db2 = (let (r, db') = TxRollback d ctx' tx db2 in (map_err (Wrap ''rollback tx'') r, db'))))
    \<and> (\<exists>tx. BeginTx e sctx (sq_resolve sopts) sdb = (Ok tx, sdb1) \<and> (\<forall>db2.
        Sq_Commit e sctx' db2 = (let (r, db') = TxCommit e () tx db2 in (map_err (Wrap ''commit tx'') r, db'))
      \<and> Sq_Rollback e sctx' db2 = (let (r, db') = TxRollback e () tx db2 in (map_err (Wrap ''rollback tx'') r, db'))))
    \<and> Sq_Commit e ctx' = Sq_Commit e ctx \<and> Sq_Rollback e ctx' = Sq_Rollback e ctx
    \<and> (\<forall>tx db2. assert_tx (ctx_Value sctx pg_txCtxValue) = Some tx \<longrightarrow>
        Pg_Commit d sctx' db2 = (let (r, db') = TxCommit d sctx' tx db2 in (map_err (Wrap ''commit tx'') r, db'))
      \<and> Pg_Rollback d sctx' db2 = (let (r, db') = TxRollback d sctx' tx db2 in (map_err (Wrap ''rollback tx'') r, db')))
    \<and> (\<forall>c db2. assert_tx (ctx_Value c pg_txCtxValue) = None \<longrightarrow>
        Pg_Commit d c db2 = (Err ErrNoTransaction, db2) \<and> Pg_Rollback d c db2 = (Err ErrNoTransaction, db2))
    \<and> (\<forall>c db2. assert_tx (ctx_Value c sq_txCtxValue) = None \<longrightarrow>
        Sq_Commit e c db2 = (Err ErrNoTransaction, db2) \<and> Sq_Rollback e c db2 = (Err ErrNoTransaction, db2))"
proof (intro conjI)
  have keys: "pg_txCtxValue \<noteq> sq_txCtxValue" by (simp add: sq_txCtxValue_def pg_txCtxValue_def)
  have ctx': "ctx_Value ctx' sq_txCtxValue = ctx_Value ctx sq_txCtxValue"
    and sctx': "ctx_Value sctx' pg_txCtxValue = ctx_Value sctx pg_txCtxValue"
    using pg sq keys by (auto simp: pg.begin_law sq.begin_law split: prod.splits outcome.splits)
  show "Sq_Commit e ctx' = Sq_Commit e ctx" "Sq_Rollback e ctx' = Sq_Rollback e ctx"
    by (simp_all add: fun_eq_iff sq.commit_law sq.rollback_law ctx')
  show "\<forall>tx db2. assert_tx (ctx_Value sctx pg_txCtxValue) = Some tx \<longrightarrow>
        Pg_Commit d sctx' db2 = (let (r, db') = TxCommit d sctx' tx db2 in (map_err (Wrap ''commit tx'') r, db'))
      \<and> Pg_Rollback d sctx' db2 = (let (r, db') = TxRollback d sctx' tx db2 in (map_err (Wrap ''rollback tx'') r, db'))"
    by (simp add: pg.commit_law pg.rollback_law sctx')
qed (use pg.ends_begun [OF pg] sq.ends_begun [OF sq] in \<open>simp_all add: pg.refuses sq.refuses\<close>)

text \<open>A driver that begins transaction 7 (postgres) or 8 (sqlite) and whose rollbacks fail.\<close>

definition demo_driver :: "'tx \<Rightarrow> (nat, 'tx, 'q, 'o, 'k) driver" where
  "demo_driver tx = \<lparr>BeginTx = (\<lambda>ctx opts n. (Ok tx, Suc n)), TxCommit = (\<lambda>k tx n. (Ok (), n + 10)),
     TxRollback = (\<lambda>k tx n. (Err (DriverErr ''closed''), n))\<rparr>"

theorem tx_context_scoped_witness:
  "\<exists>c c' :: (nat, nat) ctx. Pg_Begin (demo_driver 7) Background [] 0 = (Ok c, 1) \<and> Sq_Begin (demo_driver 8) c [] 0 = (Ok c', 1)
     \<and> Pg_Rollback (demo_driver 7) c 1 = (Err (Wrap ''rollback tx'' (DriverErr ''closed'')), 1)
     \<and> Sq_Commit (demo_driver 8) c 1 = (Err ErrNoTransaction, 1)
     \<and> Sq_Commit (demo_driver 8) c' 1 = (Ok (), 11) \<and> Pg_Commit (demo_driver 7) c' 1 = (Ok (), 11)"
proof -
  let ?c = "WithValue Background pg_txCtxValue (TxValue 7) :: (nat, nat) ctx"
  let ?c' = "WithValue ?c sq_txCtxValue (TxValue 8)"
  have b: "Pg_Begin (demo_driver 7) Background [] 0 = (Ok ?c, 1)" "Sq_Begin (demo_driver 8) ?c [] 0 = (Ok ?c', 1)"
    by (simp_all add: Pg_Begin_def Sq_Begin_def demo_driver_def)
  have "pg_txCtxValue \<noteq> sq_txCtxValue" by (simp add: sq_txCtxValue_def pg_txCtxValue_def)
  with tx_context_scoped [OF b] have "Pg_Rollback (demo_driver 7) ?c 1 = (Err (Wrap ''rollback tx'' (DriverErr ''closed'')), 1)"
    "Sq_Commit (demo_driver 8) ?c 1 = (Err ErrNoTransaction, 1)" "Sq_Commit (demo_driver 8) ?c' 1 = (Ok (), 11)"
    "Pg_Commit (demo_driver 7) ?c' 1 = (Ok (), 11)"
    by (auto simp: demo_driver_def)
  with b show ?thesis by blast
qed

section \<open>Connecting\<close>

record sq_config =
  sq_database :: string
  maxOpenConns :: int
  maxIdleConns :: int
  connMaxIdleTime :: int
  connMaxLifetime :: int

type_synonym sq_option = "sq_config \<Rightarrow> sq_config"

definition Sq_WithDatabase :: "string \<Rightarrow> sq_option" where "Sq_WithDatabase s = (\<lambda>cfg. cfg\<lparr>sq_database := s\<rparr>)"
definition WithMaxOpenConns :: "int \<Rightarrow> sq_option" where "WithMaxOpenConns n = (\<lambda>cfg. cfg\<lparr>maxOpenConns := n\<rparr>)"
definition WithMaxIdleConns :: "int \<Rightarrow> sq_option" where "WithMaxIdleConns n = (\<lambda>cfg. cfg\<lparr>maxIdleConns := n\<rparr>)"
definition WithConnMaxIdleTime :: "int \<Rightarrow> sq_option" where "WithConnMaxIdleTime d = (\<lambda>cfg. cfg\<lparr>connMaxIdleTime := d\<rparr>)"
definition WithConnMaxLifetime :: "int \<Rightarrow> sq_option" where "WithConnMaxLifetime d = (\<lambda>cfg. cfg\<lparr>connMaxLifetime := d\<rparr>)"

definition DefaultMaxOpenConns :: int where "DefaultMaxOpenConns = 1"
definition DefaultMaxIdleConns :: int where "DefaultMaxIdleConns = 1"
definition DefaultConnMaxIdleTime :: int where "DefaultConnMaxIdleTime = 5 * 60 * 1000000000"
definition DefaultConnMaxLifetime :: int where "DefaultConnMaxLifetime = 15 * 60 * 1000000000"

lemmas sq_defaults = DefaultMaxOpenConns_def DefaultMaxIdleConns_def DefaultConnMaxIdleTime_def
  DefaultConnMaxLifetime_def

text \<open>
  The limits of a \<open>sql.DB\<close> and the setters of \<open>database/sql\<close>: a non-positive number of open
  connections is no limit, a non-positive number of idle ones is none, and the idle connections
  are cut to the open ones.
\<close>

record sql_db =
  dsn :: string
  maxOpen :: int
  maxIdleCount :: int
  maxIdleTime :: int
  maxLifetime :: int

definition maxIdle :: "sql_db \<Rightarrow> int" where
  "maxIdle db = (if maxIdleCount db = 0 then 2 else if maxIdleCount db < 0 then 0 else maxIdleCount db)"

definition SetMaxIdleConns :: "int \<Rightarrow> sql_db \<Rightarrow> sql_db" where
  "SetMaxIdleConns n db =
     (let db = db\<lparr>maxIdleCount := if 0 < n then n else - 1\<rparr>
      in if 0 < maxOpen db \<and> maxOpen db < maxIdle db then db\<lparr>maxIdleCount := maxOpen db\<rparr> else db)"

definition SetMaxOpenConns :: "int \<Rightarrow> sql_db \<Rightarrow> sql_db" where
  "SetMaxOpenConns n db =
     (let db = db\<lparr>maxOpen := max 0 n\<rparr>
      in if 0 < maxOpen db \<and> maxOpen db < maxIdle db then SetMaxIdleConns n db else db)"

definition SetConnMaxIdleTime :: "int \<Rightarrow> sql_db \<Rightarrow> sql_db" where
  "SetConnMaxIdleTime d db = db\<lparr>maxIdleTime := max 0 d\<rparr>"

definition SetConnMaxLifetime :: "int \<Rightarrow> sql_db \<Rightarrow> sql_db" where
  "SetConnMaxLifetime d db = db\<lparr>maxLifetime := max 0 d\<rparr>"

definition set_limits :: "sq_config \<Rightarrow> sql_db \<Rightarrow> sql_db" where
  "set_limits cfg conn =
     (let conn = SetMaxOpenConns (maxOpenConns cfg) conn;
          conn = SetMaxIdleConns (maxIdleConns cfg) conn;
          conn = SetConnMaxIdleTime (connMaxIdleTime cfg) conn
      in SetConnMaxLifetime (connMaxLifetime cfg) conn)"

definition sq_connect_config :: "sq_option list \<Rightarrow> sq_config" where
  "sq_connect_config opts = fold (\<lambda>opt cfg. opt cfg) opts
     \<lparr>sq_database = ''db.sqlite'', maxOpenConns = DefaultMaxOpenConns, maxIdleConns = DefaultMaxIdleConns,
      connMaxIdleTime = DefaultConnMaxIdleTime, connMaxLifetime = DefaultConnMaxLifetime\<rparr>"

text \<open>\<open>open_db\<close> and \<open>ping\<close> are the driver's part; the second result is whether \<open>conn.Close\<close> was called.\<close>

definition Sq_Connect :: "(string \<Rightarrow> (db_error, unit) outcome) \<Rightarrow> (sql_db \<Rightarrow> (db_error, unit) outcome)
    \<Rightarrow> sq_option list \<Rightarrow> (db_error, sql_db) outcome \<times> bool" where
  "Sq_Connect open_db ping opts =
     (let cfg = sq_connect_config opts in
      if sq_database cfg = [] then (Err ErrDatabaseRequired, False)
      else case open_db (sq_database cfg) of
          Panic p \<Rightarrow> (Panic p, False)
        | Err err \<Rightarrow> (Err (Wrap ''open database'' err), False)
        | Ok _ \<Rightarrow>
            let conn = set_limits cfg \<lparr>dsn = sq_database cfg, maxOpen = 0, maxIdleCount = 0,
                         maxIdleTime = 0, maxLifetime = 0\<rparr>
            in (case ping conn of
                  Panic p \<Rightarrow> (Panic p, False)
                | Err err \<Rightarrow> (Err (Wrap ''ping database'' err), True)
                | Ok _ \<Rightarrow> (Ok conn, False)))"

lemmas setter_defs = SetMaxOpenConns_def SetMaxIdleConns_def SetConnMaxIdleTime_def SetConnMaxLifetime_def

text \<open>The limits a fresh handle has after the setters, in the order \<open>Connect\<close> calls them.\<close>

lemma set_limits_exact:
  fixes cfg :: sq_config and s :: string
  defines "db \<equiv> set_limits cfg \<lparr>dsn = s, maxOpen = 0, maxIdleCount = 0, maxIdleTime = 0, maxLifetime = 0\<rparr>"
  shows "dsn db = s" "maxOpen db = max 0 (maxOpenConns cfg)"
    "maxIdle db = (if 0 < maxOpenConns cfg then min (max 0 (maxIdleConns cfg)) (maxOpenConns cfg) else max 0 (maxIdleConns cfg))"
    "maxIdleTime db = max 0 (connMaxIdleTime cfg)" "maxLifetime db = max 0 (connMaxLifetime cfg)"
  by (simp_all add: db_def set_limits_def setter_defs Let_def maxIdle_def)

text \<open>
  What \<open>Connect\<close> of the sqlite package returns. A handle is returned only if the name of the
  database is not empty, opening it succeeded and the handle answered a ping with its limits
  already set: at most the configured number of open connections (no limit when it is not positive),
  never more idle than open ones, and no negative times. Every failure returns an error that
  says where it arose, and the handle is closed exactly if it had been opened and did not answer. The
  defaults are one connection to \<open>db.sqlite\<close>, idle for five minutes at most and used for fifteen.
\<close>

lemma sqlite_connect_limits:
  "(case Sq_Connect open_db ping opts of (r, closed_conn) \<Rightarrow>
     let cfg = sq_connect_config opts in
     (case r of
        Ok db \<Rightarrow> \<not> closed_conn \<and> dsn db = sq_database cfg \<and> dsn db \<noteq> [] \<and> open_db (dsn db) = Ok () \<and> ping db = Ok ()
          \<and> maxOpen db = max 0 (maxOpenConns cfg)
          \<and> maxIdle db = (if maxOpen db = 0 then max 0 (maxIdleConns cfg) else min (max 0 (maxIdleConns cfg)) (maxOpen db))
          \<and> maxIdleTime db = max 0 (connMaxIdleTime cfg) \<and> maxLifetime db = max 0 (connMaxLifetime cfg)
      | Err e \<Rightarrow> (if sq_database cfg = [] then e = ErrDatabaseRequired \<and> \<not> closed_conn
          else if open_db (sq_database cfg) = Ok ()
          then closed_conn \<and> (\<exists>db err. dsn db = sq_database cfg \<and> ping db = Err err \<and> e = Wrap ''ping database'' err)
          else \<not> closed_conn \<and> (\<exists>err. open_db (sq_database cfg) = Err err \<and> e = Wrap ''open database'' err))
      | Panic p \<Rightarrow> \<not> closed_conn \<and> (open_db (sq_database cfg) = Panic p \<or> (\<exists>db. ping db = Panic p))))
   \<and> sq_connect_config [] = \<lparr>sq_database = ''db.sqlite'', maxOpenConns = 1, maxIdleConns = 1,
        connMaxIdleTime = 300 * 1000000000, connMaxLifetime = 900 * 1000000000\<rparr>"
proof
  let ?cfg = "sq_connect_config opts"
  let ?db = "set_limits ?cfg \<lparr>dsn = sq_database ?cfg, maxOpen = 0, maxIdleCount = 0, maxIdleTime = 0, maxLifetime = 0\<rparr>"
  have pinged: "\<exists>db err. dsn db = sq_database ?cfg \<and> ping db = Err err \<and> Wrap ''ping database'' e = Wrap ''ping database'' err"
    if "ping ?db = Err e" for e
    using that set_limits_exact(1) [of ?cfg "sq_database ?cfg"] by blast
  show "case Sq_Connect open_db ping opts of (r, closed_conn) \<Rightarrow>
     let cfg = sq_connect_config opts in
     (case r of
        Ok db \<Rightarrow> \<not> closed_conn \<and> dsn db = sq_database cfg \<and> dsn db \<noteq> [] \<and> open_db (dsn db) = Ok () \<and> ping db = Ok ()
          \<and> maxOpen db = max 0 (maxOpenConns cfg)
          \<and> maxIdle db = (if maxOpen db = 0 then max 0 (maxIdleConns cfg) else min (max 0 (maxIdleConns cfg)) (maxOpen db))
          \<and> maxIdleTime db = max 0 (connMaxIdleTime cfg) \<and> maxLifetime db = max 0 (connMaxLifetime cfg)
      | Err e \<Rightarrow> (if sq_database cfg = [] then e = ErrDatabaseRequired \<and> \<not> closed_conn
          else if open_db (sq_database cfg) = Ok ()
          then closed_conn \<and> (\<exists>db err. dsn db = sq_database cfg \<and> ping db = Err err \<and> e = Wrap ''ping database'' err)
          else \<not> closed_conn \<and> (\<exists>err. open_db (sq_database cfg) = Err err \<and> e = Wrap ''open database'' err))
      | Panic p \<Rightarrow> \<not> closed_conn \<and> (open_db (sq_database cfg) = Panic p \<or> (\<exists>db. ping db = Panic p)))"
    using pinged
    by (cases "open_db (sq_database ?cfg)"; cases "ping ?db")
       (auto simp: Sq_Connect_def Let_def set_limits_exact)
qed (simp add: sq_connect_config_def sq_defaults)

end
