(* ===== verification/Db_Manager.thy ===== *)
theory Db_Manager
  imports Db_Sqlite
begin

text \<open>
  The managers as the packages build them: \<open>NewTxManager\<close>, \<open>NewQueriesTxManager\<close> and the methods
  \<open>Transactional\<close> and \<open>GetQueries\<close> of both \<open>tx.go\<close>, on a manager and queries that may be nil. What
  is shown is which queries a callback gets from the manager that runs it.
\<close>

record ('db, 'tx, 'q) pg_TxManager = pg_conn :: "('db, 'tx, 'q, pgx_tx_options, ('tx, 'q) ctx) driver"

record ('db, 'tx, 'q) pg_QueriesTxManager =
  pg_queries :: "('tx, 'q) queries option"
  pg_manager :: "('db, 'tx, 'q) pg_TxManager option"

definition Pg_NewTxManager :: "('db, 'tx, 'q, pgx_tx_options, ('tx, 'q) ctx) driver \<Rightarrow> ('db, 'tx, 'q) pg_TxManager" where
  "Pg_NewTxManager conn = \<lparr>pg_conn = conn\<rparr>"

definition Pg_NewQueriesTxManager :: "('db, 'tx, 'q) pg_TxManager option \<Rightarrow> ('tx, 'q) queries option
    \<Rightarrow> ('db, 'tx, 'q) pg_QueriesTxManager" where
  "Pg_NewQueriesTxManager m qs = \<lparr>pg_queries = qs, pg_manager = m\<rparr>"

text \<open>A nil \<open>TxManager\<close> panics in \<open>Begin\<close>, which reads its connection.\<close>

definition Pg_run :: "('db, 'tx, 'q) pg_QueriesTxManager \<Rightarrow> ('tx, 'q) ctx \<Rightarrow> ('db, 'tx, 'q) callback
    \<Rightarrow> pg_tx_option list \<Rightarrow> ('db, unit) act" where
  "Pg_run m ctx callback opts db = (case pg_manager m of
       None \<Rightarrow> (Panic NilDereference, db)
     | Some mgr \<Rightarrow> Pg_Transactional (pg_conn mgr) (pg_queries m) ctx callback opts db)"

definition Pg_queries_of :: "('db, 'tx, 'q) pg_QueriesTxManager \<Rightarrow> ('tx, 'q) ctx \<Rightarrow> 'q option" where
  "Pg_queries_of m = Pg_GetQueries (pg_queries m)"

record ('db, 'tx, 'q) sq_TxManager = sq_conn :: "('db, 'tx, 'q, sql_tx_options, unit) driver"

record ('db, 'tx, 'q) sq_QueriesTxManager =
  sq_queries :: "('tx, 'q) queries option"
  sq_manager :: "('db, 'tx, 'q) sq_TxManager option"

definition Sq_NewTxManager :: "('db, 'tx, 'q, sql_tx_options, unit) driver \<Rightarrow> ('db, 'tx, 'q) sq_TxManager" where
  "Sq_NewTxManager conn = \<lparr>sq_conn = conn\<rparr>"

definition Sq_NewQueriesTxManager :: "('db, 'tx, 'q) sq_TxManager option \<Rightarrow> ('tx, 'q) queries option
    \<Rightarrow> ('db, 'tx, 'q) sq_QueriesTxManager" where
  "Sq_NewQueriesTxManager m qs = \<lparr>sq_queries = qs, sq_manager = m\<rparr>"

definition Sq_run :: "('db, 'tx, 'q) sq_QueriesTxManager \<Rightarrow> ('tx, 'q) ctx \<Rightarrow> ('db, 'tx, 'q) callback
    \<Rightarrow> sq_tx_option list \<Rightarrow> ('db, unit) act" where
  "Sq_run m ctx callback opts db = (case sq_manager m of
       None \<Rightarrow> (Panic NilDereference, db)
     | Some mgr \<Rightarrow> Sq_Transactional (sq_conn mgr) (sq_queries m) ctx callback opts db)"

definition Sq_queries_of :: "('db, 'tx, 'q) sq_QueriesTxManager \<Rightarrow> ('tx, 'q) ctx \<Rightarrow> 'q option" where
  "Sq_queries_of m = Sq_GetQueries (sq_queries m)"

lemmas manager_defs = Pg_run_def Pg_queries_of_def Pg_NewTxManager_def Pg_NewQueriesTxManager_def
  Sq_run_def Sq_queries_of_def Sq_NewTxManager_def Sq_NewQueriesTxManager_def

text \<open>
  C29. A callback that asks its manager for queries gets those of the transaction it runs in: when
  \<open>Transactional\<close> began the transaction \<open>tx\<close> and \<open>WithTx\<close> made the queries \<open>q\<close> of it, running a
  callback that starts with \<open>GetQueries\<close> on its context is the same as running it on \<open>q\<close>, also
  inside the callback of another transaction (the context given is arbitrary). Outside of
  any transaction, \<open>GetQueries\<close> gives the manager's own queries when they are a pointer \<open>*T\<close>, and
  else nil.
\<close>

theorem callback_gets_its_queries:
  assumes "m = Pg_NewQueriesTxManager (Some (Pg_NewTxManager d)) qs" and "n = Sq_NewQueriesTxManager (Some (Sq_NewTxManager e)) qs"
  shows "(BeginTx d ctx (pg_resolve opts) db = (Ok tx, db1) \<and> call_WithTx qs tx = Inr (Some q) \<longrightarrow>
        Pg_run m ctx (\<lambda>c. body (Pg_queries_of m c) c) opts db = Pg_run m ctx (body (Some q)) opts db)
    \<and> (BeginTx e ctx (sq_resolve sopts) sdb = (Ok tx, sdb1) \<and> call_WithTx qs tx = Inr (Some q) \<longrightarrow>
        Sq_run n ctx (\<lambda>c. sbody (Sq_queries_of n c) c) sopts sdb = Sq_run n ctx (sbody (Some q)) sopts sdb)
    \<and> (assert_queries (ctx_Value c pg_queriesCtxValue) = None \<longrightarrow>
        Pg_queries_of m c = (case qs of Some v \<Rightarrow> (case as_pointer v of Some p \<Rightarrow> p | None \<Rightarrow> None) | None \<Rightarrow> None))
    \<and> (assert_queries (ctx_Value c sq_queriesCtxValue) = None \<longrightarrow>
        Sq_queries_of n c = (case qs of Some v \<Rightarrow> (case as_pointer v of Some p \<Rightarrow> p | None \<Rightarrow> None) | None \<Rightarrow> None))"
  using pg.run_with_queries [of d ctx opts db tx db1 qs q body] sq.run_with_queries [of e ctx sopts sdb tx sdb1 qs q sbody]
    pg.queries_outside [of c qs] sq.queries_outside [of c qs]
  by (cases qs) (simp_all add: assms manager_defs)

text \<open>
  Two nested transactions of a manager whose queries are the number of their transaction; the
  callbacks record what they get from \<open>GetQueries\<close>: on the inner context 1, on the outer one 0.
\<close>

definition counting_driver :: "(nat \<times> nat option list, nat, nat, sql_tx_options, unit) driver" where
  "counting_driver = \<lparr>BeginTx = (\<lambda>ctx opts (n, l). (Ok n, Suc n, l)), TxCommit = (\<lambda>k tx st. (Ok (), st)),
     TxRollback = (\<lambda>k tx st. (Ok (), st))\<rparr>"

definition counting_queries :: "(nat, nat) queries" where
  "counting_queries = \<lparr>WithTx = (\<lambda>tx. Inr (Some tx)), as_pointer = None\<rparr>"

definition note_queries :: "nat option \<Rightarrow> nat \<times> nat option list \<Rightarrow> nat \<times> nat option list" where
  "note_queries q st = (fst st, snd st @ [q])"

lemma counting_simps:
  "BeginTx counting_driver ctx opts (n, l) = (Ok n, Suc n, l)" "TxCommit counting_driver k tx st = (Ok (), st)"
  "WithTx counting_queries tx = Inr (Some tx)"
  by (simp_all add: counting_driver_def counting_queries_def)

lemma sq_manager_run:
  "Sq_run (Sq_NewQueriesTxManager (Some (Sq_NewTxManager d)) qs) ctx cb opts db
     = tx_run d (\<lambda>_. ()) qs ctx (sq_resolve opts) (tx_ctx sq_txCtxValue sq_queriesCtxValue ctx) cb db"
  by (simp add: Sq_run_def Sq_NewQueriesTxManager_def Sq_NewTxManager_def sq.transactional_run)

theorem callback_gets_its_queries_witness:
  "let m = Sq_NewQueriesTxManager (Some (Sq_NewTxManager counting_driver)) (Some counting_queries) in
   Sq_queries_of m Background = None \<and>
   Sq_run m Background (\<lambda>c st. Sq_run m c (\<lambda>c' st. (Ok (), note_queries (Sq_queries_of m c) (note_queries (Sq_queries_of m c') st))) [] st) [] (0, [])
     = (Ok (), 2, [Some 1, Some 0])"
proof -
  let ?m = "Sq_NewQueriesTxManager (Some (Sq_NewTxManager counting_driver)) (Some counting_queries)"
  let ?pg = "\<lparr>BeginTx = (\<lambda>ctx opts db. (Err (DriverErr ''down''), db)), TxCommit = (\<lambda>k tx db. (Ok (), db)), TxRollback = (\<lambda>k tx db. (Ok (), db))\<rparr>
    :: (unit, nat, nat, pgx_tx_options, (nat, nat) ctx) driver"
  note get = callback_gets_its_queries [OF refl refl, where d = ?pg and e = counting_driver and qs = "Some counting_queries"]
  have out: "Sq_queries_of ?m Background = None"
    using get [where c = Background] by (simp add: counting_queries_def)
  let ?body = "\<lambda>x q c' st. (Ok (), note_queries x (note_queries q st))"
  have inner: "Sq_run ?m c (\<lambda>c'. ?body x (Sq_queries_of ?m c') c') [] (1, l) = (Ok (), 2, l @ [Some 1, x])" for c x l
  proof -
    have "Sq_run ?m c (\<lambda>c'. ?body x (Sq_queries_of ?m c') c') [] (1, l) = Sq_run ?m c (?body x (Some 1)) [] (1, l)"
      using get [where ctx = c and sopts = "[]" and sdb = "(1, l)" and tx = 1 and q = 1 and ?sdb1.0 = "(2, l)" and sbody = "?body x"]
      by (simp add: counting_simps)
    also have "\<dots> = (Ok (), 2, l @ [Some 1, x])"
      by (simp add: counting_simps sq_manager_run tx_run_def note_queries_def)
    finally show ?thesis .
  qed
  let ?out = "\<lambda>x c. Sq_run ?m c (\<lambda>c'. ?body x (Sq_queries_of ?m c') c') []"
  have "Sq_run ?m Background (\<lambda>c. ?out (Sq_queries_of ?m c) c) [] (0, []) = Sq_run ?m Background (?out (Some 0)) [] (0, [])"
    using get [where ctx = Background and sopts = "[]" and sdb = "(0, [])" and tx = 0 and q = 0 and ?sdb1.0 = "(1, [])" and sbody = ?out]
    by (simp add: counting_simps)
  also have "\<dots> = (Ok (), 2, [Some 1, Some 0])"
    unfolding sq_manager_run [where ctx = Background] by (simp add: tx_run_def counting_simps inner [unfolded One_nat_def])
  finally have "Sq_run ?m Background (\<lambda>c. ?out (Sq_queries_of ?m c) c) [] (0, []) = (Ok (), 2, [Some 1, Some 0])" .
  then show ?thesis using out by (simp add: Let_def)
qed

end
