(* ===== verification/Db_Migrate.thy ===== *)
theory Db_Migrate
  imports Db_Tx
begin

text \<open>
  \<open>MigrateUp\<close> of \<open>src/db/postgres/migrator.go\<close> and \<open>src/db/sqlite/migrator.go\<close>. The
  connection pool, the source and database drivers and the migration runner are parameters (the
  record \<open>migrate_env\<close>); the model returns the outcome with the calls that acquire and give
  back resources, deferred calls included.
\<close>

record ('c, 's, 'b, 'd, 'm) migrate_env =
  Acquire :: "(db_error, 'c) outcome"
  IofsNew :: "(db_error, 's) outcome"
  OpenDB :: "'c \<Rightarrow> 'b"
  WithInstance :: "'b \<Rightarrow> (db_error, 'd) outcome"
  NewWithInstance :: "'s \<Rightarrow> 'd \<Rightarrow> (db_error, 'm) outcome"
  Up :: "'m \<Rightarrow> (db_error, unit) outcome"

datatype resource_call = Acquired | Opened | ClosedDB | Released

text \<open>\<open>if err = m.Up(); err != nil && !errors.Is(err, migrate.ErrNoChange)\<close>\<close>

definition run_up :: "(db_error, unit) outcome \<Rightarrow> (db_error, unit) outcome" where
  "run_up r = (case r of
       Err err \<Rightarrow> if errors_Is err ErrNoChange then Ok () else Err (Wrap ''migration up'' err)
     | _ \<Rightarrow> r)"

text \<open>A deferred call runs when the function returns and when it panics.\<close>

definition deferring :: "resource_call \<Rightarrow> 'r \<times> resource_call list \<Rightarrow> 'r \<times> resource_call list" where
  "deferring c x = (fst x, snd x @ [c])"

definition Pg_MigrateUp :: "('c, 's, 'b, 'd, 'm) migrate_env \<Rightarrow> (db_error, unit) outcome \<times> resource_call list" where
  "Pg_MigrateUp env = (case Acquire env of
       Panic p \<Rightarrow> (Panic p, [])
     | Err err \<Rightarrow> (Err (Wrap ''acquire migration connection from pool'' err), [])
     | Ok conn \<Rightarrow> deferring Released
         (case IofsNew env of
            Panic p \<Rightarrow> (Panic p, [Acquired])
          | Err err \<Rightarrow> (Err (Wrap ''new migration source driver'' err), [Acquired])
          | Ok sourceDriver \<Rightarrow>
              let dbConn = OpenDB env conn in
              deferring ClosedDB
                (bind_out (map_err (Wrap ''create migration db driver'') (WithInstance env dbConn)) (\<lambda>dbDriver.
                 bind_out (map_err (Wrap ''create migration instance'')
                     (NewWithInstance env sourceDriver dbDriver)) (\<lambda>m. run_up (Up env m))),
                 [Acquired, Opened])))"

definition Sqlite_MigrateUp :: "('b, 's, 'b, 'd, 'm) migrate_env \<Rightarrow> 'b \<Rightarrow> (db_error, unit) outcome" where
  "Sqlite_MigrateUp env conn =
     bind_out (map_err (Wrap ''new migration source driver'') (IofsNew env)) (\<lambda>sourceDriver.
     bind_out (map_err (Wrap ''create migration db driver'') (WithInstance env conn)) (\<lambda>dbDriver.
     bind_out (map_err (Wrap ''create migration instance'') (NewWithInstance env sourceDriver dbDriver)) (\<lambda>m.
     run_up (Up env m))))"

lemma run_up_Ok_iff: "run_up r = Ok () \<longleftrightarrow> r = Ok () \<or> (\<exists>e. r = Err e \<and> errors_Is e ErrNoChange)"
  by (cases r) (auto simp: run_up_def)

text \<open>
  C32. \<open>MigrateUp\<close> gives back what it takes on every path, panics of the drivers included: an
  acquired connection is released exactly once, after the handle opened from it, if any, was
  closed; and it succeeds exactly when every stage succeeds and the last one reports success or
  that there was nothing to change. Both packages agree on the outcome once a connection was
  acquired.
\<close>

theorem migrate_up_releases:
  "case Acquire env of
     Ok conn \<Rightarrow> fst (Pg_MigrateUp env)
         = Sqlite_MigrateUp \<lparr>Acquire = Ok (OpenDB env conn), IofsNew = IofsNew env, OpenDB = id,
             WithInstance = WithInstance env, NewWithInstance = NewWithInstance env, Up = Up env\<rparr> (OpenDB env conn)
       \<and> snd (Pg_MigrateUp env) = (if is_ok (IofsNew env)
           then [Acquired, Opened, ClosedDB, Released] else [Acquired, Released])
       \<and> (fst (Pg_MigrateUp env) = Ok () \<longleftrightarrow> (\<exists>src drv m. IofsNew env = Ok src
             \<and> WithInstance env (OpenDB env conn) = Ok drv \<and> NewWithInstance env src drv = Ok m
             \<and> (Up env m = Ok () \<or> (\<exists>e. Up env m = Err e \<and> errors_Is e ErrNoChange))))
   | _ \<Rightarrow> \<not> is_ok (fst (Pg_MigrateUp env)) \<and> snd (Pg_MigrateUp env) = []"
  by (cases "IofsNew env")
     (auto simp: Pg_MigrateUp_def Sqlite_MigrateUp_def deferring_def outcome_simps run_up_Ok_iff
       split: outcome.split)

end
