(* ===== verification/Cfg_Loader.thy ===== *)
theory Cfg_Loader
  imports Go_Prelude
begin

text \<open>
  \<open>Load\<close> of \<open>src/cfg/loader.go\<close>. The environment reader, the file system and the YAML decoder
  are parameters (the record \<open>sources\<close>); each may change the configuration it is given and
  report an error. The result is returned together with the error, as in the code, and with
  whether the file was closed.
\<close>

record loadCfg =
  prefix :: string
  filePath :: string

type_synonym load_opt = "loadCfg \<Rightarrow> loadCfg"

definition WithPrefix :: "string \<Rightarrow> load_opt" where "WithPrefix p = (\<lambda>cfg. cfg\<lparr>prefix := p\<rparr>)"
definition WithFilePath :: "string \<Rightarrow> load_opt" where "WithFilePath p = (\<lambda>cfg. cfg\<lparr>filePath := p\<rparr>)"

definition load_config :: "load_opt list \<Rightarrow> loadCfg" where
  "load_config opts = fold (\<lambda>opt cfg. opt cfg) opts \<lparr>prefix = [], filePath = []\<rparr>"

record ('c, 'f) sources =
  Process :: "string \<Rightarrow> 'c \<Rightarrow> 'c \<times> string option"
  OpenFile :: "string \<Rightarrow> string + 'f"
  Decode :: "'f \<Rightarrow> 'c \<Rightarrow> 'c \<times> string option"
  zero_cfg :: 'c

datatype load_error = ProcessFailed string | OpenFailed string | DecodeFailed string

definition Load :: "('c, 'f) sources \<Rightarrow> load_opt list \<Rightarrow> 'c \<times> load_error option \<times> bool" where
  "Load src opts =
     (let cfg = load_config opts in
      case Process src (prefix cfg) (zero_cfg src) of
        (result, Some err) \<Rightarrow> (result, Some (ProcessFailed err), False)
      | (result, None) \<Rightarrow>
          if length (filePath cfg) > 0
          then (case OpenFile src (filePath cfg) of
                  Inl err \<Rightarrow> (result, Some (OpenFailed err), False)
                | Inr file \<Rightarrow> (case Decode src file result of
                      (result, Some err) \<Rightarrow> (result, Some (DecodeFailed err), True)
                    | (result, None) \<Rightarrow> (result, None, True)))
          else (result, None, False))"

text \<open>
  The order of precedence of the documentation: a key the file sets has the file's value;
  any other key has the value of its environment variable, or its dflt when the variable is
  not set; without a file path no file is opened. An opened file is closed.
\<close>

lemma load_precedence:
  assumes env: "\<And>p k. get k (fst (Process src p (zero_cfg src)))
        = (case vars p k of Some v \<Rightarrow> v | None \<Rightarrow> dflt k)"
    and yaml: "\<And>f c k. get k (fst (Decode src f c)) = (case entries f k of Some v \<Rightarrow> v | None \<Rightarrow> get k c)"
    and ok: "Load src (opts @ [WithPrefix p, WithFilePath path]) = (result, None, closed)"
  shows "if path = [] then \<not> closed \<and> get k result = (case vars p k of Some v \<Rightarrow> v | None \<Rightarrow> dflt k)
    else closed \<and> (\<exists>file. OpenFile src path = Inr file \<and> get k result = (case entries file k of Some v \<Rightarrow> v
        | None \<Rightarrow> (case vars p k of Some v \<Rightarrow> v | None \<Rightarrow> dflt k)))"
proof -
  have cfg: "prefix (load_config (opts @ [WithPrefix p, WithFilePath path])) = p"
    "filePath (load_config (opts @ [WithPrefix p, WithFilePath path])) = path"
    by (simp_all add: load_config_def WithPrefix_def WithFilePath_def)
  obtain c e where c: "Process src p (zero_cfg src) = (c, e)" by fastforce
  with env [of k p] have get_c: "get k c = (case vars p k of Some v \<Rightarrow> v | None \<Rightarrow> dflt k)" by simp
  show ?thesis
  proof (cases "path = []")
    case True
    then show ?thesis using ok cfg c get_c by (auto simp: Load_def Let_def split: option.splits)
  next
    case False
    then obtain f where "OpenFile src path = Inr f" "closed" "result = fst (Decode src f c)"
      using ok cfg c by (auto simp: Load_def Let_def split: option.splits sum.splits prod.splits)
    with False show ?thesis using yaml [of k f c] get_c by (cases "entries f k") simp_all
  qed
qed

definition demo_sources :: "(string \<Rightarrow> nat, nat) sources" where
  "demo_sources = \<lparr>Process = (\<lambda>p c. ((\<lambda>k. if k = ''port'' then 1 else 7), None)),
     OpenFile = (\<lambda>path. Inr 5), Decode = (\<lambda>f c. (c(''host'' := f), None)), zero_cfg = (\<lambda>_. 0)\<rparr>"

end
