(* ===== verification/Net_Params.thy ===== *)
theory Net_Params
  imports Go_Prelude
begin

text \<open>
  The network parameters of \<open>src/utxo-lib/netparams/params.go\<close>. A string is the sequence of its
  runes; \<open>strings.ToLower\<close> maps each of them, the ASCII letters as below and the others by the
  Unicode tables, which are a parameter.
\<close>

type_synonym runes = "nat list"

record net_params =
  Net :: "32 word"
  PubKeyHashAddrID :: byte
  ScriptHashAddrID :: byte
  Bech32HRPSegwit :: runes

definition runes_of :: "string \<Rightarrow> runes" where
  "runes_of s = map of_char s"

definition lower_rune :: "(nat \<Rightarrow> nat) \<Rightarrow> nat \<Rightarrow> nat" where
  "lower_rune unicode r = (if r < 128 then (if 65 \<le> r \<and> r \<le> 90 then r + 32 else r) else unicode r)"

definition ToLower :: "(nat \<Rightarrow> nat) \<Rightarrow> runes \<Rightarrow> runes" where
  "ToLower unicode s = map (lower_rune unicode) s"

definition IsBech32SegwitPrefix :: "(nat \<Rightarrow> nat) \<Rightarrow> net_params \<Rightarrow> runes \<Rightarrow> bool" where
  "IsBech32SegwitPrefix unicode p prefix =
     (let prefix = ToLower unicode prefix in Bech32HRPSegwit p @ runes_of ''1'' = prefix)"

definition BitcoinMainNet :: net_params where
  "BitcoinMainNet = \<lparr>Net = 0xd9b4bef9, PubKeyHashAddrID = 0x00, ScriptHashAddrID = 0x05, Bech32HRPSegwit = runes_of ''bc''\<rparr>"

definition BitcoinRegNet :: net_params where
  "BitcoinRegNet = \<lparr>Net = 0xdab5bffa, PubKeyHashAddrID = 0x6f, ScriptHashAddrID = 0xc4, Bech32HRPSegwit = runes_of ''bcrt''\<rparr>"

definition BitcoinTestNet3 :: net_params where
  "BitcoinTestNet3 = \<lparr>Net = 0x0709110b, PubKeyHashAddrID = 0x6f, ScriptHashAddrID = 0xc4, Bech32HRPSegwit = runes_of ''tb''\<rparr>"

definition BitcoinTestNet4 :: net_params where
  "BitcoinTestNet4 = \<lparr>Net = 0x283f161c, PubKeyHashAddrID = 0x6f, ScriptHashAddrID = 0xc4, Bech32HRPSegwit = runes_of ''tb''\<rparr>"

lemmas networks = BitcoinMainNet_def BitcoinRegNet_def BitcoinTestNet3_def BitcoinTestNet4_def

text \<open>The runes that lower to a given lower-case ASCII rune, when no other rune does.\<close>

lemma lower_rune_eq:
  "(\<And>r. 128 \<le> r \<Longrightarrow> unicode r \<noteq> c) \<Longrightarrow> c < 128 \<Longrightarrow> \<not> (65 \<le> c \<and> c \<le> 90) \<Longrightarrow>
     lower_rune unicode r = c \<longleftrightarrow> r = c \<or> 97 \<le> c \<and> c \<le> 122 \<and> r + 32 = c"
  by (auto simp: lower_rune_def)

lemma hrps:
  "Bech32HRPSegwit BitcoinMainNet = [98, 99]" "Bech32HRPSegwit BitcoinRegNet = [98, 99, 114, 116]"
  "Bech32HRPSegwit BitcoinTestNet3 = [116, 98]" "Bech32HRPSegwit BitcoinTestNet4 = [116, 98]"
  by (simp_all add: networks runes_of_def)

lemma same_hrp:
  "IsBech32SegwitPrefix unicode p s \<Longrightarrow> IsBech32SegwitPrefix unicode q s \<Longrightarrow> Bech32HRPSegwit p = Bech32HRPSegwit q"
  by (metis IsBech32SegwitPrefix_def append_same_eq)

text \<open>
  The prefix test accepts exactly the upper- and lower-case spellings of the network's prefix
  and the separator: for the main network the four spellings of \<open>bc1\<close>, so no prefix belongs to
  two networks, except that the two test networks share theirs (as they share their address
  bytes) and only their magic numbers tell them apart. (No rune outside ASCII lowers to one of
  the letters or the digit of the prefixes.)
\<close>

lemma segwit_prefix_networks:
  assumes "\<And>r. 128 \<le> r \<Longrightarrow> unicode r \<notin> set (runes_of ''bcrt1'')"
  shows "(IsBech32SegwitPrefix unicode BitcoinMainNet s \<longleftrightarrow>
      s \<in> {runes_of ''bc1'', runes_of ''Bc1'', runes_of ''bC1'', runes_of ''BC1''})
    \<and> (\<forall>p \<in> {BitcoinMainNet, BitcoinRegNet, BitcoinTestNet3, BitcoinTestNet4}.
         \<forall>q \<in> {BitcoinMainNet, BitcoinRegNet, BitcoinTestNet3, BitcoinTestNet4}.
         IsBech32SegwitPrefix unicode p s \<longrightarrow> IsBech32SegwitPrefix unicode q s \<longrightarrow>
         p = q \<or> {p, q} = {BitcoinTestNet3, BitcoinTestNet4} \<and> Net p \<noteq> Net q
           \<and> PubKeyHashAddrID p = PubKeyHashAddrID q \<and> ScriptHashAddrID p = ScriptHashAddrID q)"
proof
  have "unicode r \<noteq> 98 \<and> unicode r \<noteq> 99 \<and> unicode r \<noteq> 49" if "128 \<le> r" for r
    using assms [OF that] by (auto simp: runes_of_def)
  then have "lower_rune unicode r = 98 \<longleftrightarrow> r = 98 \<or> r = 66" "lower_rune unicode r = 99 \<longleftrightarrow> r = 99 \<or> r = 67"
    "lower_rune unicode r = 49 \<longleftrightarrow> r = 49" for r
    using lower_rune_eq [of unicode 98 r] lower_rune_eq [of unicode 99 r] lower_rune_eq [of unicode 49 r] by auto
  then show "IsBech32SegwitPrefix unicode BitcoinMainNet s \<longleftrightarrow>
      s \<in> {runes_of ''bc1'', runes_of ''Bc1'', runes_of ''bC1'', runes_of ''BC1''}"
    by (auto simp: IsBech32SegwitPrefix_def networks runes_of_def ToLower_def Let_def map_eq_Cons_conv
        Cons_eq_map_conv)
  show "\<forall>p \<in> {BitcoinMainNet, BitcoinRegNet, BitcoinTestNet3, BitcoinTestNet4}.
         \<forall>q \<in> {BitcoinMainNet, BitcoinRegNet, BitcoinTestNet3, BitcoinTestNet4}.
         IsBech32SegwitPrefix unicode p s \<longrightarrow> IsBech32SegwitPrefix unicode q s \<longrightarrow>
         p = q \<or> {p, q} = {BitcoinTestNet3, BitcoinTestNet4} \<and> Net p \<noteq> Net q
           \<and> PubKeyHashAddrID p = PubKeyHashAddrID q \<and> ScriptHashAddrID p = ScriptHashAddrID q"
  proof (intro ballI impI)
    fix p q
    assume p: "p \<in> {BitcoinMainNet, BitcoinRegNet, BitcoinTestNet3, BitcoinTestNet4}"
      and q: "q \<in> {BitcoinMainNet, BitcoinRegNet, BitcoinTestNet3, BitcoinTestNet4}"
      and "IsBech32SegwitPrefix unicode p s" "IsBech32SegwitPrefix unicode q s"
    then have "Bech32HRPSegwit p = Bech32HRPSegwit q" using same_hrp by blast
    then have "p = q \<or> (p = BitcoinTestNet3 \<and> q = BitcoinTestNet4) \<or> (p = BitcoinTestNet4 \<and> q = BitcoinTestNet3)"
      using p q by (elim insertE emptyE) (simp_all add: hrps)
    then show "p = q \<or> {p, q} = {BitcoinTestNet3, BitcoinTestNet4} \<and> Net p \<noteq> Net q
           \<and> PubKeyHashAddrID p = PubKeyHashAddrID q \<and> ScriptHashAddrID p = ScriptHashAddrID q"
      by (auto simp: BitcoinTestNet3_def BitcoinTestNet4_def)
  qed
qed

end
