(* ===== verification/Spec2Isabelle.thy ===== *)
theory Spec2Isabelle
  imports Evm_Wrappers Evm_Wiring Evm_Interface Worker_Queue Worker_Drain Application Jsonrpc_Client Db_Manager Db_Migrate Cfg_Loader Net_Params
begin

text \<open>
  A verification of the Go libraries of this repository. The libraries are independent of each
  other; what they share is Go itself, which the \<open>Go_\<dots>\<close> theories model.

  \<^bold>\<open>Go.\<close> \<open>Go_Prelude\<close>: the outcome of a call (a result, an error or a run-time panic), 64-bit
  integers with wrap-around, slices with their run-time check, big-endian numbers, the loop over a
  list with an accumulator. \<open>Go_Hex\<close> and \<open>Go_Url\<close>: \<open>encoding/hex\<close> and the parts of \<open>net/url\<close>
  behind a connection string, with their round trips. \<open>Go_Float\<close>: \<open>float64\<close> comparisons (NaN
  included), the rounded quotient of two integers, 32-bit wrap-around. \<open>Go_Steps\<close>: concurrent
  code as event systems (a partial step function; \<open>exec\<close> runs a sequence of events,
  \<open>reachable\<close> are the states of all interleavings), the locale \<open>invariant_of\<close> for their
  invariants, the locale \<open>simulates\<close> for refinement between two of them, and the counting of
  goroutines at a program point. \<open>Go_Errgroup\<close>: what the code relies on of \<open>errgroup\<close>.

  \<^bold>\<open>evm-lib\<close> (calldata decoding). \<open>Evm_Types\<close> models \<open>parser/types/types.go\<close>, \<open>Evm_Abi\<close> the
  readers of \<open>codecs/abi.go\<close> (the locale \<open>word_reader\<close> is their contract at a byte offset,
  interpreted for the three readers) and \<open>Evm_Abi_Spec\<close> the ABI encoders they undo. \<open>Evm_Codecs\<close>
  has the five fixed-layout codecs and the locale \<open>decoder\<close>, the contract of Go's \<open>Decoder\<close>
  (no panic, a well-formed result, refusal of foreign selectors), which every codec is an
  interpretation of; \<open>Evm_Batch\<close> the disperse and multisend codecs, \<open>Evm_Heuristic\<close> the
  fallback scan with its declarative reading, \<open>Evm_Multicall\<close> the two wrapper codecs over the
  locale \<open>sub_parser\<close>, \<open>Evm_Chain\<close> the chain and the parser. Chains and wrappers are mutable
  objects on a heap (\<open>evm_heap\<close>), so that a wrapper may point back to the chain that contains it.
  The recursion runs on a stack of bounded depth; \<open>ParseBytes\<close> uses a depth one above the length
  of the calldata. This is enough because a wrapper hands its sub-parser only payloads shorter
  than its own calldata: any larger depth gives the same outcome and none overflows, so
  \<open>ParseBytes\<close> satisfies the recursive equation of the code. \<open>Evm_Wrappers\<close> has the round trips
  of the batches and the independence of the registration order. \<open>Evm_Wiring\<close> goes one level
  below that heap, to the arrays behind the slices \<open>NewChain\<close> keeps and \<open>Add\<close> appends to: the
  store refines the heap of lists unless a slice with spare capacity is given to two chains. The
  heap holds codecs of the package; \<open>Evm_Interface\<close> has the dispatch over any values of the
  interface \<open>Decoder\<close>, nil ones and decoders of the caller included. Encodings are below \<open>2 ^ 31\<close>
  bytes and arrays have at most 10000 elements, the limits of the readers.

  \<^bold>\<open>workers\<close> (worker pool). \<open>Worker_Config\<close> has the options and checks of \<open>New\<close>,
  \<open>Worker_Pool\<close> the pool: the struct, and the goroutines on it with one program point per access
  to shared state (\<open>Submit\<close>, \<open>Close\<close>, the worker loop of \<open>spawn\<close>, the autoscaler, \<open>Start\<close>).
  \<open>Worker_Props\<close> proves the invariants of all interleavings: the counters are exactly the
  goroutines they count, the channel is closed once, every accepted item is in one place;
  \<open>Worker_Live\<close> that the pool can always be stopped once its context is done.
  \<open>Worker_Claims\<close> has the properties; \<open>Worker_Queue\<close> states what a pool is meant to be, a bounded
  first-in-first-out queue, and proves that every interleaving refines it; \<open>Worker_Drain\<close> that a
  worker can always empty the queue, and how an accepted item may still never be handled. The
  handler (its results and panics), the error group and the clock are parameters (choices of the
  events); \<open>Start\<close> is called once per pool.

  \<^bold>\<open>observer\<close>. \<open>Observer\<close> models the subject, its registrations, the rendezvous on the unbuffered
  channel, the worker loop and \<open>Run\<close> (any number of calls); \<open>Observer_Props\<close> proves that fan-out
  is exact and when the subject panics, \<open>Observer_Run\<close> why a \<open>Run\<close> returned (the relation
  \<open>run_effect\<close> is what a step does to the calls of \<open>Run\<close>), \<open>Observer_Live\<close> that it returns when
  its context is done or an observer fails, unless another \<open>Run\<close> has closed the channel. An event may be nil and an observer may panic, which
  stops the process.

  \<^bold>\<open>graceful\<close>. \<open>Graceful\<close> has the signal runner, the worker and ticker loops as functions of what
  they receive, and their loggers. \<open>Graceful_Group\<close> models \<open>WaitContext\<close>: a runner is known to
  the group by its contract (what it may return before and after its context is over), and the
  locale \<open>runner_system\<close> is the interface of a runner that is an event system of its own, which
  then refines that contract. \<open>Graceful_Servers\<close> has the HTTP, gRPC and cron runners as such
  systems, with the options and interceptors: two goroutines, the server they share, its clients,
  the clock and the deadline of \<open>Shutdown\<close>. \<open>net/http\<close> is modelled as documented, with the error of
  closing the listener and hijacked connections; \<open>timely_step\<close> are the runs in which goroutines
  and timers that are due are not held up. \<open>Graceful_Claims\<close> proves what they promise to the
  group, what is left running when they return, how long they take, and when the group ends.

  \<^bold>\<open>Applications.\<close> The packages meet in a \<open>WaitContext\<close> group, whose runners may be servers,
  \<open>pool.Start\<close> and \<open>subject.Run\<close>. \<open>Pool_Runner\<close> and \<open>Subject_Runner\<close> show that the last two are
  runners and what they promise; \<open>Graceful_App\<close> interleaves the steps of all runners of a group
  (the locales \<open>runner_family\<close> and \<open>stoppable_family\<close>, closed under sums of kinds of runners);
  \<open>Application\<close> puts all kinds together and proves that any application refines its group and can
  always be shut down once the context is over, by the steps of its runners (\<open>process_own\<close>) alone.

  \<^bold>\<open>jsonrpc\<close>. \<open>Jsonrpc\<close> models requests, headers, options and the pipeline of \<open>Execute\<close> over an
  arbitrary codec and transport: when it succeeds, what it sends, how much it reads, when it can
  panic. \<open>Jsonrpc_Client\<close> has the settings of the default client, the exchange of a request in time
  as \<open>net/http\<close> documents its time-outs, and what they mean for \<open>Execute\<close>.

  \<^bold>\<open>db\<close>. \<open>Db_Tx\<close> has contexts with values and a done channel, wrapped errors, the driver as a
  parameter (it is given the contexts, so that it may react to their end), and the locale \<open>tx_manager\<close>, the contract of a transaction manager with \<open>Transactional\<close> as its client;
  \<open>Db_Postgres\<close> and \<open>Db_Sqlite\<close> interpret it and model the connectors (the connection string
  with its escaping, the limits of a SQLite handle); \<open>Db_Manager\<close> the managers as constructed, with
  nil queries or a nil manager, and which queries a callback gets; \<open>Db_Migrate\<close> both migration runners.

  \<^bold>\<open>cfg\<close> and \<^bold>\<open>utxo-lib\<close>. \<open>Cfg_Loader\<close> models \<open>Load\<close> over its two sources, \<open>Net_Params\<close> the
  network constants and the prefix test.

  \<^bold>\<open>Not modelled.\<close> The bytes and texts of log lines, and everything inside third-party packages
  (\<open>errgroup\<close>, \<open>eris\<close>, \<open>zerolog\<close>, gRPC, cron, \<open>pgx\<close>, \<open>migrate\<close>, \<open>sonic\<close>, \<open>envconfig\<close>,
  \<open>go-yaml\<close>), which are parameters with the behaviour relied on as hypotheses. A slice bound
  above the length is a panic; the code has no slice expression that relies on spare capacity
  (\<open>append\<close> does, and is modelled where slices are shared). How \<open>pgx\<close> reads a connection string
  and how \<open>database/sql\<close> hands out connections are theirs; the redirects of an HTTP client are part of
  its \<open>Do\<close>.

  \<^bold>\<open>Where the code falls short\<close> is proved as well: the parser panics on calldata shorter than a
  selector, the bounds check of \<open>ReadWordAt\<close> overflows, the multisend codec ignores bits of a
  length field, the heuristic accepts its documented upper bound, \<open>Submit\<close> and \<open>Notify\<close> race
  with closing, a nil event stops the process, an accepted item can be lost, the pool can shrink to
  nothing and then never handles an item again, \<open>New\<close> accepts
  unusable settings, a panicking callback, or nil queries, leave a transaction open, two connection
  settings can share a connection string when a port has a colon, a nil decoder panics on the first
  calldata that reaches it, a large response limit lets a server crash the client,
  a channel worker keeps a group from shutting down, the cron runner leaves jobs running, and two
  chains made from one slice overwrite each other.
\<close>

end
